(* ===== verification/GoBase.thy ===== *)
theory GoBase
  imports Main "HOL-Library.Word"
begin

text \<open>
  Shared vocabulary of the development: machine integers and byte slices of Go, big-endian
  readings of byte slices, and the generic facts about lists and words that the component
  theories use.

  A Go slice is a list, a Go \<open>int\<close> that is a length or an index is a \<open>nat\<close>, a Go \<open>uint64\<close> is a
  \<open>64 word\<close>, and a fallible Go function returns a sum whose left summand is the error value; a run
  time panic is one more error value of each component.
\<close>

unbundle bit_operations_syntax

type_synonym byte = "8 word"
type_synonym bytes = "byte list"
type_synonym u16 = "16 word"
type_synonym u64 = "64 word"

named_theorems go_simps

section \<open>Big-endian integers\<close>

text \<open>\<open>be_nat bs\<close> is the number that the bytes \<open>bs\<close> denote, most significant byte first.\<close>

fun be_nat_acc :: "nat \<Rightarrow> bytes \<Rightarrow> nat" where
  "be_nat_acc n [] = n"
| "be_nat_acc n (b # bs) = be_nat_acc (n * 256 + unat b) bs"

definition be_nat :: "bytes \<Rightarrow> nat" where
  "be_nat bs = be_nat_acc 0 bs"

fun be_word_acc :: "u64 \<Rightarrow> bytes \<Rightarrow> u64" where
  "be_word_acc w [] = w"
| "be_word_acc w (b # bs) = be_word_acc (push_bit 8 w OR ucast b) bs"

lemma unat_byte_less [simp]: "unat (b :: byte) < 256"
  using unsigned_less [of b] by simp

lemma unat_of_nat_byte: "n < 256 \<Longrightarrow> unat (word_of_nat n :: byte) = n"
  by (simp add: unat_of_nat)

lemma unat_of_nat_u64: "n < 2 ^ 64 \<Longrightarrow> unat (word_of_nat n :: u64) = n"
  by (simp add: unat_of_nat)

lemma be_nat_acc_eq: "be_nat_acc n bs = n * 256 ^ length bs + be_nat_acc 0 bs"
proof (induction bs arbitrary: n)
  case Nil
  show ?case by simp
next
  case (Cons b bs)
  have "be_nat_acc (n * 256 + unat b) bs = (n * 256 + unat b) * 256 ^ length bs + be_nat_acc 0 bs"
    by (rule Cons.IH)
  moreover have "be_nat_acc (unat b) bs = unat b * 256 ^ length bs + be_nat_acc 0 bs"
    by (rule Cons.IH)
  ultimately show ?case by (simp add: algebra_simps)
qed

lemma be_nat_Nil [simp]: "be_nat [] = 0"
  by (simp add: be_nat_def)

lemma be_nat_Cons: "be_nat (b # bs) = unat b * 256 ^ length bs + be_nat bs"
  using be_nat_acc_eq [of "unat b" bs] by (simp add: be_nat_def)

lemma be_nat_single [simp]: "be_nat [b] = unat b"
  by (simp add: be_nat_Cons)

lemma be_nat_bound: "be_nat bs < 256 ^ length bs"
proof (induction bs)
  case Nil
  show ?case by simp
next
  case (Cons b bs)
  have "unat b + 1 \<le> 256" using unat_byte_less [of b] by linarith
  then have "(unat b + 1) * 256 ^ length bs \<le> 256 * 256 ^ length bs"
    by (rule mult_le_mono1)
  then have "unat b * 256 ^ length bs + 256 ^ length bs \<le> 256 ^ length (b # bs)"
    by (simp add: distrib_right)
  with Cons.IH be_nat_Cons [of b bs] show ?case by linarith
qed

lemma be_nat_lower: "bs \<noteq> [] \<Longrightarrow> hd bs \<noteq> 0 \<Longrightarrow> 256 ^ (length bs - 1) \<le> be_nat bs"
proof (cases bs)
  case (Cons b cs)
  assume "hd bs \<noteq> 0"
  with Cons have "1 \<le> unat b" by (simp add: Suc_le_eq unat_gt_0)
  then have "1 * 256 ^ length cs \<le> unat b * 256 ^ length cs" by (rule mult_le_mono1)
  then have "256 ^ length cs \<le> be_nat (b # cs)"
    unfolding be_nat_Cons by linarith
  with Cons show ?thesis by simp
qed simp

lemma be_nat_inj:
  "length xs = length ys \<Longrightarrow> be_nat xs = be_nat ys \<Longrightarrow> xs = ys"
proof (induction xs ys rule: list_induct2)
  case Nil
  show ?case by simp
next
  case (Cons x xs y ys)
  let ?m = "256 ^ length xs"
  have eq: "unat x * ?m + be_nat xs = unat y * ?m + be_nat ys"
    using Cons.prems Cons.hyps by (simp add: be_nat_Cons)
  have bx: "be_nat xs < ?m" and by': "be_nat ys < ?m"
    using be_nat_bound [of xs] be_nat_bound [of ys] Cons.hyps by simp_all
  have "unat x = (unat x * ?m + be_nat xs) div ?m" using bx by simp
  also have "\<dots> = (unat y * ?m + be_nat ys) div ?m" using eq by simp
  also have "\<dots> = unat y" using by' by simp
  finally have "unat x = unat y" .
  then have "x = y" by (simp only: unsigned_word_eqI)
  with eq have "be_nat xs = be_nat ys" by simp
  with Cons.IH \<open>x = y\<close> show ?case by simp
qed

lemma unat_push_or:
  fixes w :: u64 and b :: byte
  assumes "unat w < 2 ^ 56"
  shows "unat (push_bit 8 w OR ucast b) = unat w * 256 + unat b"
proof -
  have disj: "push_bit 8 w AND ucast b = 0"
  proof (rule bit_eqI)
    fix n assume "possible_bit TYPE(64 word) n"
    show "bit (push_bit 8 w AND ucast b) n = bit (0 :: u64) n"
      by (auto simp: bit_simps not_le dest: bit_imp_le_length)
  qed
  have small: "unat w * 256 < 2 ^ 64" using assms by simp
  have "unat (push_bit 8 w) = unat w * 256"
    using small by (simp add: push_bit_eq_mult unat_word_ariths)
  moreover have "unat (ucast b :: u64) = unat b"
    by (simp add: unsigned_ucast_eq take_bit_nat_eq_self_iff unat_byte_less [THEN order.strict_trans])
  moreover have "push_bit 8 w OR ucast b = push_bit 8 w + (ucast b :: u64)"
    using disj by (simp add: disjunctive_add_eq_or)
  moreover have "unat w * 256 + unat b < 2 ^ 64"
  proof -
    have "unat w + 1 \<le> 2 ^ 56" using assms by simp
    then have "(unat w + 1) * 256 \<le> 2 ^ 56 * 256" by (rule mult_le_mono1)
    then have "unat w * 256 + 256 \<le> 2 ^ 64" by simp
    with unat_byte_less [of b] show ?thesis by linarith
  qed
  ultimately show ?thesis by (simp add: unat_word_ariths)
qed

lemma unat_be_word_acc:
  "unat w < 256 ^ k \<Longrightarrow> k + length bs \<le> 8 \<Longrightarrow> unat (be_word_acc w bs) = be_nat_acc (unat w) bs"
proof (induction bs arbitrary: w k)
  case Nil
  then show ?case by simp
next
  case (Cons b bs)
  have "(256::nat) ^ k \<le> 256 ^ 7"
    using Cons.prems(2) by (intro power_increasing) auto
  with Cons.prems(1) have "unat w < 2 ^ 56" by simp
  then have step: "unat (push_bit 8 w OR ucast b) = unat w * 256 + unat b"
    by (rule unat_push_or)
  have "unat w * 256 + unat b < 256 ^ Suc k"
  proof -
    have "(unat w + 1) * 256 \<le> 256 ^ k * 256"
      using Cons.prems(1) by (intro mult_le_mono1) simp
    then have "unat w * 256 + 256 \<le> 256 ^ Suc k"
      by (simp add: algebra_simps)
    with unat_byte_less [of b] show ?thesis by linarith
  qed
  with Cons.IH [of "push_bit 8 w OR ucast b" "Suc k"] step Cons.prems(2)
  show ?case by simp
qed

lemma unat_be_word: "length bs \<le> 8 \<Longrightarrow> unat (be_word_acc 0 bs) = be_nat bs"
  using unat_be_word_acc [of 0 0 bs] by (simp add: be_nat_def)

section \<open>Bytes of a big integer\<close>

text \<open>\<open>big.Int.Bytes\<close>: the absolute value, big endian, without leading zeros.\<close>

fun bigBytes :: "nat \<Rightarrow> bytes" where
  "bigBytes n = (if n = 0 then [] else bigBytes (n div 256) @ [word_of_nat (n mod 256)])"

declare bigBytes.simps [simp del]

lemma be_nat_acc_snoc: "be_nat_acc n (bs @ [b]) = be_nat_acc n bs * 256 + unat b"
  by (induction bs arbitrary: n) simp_all

lemma be_nat_bigBytes: "be_nat (bigBytes n) = n"
proof (induction n rule: bigBytes.induct)
  case (1 n)
  show ?case
  proof (cases "n = 0")
    case False
    have "unat (word_of_nat (n mod 256) :: byte) = n mod 256" by (rule unat_of_nat_byte) simp
    with 1 False show ?thesis
      by (simp add: bigBytes.simps [of n] be_nat_def be_nat_acc_snoc)
  qed (simp add: bigBytes.simps)
qed

lemma hd_bigBytes: "n \<noteq> 0 \<Longrightarrow> bigBytes n \<noteq> [] \<and> bigBytes n ! 0 \<noteq> 0"
proof (induction n rule: bigBytes.induct)
  case (1 n)
  show ?case
  proof (cases "n div 256 = 0")
    case True
    then have "n < 256" by (simp add: div_eq_0_iff)
    then have "unat (word_of_nat n :: byte) = n" by (rule unat_of_nat_byte)
    then have "(word_of_nat n :: byte) \<noteq> 0" using 1(2) by (metis unsigned_0)
    moreover have "bigBytes n = [word_of_nat n]"
      using 1(2) True \<open>n < 256\<close> by (simp add: bigBytes.simps [of n] bigBytes.simps [of 0])
    ultimately show ?thesis by simp
  next
    case False
    with 1 have "bigBytes (n div 256) \<noteq> []" "bigBytes (n div 256) ! 0 \<noteq> 0" by auto
    then show ?thesis using 1(2) by (simp add: bigBytes.simps [of n] nth_append)
  qed
qed

section \<open>Lists and sums\<close>

lemma singleton_hd: "length xs = 1 \<Longrightarrow> xs = [hd xs]"
  by (cases xs) auto

lemma take_drop_split: "n + m \<le> length xs \<Longrightarrow>
  xs = take n xs @ take m (drop n xs) @ drop (n + m) xs"
  by (metis add.commute append_take_drop_id drop_drop)

end
