(* ===== verification/RLP_Raw.thy ===== *)
theory RLP_Raw
  imports GoBase
begin

text \<open>
  The byte level of the RLP codec: integer and header output of \<open>rlp/encode.go\<close> (\<open>putint\<close>,
  \<open>intsize\<close>, \<open>headsize\<close>, \<open>puthead\<close>) and the slice splitter of \<open>rlp/raw.go\<close> (\<open>readSize\<close>,
  \<open>readKind\<close>, \<open>Split\<close>, \<open>SplitString\<close>, \<open>SplitList\<close>, \<open>CountValues\<close>, \<open>ListSize\<close>).

  A function of the source that writes into a buffer and returns the number of bytes written is
  modelled by the list of the bytes it writes. An index out of range is the error \<open>RlpPanic\<close>.
\<close>

datatype kind = KByte | KString | KList

datatype rlp_err =
    EOL
  | ErrExpectedString
  | ErrExpectedList
  | ErrCanonInt
  | ErrCanonSize
  | ErrElemTooLarge
  | ErrValueTooLarge
  | ErrMoreThanOneValue
  | ErrNotInList
  | ErrNotAtEOL
  | ErrUintOverflow
  | ErrUnexpectedEOF
  | ErrEOF
  | ErrInvalidBool
  | ErrNegativeBigInt
  | ErrUnaddressable
  | ErrTooFewElements
  | ErrInputTooLong
  | ErrInputTooShort
  | DecodeError rlp_err
  | RlpPanic

section \<open>Writing integers and headers\<close>

definition putint :: "u64 \<Rightarrow> bytes" where
  "putint i =
     (if i < push_bit 8 1 then [ucast i]
      else if i < push_bit 16 1 then [ucast (drop_bit 8 i), ucast i]
      else if i < push_bit 24 1 then [ucast (drop_bit 16 i), ucast (drop_bit 8 i), ucast i]
      else if i < push_bit 32 1 then
        [ucast (drop_bit 24 i), ucast (drop_bit 16 i), ucast (drop_bit 8 i), ucast i]
      else if i < push_bit 40 1 then
        [ucast (drop_bit 32 i), ucast (drop_bit 24 i), ucast (drop_bit 16 i), ucast (drop_bit 8 i),
         ucast i]
      else if i < push_bit 48 1 then
        [ucast (drop_bit 40 i), ucast (drop_bit 32 i), ucast (drop_bit 24 i), ucast (drop_bit 16 i),
         ucast (drop_bit 8 i), ucast i]
      else if i < push_bit 56 1 then
        [ucast (drop_bit 48 i), ucast (drop_bit 40 i), ucast (drop_bit 32 i), ucast (drop_bit 24 i),
         ucast (drop_bit 16 i), ucast (drop_bit 8 i), ucast i]
      else
        [ucast (drop_bit 56 i), ucast (drop_bit 48 i), ucast (drop_bit 40 i), ucast (drop_bit 32 i),
         ucast (drop_bit 24 i), ucast (drop_bit 16 i), ucast (drop_bit 8 i), ucast i])"

lemma unat_drop_bit: "unat (drop_bit n (w :: 'a::len word)) = unat w div 2 ^ n"
  unfolding unat_drop_bit_eq by (rule drop_bit_eq_div)

lemma unat_drop_bit_8_less: "drop_bit 8 i \<noteq> 0 \<Longrightarrow> unat (drop_bit 8 i) < unat (i :: u64)"
proof -
  assume "drop_bit 8 i \<noteq> 0"
  then have "i \<noteq> 0" by auto
  then have "0 < unat i" by (simp add: unat_gt_0)
  then show ?thesis by (simp add: unat_drop_bit)
qed

text \<open>The loop of \<open>intsize\<close>: \<open>i\<close> is shifted before it is tested.\<close>

function intsize_loop :: "nat \<Rightarrow> u64 \<Rightarrow> nat" where
  "intsize_loop n i =
     (let i' = drop_bit 8 i in if i' = 0 then n else intsize_loop (n + 1) i')"
  by pat_completeness auto
termination
  by (relation "measure (\<lambda>(n, i). unat i)") (auto simp: unat_drop_bit_8_less)

declare intsize_loop.simps [simp del]

definition intsize :: "u64 \<Rightarrow> nat" where
  "intsize i = intsize_loop 1 i"

definition headsize :: "u64 \<Rightarrow> nat" where
  "headsize sz = (if sz < 56 then 1 else 1 + intsize sz)"

definition puthead :: "byte \<Rightarrow> byte \<Rightarrow> u64 \<Rightarrow> bytes" where
  "puthead smalltag largetag sz =
     (if sz < 56 then [smalltag + ucast sz]
      else (let s = putint sz in (largetag + word_of_nat (length s)) # s))"

definition ListSize :: "u64 \<Rightarrow> u64" where
  "ListSize contentSize = word_of_nat (headsize contentSize) + contentSize"

section \<open>Splitting encoded slices\<close>

definition readSize :: "bytes \<Rightarrow> byte \<Rightarrow> rlp_err + u64" where
  "readSize b slen =
     (if unat slen > length b then Inl ErrUnexpectedEOF
      else
        (let s =
          (if slen = 1 then ucast (b ! 0)
           else if slen = 2 then push_bit 8 (ucast (b ! 0)) OR ucast (b ! 1)
           else if slen = 3 then
             push_bit 16 (ucast (b ! 0)) OR push_bit 8 (ucast (b ! 1)) OR ucast (b ! 2)
           else if slen = 4 then
             push_bit 24 (ucast (b ! 0)) OR push_bit 16 (ucast (b ! 1)) OR
             push_bit 8 (ucast (b ! 2)) OR ucast (b ! 3)
           else if slen = 5 then
             push_bit 32 (ucast (b ! 0)) OR push_bit 24 (ucast (b ! 1)) OR
             push_bit 16 (ucast (b ! 2)) OR push_bit 8 (ucast (b ! 3)) OR ucast (b ! 4)
           else if slen = 6 then
             push_bit 40 (ucast (b ! 0)) OR push_bit 32 (ucast (b ! 1)) OR
             push_bit 24 (ucast (b ! 2)) OR push_bit 16 (ucast (b ! 3)) OR
             push_bit 8 (ucast (b ! 4)) OR ucast (b ! 5)
           else if slen = 7 then
             push_bit 48 (ucast (b ! 0)) OR push_bit 40 (ucast (b ! 1)) OR
             push_bit 32 (ucast (b ! 2)) OR push_bit 24 (ucast (b ! 3)) OR
             push_bit 16 (ucast (b ! 4)) OR push_bit 8 (ucast (b ! 5)) OR ucast (b ! 6)
           else if slen = 8 then
             push_bit 56 (ucast (b ! 0)) OR push_bit 48 (ucast (b ! 1)) OR
             push_bit 40 (ucast (b ! 2)) OR push_bit 32 (ucast (b ! 3)) OR
             push_bit 24 (ucast (b ! 4)) OR push_bit 16 (ucast (b ! 5)) OR
             push_bit 8 (ucast (b ! 6)) OR ucast (b ! 7)
           else 0)
         in if s < 56 \<or> b ! 0 = 0 then Inl ErrCanonSize else Inr s))"

definition readKind :: "bytes \<Rightarrow> rlp_err + kind \<times> u64 \<times> u64" where
  "readKind buf =
     (case buf of
        [] \<Rightarrow> Inl ErrUnexpectedEOF
      | b # rest \<Rightarrow>
          (case
             (if b < 0x80 then Inr (KByte, 0, 1)
              else if b < 0xB8 then
                (let contentsize = ucast (b - 0x80) in
                 if contentsize = 1 then
                   (case rest of
                      [] \<Rightarrow> Inl RlpPanic
                    | c # _ \<Rightarrow> if c < 128 then Inl ErrCanonSize else Inr (KString, 1, contentsize))
                 else Inr (KString, 1, contentsize))
              else if b < 0xC0 then
                (case readSize rest (b - 0xB7) of
                   Inl e \<Rightarrow> Inl e
                 | Inr cs \<Rightarrow> Inr (KString, ucast (b - 0xB7) + 1, cs))
              else if b < 0xF8 then Inr (KList, 1, ucast (b - 0xC0))
              else
                (case readSize rest (b - 0xF7) of
                   Inl e \<Rightarrow> Inl e
                 | Inr cs \<Rightarrow> Inr (KList, ucast (b - 0xF7) + 1, cs)))
           of
             Inl e \<Rightarrow> Inl e
           | Inr (k, tagsize, contentsize) \<Rightarrow>
               (if contentsize > word_of_nat (length buf) - tagsize then Inl ErrValueTooLarge
                else Inr (k, tagsize, contentsize))))"

definition Split :: "bytes \<Rightarrow> rlp_err + kind \<times> bytes \<times> bytes" where
  "Split b =
     (case readKind b of
        Inl e \<Rightarrow> Inl e
      | Inr (k, ts, cs) \<Rightarrow>
          Inr (k, take (unat cs) (drop (unat ts) b), drop (unat (ts + cs)) b))"

definition SplitString :: "bytes \<Rightarrow> rlp_err + bytes \<times> bytes" where
  "SplitString b =
     (case Split b of
        Inl e \<Rightarrow> Inl e
      | Inr (k, content, rest) \<Rightarrow>
          if k = KList then Inl ErrExpectedString else Inr (content, rest))"

definition SplitList :: "bytes \<Rightarrow> rlp_err + bytes \<times> bytes" where
  "SplitList b =
     (case Split b of
        Inl e \<Rightarrow> Inl e
      | Inr (k, content, rest) \<Rightarrow>
          if k \<noteq> KList then Inl ErrExpectedList else Inr (content, rest))"

lemma ucast_byte_Suc: "ucast (x :: byte) + 1 \<noteq> (0 :: u64)"
proof
  assume "ucast x + 1 = (0 :: u64)"
  moreover have "unat (ucast x :: u64) = unat x"
    by (simp add: unsigned_ucast_eq take_bit_nat_eq_self_iff unat_byte_less [THEN order.strict_trans])
  moreover have "unat (ucast x + 1 :: u64) = (unat (ucast x :: u64) + 1) mod 2 ^ 64"
    by (simp add: unat_word_ariths)
  ultimately have "(unat x + 1) mod 2 ^ 64 = 0" by simp
  moreover have "unat x + 1 < 2 ^ 64" using unat_byte_less [of x] by (simp del: unat_byte_less)
  ultimately show False by simp
qed

lemma readKind_pos: "readKind buf = Inr (k, ts, cs) \<Longrightarrow> 0 < unat ts + unat cs"
proof (rule ccontr)
  assume rk: "readKind buf = Inr (k, ts, cs)" and "\<not> 0 < unat ts + unat cs"
  then have z: "ts = 0" "cs = 0" by (simp_all add: unat_eq_0)
  with rk show False using ucast_byte_Suc
    by (auto simp: readKind_def Let_def split: list.splits sum.splits if_splits)
qed

text \<open>
  The slice \<open>b[tagsize+size:]\<close> of \<open>CountValues\<close> is taken at the sum of the two numbers; the sum
  does not wrap, since \<open>readKind\<close> bounds it by the length of \<open>b\<close>.
\<close>

function CountValues_loop :: "nat \<Rightarrow> bytes \<Rightarrow> rlp_err + nat" where
  "CountValues_loop i b =
     (if b = [] then Inr i
      else
        (case readKind b of
           Inl e \<Rightarrow> Inl e
         | Inr (_, tagsize, sz) \<Rightarrow>
             CountValues_loop (i + 1) (drop (unat tagsize + unat sz) b)))"
  by pat_completeness auto
termination
  by (relation "measure (\<lambda>(i, b). length b)") (auto dest: readKind_pos)

declare CountValues_loop.simps [simp del]

definition CountValues :: "bytes \<Rightarrow> rlp_err + nat" where
  "CountValues b = CountValues_loop 0 b"

section \<open>Integers\<close>

text \<open>Reference: the low \<open>k\<close> bytes of a word, most significant first.\<close>

fun be_bytes :: "nat \<Rightarrow> u64 \<Rightarrow> bytes" where
  "be_bytes 0 i = []"
| "be_bytes (Suc k) i = ucast (drop_bit (8 * k) i) # be_bytes k i"

lemma length_be_bytes [simp]: "length (be_bytes k i) = k"
  by (induction k) auto

lemma unat_u64_less: "unat (i :: u64) < 2 ^ 64"
  using unsigned_less [of i] by simp

lemma unat_ucast_byte: "unat (ucast (w :: u64) :: byte) = unat w mod 256"
  by (simp add: unsigned_ucast_eq take_bit_eq_mod)

lemma unat_ucast_u64: "unat (ucast (b :: byte) :: u64) = unat b"
  by (simp add: unsigned_ucast_eq take_bit_nat_eq_self_iff unat_byte_less [THEN order.strict_trans])

lemma be_nat_be_bytes: "be_nat (be_bytes k i) = unat i mod 256 ^ k"
proof (induction k)
  case 0
  show ?case by simp
next
  case (Suc k)
  have pow: "(2::nat) ^ (8 * k) = 256 ^ k" by (simp add: power_mult)
  have "be_nat (be_bytes (Suc k) i) = (unat i div 256 ^ k mod 256) * 256 ^ k + unat i mod 256 ^ k"
    using Suc by (simp add: be_nat_Cons unat_ucast_byte unat_drop_bit pow)
  also have "\<dots> = unat i mod (256 ^ k * 256)"
    by (simp add: mod_mult2_eq)
  finally show ?case by (simp add: mult.commute)
qed

lemma be_bytes_numeral [simp]:
  "be_bytes (numeral v) i =
     ucast (drop_bit (8 * pred_numeral v) i) # be_bytes (pred_numeral v) i"
  by (simp add: numeral_eq_Suc)

lemma putint_be_bytes:
  "putint i = be_bytes
     (if unat i < 256 ^ 1 then 1 else if unat i < 256 ^ 2 then 2 else if unat i < 256 ^ 3 then 3
      else if unat i < 256 ^ 4 then 4 else if unat i < 256 ^ 5 then 5 else if unat i < 256 ^ 6 then 6
      else if unat i < 256 ^ 7 then 7 else 8) i"
  by (simp add: putint_def word_less_nat_alt)


lemma be_nat_putint [simp]: "be_nat (putint i) = unat i"
proof -
  have "unat i < 256 ^ 8" using unsigned_less [of i] by simp
  then show ?thesis by (simp add: putint_be_bytes be_nat_be_bytes del: be_bytes_numeral)
qed

lemma length_putint_cases:
  "length (putint i) =
     (if unat i < 256 ^ 1 then 1 else if unat i < 256 ^ 2 then 2 else if unat i < 256 ^ 3 then 3
      else if unat i < 256 ^ 4 then 4 else if unat i < 256 ^ 5 then 5 else if unat i < 256 ^ 6 then 6
      else if unat i < 256 ^ 7 then 7 else 8)"
  by (simp add: putint_be_bytes del: be_bytes_numeral)

lemma length_putint_pos [simp]: "0 < length (putint i)"
  and length_putint_le: "length (putint i) \<le> 8"
  by (simp_all add: length_putint_cases)

lemma putint_not_Nil [simp]: "putint i \<noteq> []"
  using length_putint_pos [of i] by (metis length_greater_0_conv)

lemma length_putint_eq:
  "1 \<le> k \<Longrightarrow> k \<le> 8 \<Longrightarrow> 256 ^ (k - 1) \<le> unat i \<Longrightarrow> unat i < 256 ^ k \<Longrightarrow> length (putint i) = k"
proof -
  assume k: "1 \<le> k" "k \<le> 8" and b: "256 ^ (k - 1) \<le> unat i" "unat i < 256 ^ k"
  from k consider "k = 1" | "k = 2" | "k = 3" | "k = 4" | "k = 5" | "k = 6" | "k = 7" | "k = 8"
    by linarith
  then show ?thesis using b by cases (auto simp: length_putint_cases)
qed

lemma putint_bounds:
  "unat i < 256 ^ length (putint i) \<and> (i \<noteq> 0 \<longrightarrow> 256 ^ (length (putint i) - 1) \<le> unat i)"
proof -
  have "unat i < 256 ^ 8" using unsigned_less [of i] by simp
  moreover have "i \<noteq> 0 \<longrightarrow> 1 \<le> unat i" by (simp add: Suc_le_eq unat_gt_0)
  ultimately show ?thesis by (auto simp: length_putint_cases)
qed

lemma hd_putint: "i \<noteq> 0 \<Longrightarrow> hd (putint i) \<noteq> 0"
proof
  assume i: "i \<noteq> 0" and z: "hd (putint i) = 0"
  obtain b bs where p: "putint i = b # bs" by (cases "putint i") auto
  with z have "unat i = be_nat bs"
    using be_nat_putint [of i] by (simp add: be_nat_Cons)
  then have "unat i < 256 ^ length bs" using be_nat_bound [of bs] by simp
  moreover have "256 ^ length bs \<le> unat i" using putint_bounds [of i] i p by simp
  ultimately show False by simp
qed

lemma putint_be_word:
  assumes "b \<noteq> []" "length b \<le> 8" "hd b \<noteq> 0"
  shows "putint (be_word_acc 0 b) = b"
proof -
  have v: "unat (be_word_acc 0 b) = be_nat b" using assms(2) by (rule unat_be_word)
  have "length (putint (be_word_acc 0 b)) = length b"
    using assms be_nat_lower [of b] be_nat_bound [of b] v
    by (intro length_putint_eq) (auto simp: Suc_le_eq)
  then show ?thesis by (rule be_nat_inj) (simp add: v)
qed

lemma be_word_putint [simp]: "be_word_acc 0 (putint i) = i"
  using unat_be_word [OF length_putint_le, of i] by (simp add: word_unat_eq_iff)

lemma intsize_loop_length:
  "intsize_loop n i + 1 = n + length (putint i)"
proof (induction n i rule: intsize_loop.induct)
  case (1 n i)
  let ?j = "drop_bit 8 i"
  have j: "unat ?j = unat i div 256" by (simp add: unat_drop_bit)
  show ?case
  proof (cases "?j = 0")
    case True
    then have "unat i < 256" using j by (simp add: div_eq_0_iff)
    with True show ?thesis by (simp add: intsize_loop.simps [of n i] length_putint_cases)
  next
    case False
    let ?k = "length (putint ?j)"
    have b: "unat ?j < 256 ^ ?k" "256 ^ (?k - 1) \<le> unat ?j"
      using putint_bounds [of ?j] False by auto
    obtain m where m: "?k = Suc m" using length_putint_pos [of ?j] by (cases ?k) auto
    have up: "unat i < 256 ^ Suc ?k"
      using b(1) by (simp add: j div_less_iff_less_mult mult.commute)
    have lo: "256 ^ ?k \<le> unat i"
      using b(2) by (simp add: j m less_eq_div_iff_mult_less_eq mult.commute)
    have "?k < 8"
    proof (rule ccontr)
      assume "\<not> ?k < 8"
      then have "(256::nat) ^ 8 \<le> 256 ^ ?k" by (intro power_increasing) auto
      with lo have "2 ^ 64 \<le> unat i" by simp
      with unat_u64_less [of i] show False by simp
    qed
    then have "length (putint i) = Suc ?k"
      using up lo by (intro length_putint_eq) auto
    moreover have "intsize_loop n i = intsize_loop (n + 1) ?j"
      using False by (simp add: intsize_loop.simps [of n i])
    ultimately show ?thesis using "1.IH" [OF refl False] by simp
  qed
qed

lemma intsize_eq [simp]: "intsize i = length (putint i)"
  using intsize_loop_length [of 1 i] by (simp add: intsize_def)

lemma headsize_puthead: "length (puthead s l sz) = headsize sz"
  by (simp add: puthead_def headsize_def Let_def)

section \<open>Reading sizes\<close>

lemma take_map_nth: "n \<le> length xs \<Longrightarrow> take n xs = map ((!) xs) [0..<n]"
  by (rule nth_equalityI) auto

lemma byte_1_8: "1 \<le> unat (s :: byte) \<Longrightarrow> unat s \<le> 8 \<Longrightarrow> s \<in> {1, 2, 3, 4, 5, 6, 7, 8}"
  by (simp add: word_unat_eq_iff) arith

lemma upt_small:
  "[0..<2] = [0, 1]" "[0..<3] = [0, 1, 2]" "[0..<4] = [0, 1, 2, 3]" "[0..<5] = [0, 1, 2, 3, 4]"
  "[0..<6] = [0, 1, 2, 3, 4, 5]" "[0..<7] = [0, 1, 2, 3, 4, 5, 6]"
  "[0..<8] = [0, 1, 2, 3, 4, 5, 6, 7]"
  by (simp_all add: eval_nat_numeral)

lemma be_word_take:
  "2 \<le> length b \<Longrightarrow> be_word_acc 0 (take 2 b) = push_bit 8 (ucast (b ! 0)) OR ucast (b ! 1)"
  "3 \<le> length b \<Longrightarrow> be_word_acc 0 (take 3 b) =
     push_bit 16 (ucast (b ! 0)) OR push_bit 8 (ucast (b ! 1)) OR ucast (b ! 2)"
  "4 \<le> length b \<Longrightarrow> be_word_acc 0 (take 4 b) =
     push_bit 24 (ucast (b ! 0)) OR push_bit 16 (ucast (b ! 1)) OR
     push_bit 8 (ucast (b ! 2)) OR ucast (b ! 3)"
  "5 \<le> length b \<Longrightarrow> be_word_acc 0 (take 5 b) =
     push_bit 32 (ucast (b ! 0)) OR push_bit 24 (ucast (b ! 1)) OR
     push_bit 16 (ucast (b ! 2)) OR push_bit 8 (ucast (b ! 3)) OR ucast (b ! 4)"
  "6 \<le> length b \<Longrightarrow> be_word_acc 0 (take 6 b) =
     push_bit 40 (ucast (b ! 0)) OR push_bit 32 (ucast (b ! 1)) OR
     push_bit 24 (ucast (b ! 2)) OR push_bit 16 (ucast (b ! 3)) OR
     push_bit 8 (ucast (b ! 4)) OR ucast (b ! 5)"
  "7 \<le> length b \<Longrightarrow> be_word_acc 0 (take 7 b) =
     push_bit 48 (ucast (b ! 0)) OR push_bit 40 (ucast (b ! 1)) OR
     push_bit 32 (ucast (b ! 2)) OR push_bit 24 (ucast (b ! 3)) OR
     push_bit 16 (ucast (b ! 4)) OR push_bit 8 (ucast (b ! 5)) OR ucast (b ! 6)"
  "8 \<le> length b \<Longrightarrow> be_word_acc 0 (take 8 b) =
     push_bit 56 (ucast (b ! 0)) OR push_bit 48 (ucast (b ! 1)) OR
     push_bit 40 (ucast (b ! 2)) OR push_bit 32 (ucast (b ! 3)) OR
     push_bit 24 (ucast (b ! 4)) OR push_bit 16 (ucast (b ! 5)) OR
     push_bit 8 (ucast (b ! 6)) OR ucast (b ! 7)"
  by (simp_all add: take_map_nth upt_small push_bit_or or.assoc)

lemma be_word_take_Suc: "b \<noteq> [] \<Longrightarrow> be_word_acc 0 (take (Suc 0) b) = ucast (b ! 0)"
  by (cases b) auto

text \<open>The eight hand-unrolled cases of \<open>readSize\<close> are one big-endian read.\<close>

lemma readSize_be:
  assumes "1 \<le> unat slen" "unat slen \<le> 8"
  shows "readSize b slen =
    (if unat slen > length b then Inl ErrUnexpectedEOF
     else let s = be_word_acc 0 (take (unat slen) b) in
       if s < 56 \<or> hd b = 0 then Inl ErrCanonSize else Inr s)"
proof (cases "unat slen > length b")
  case True
  then show ?thesis by (simp add: readSize_def)
next
  case False
  then have h: "hd b = b ! 0" using assms(1) by (intro hd_conv_nth) auto
  from byte_1_8 [OF assms] False show ?thesis
    unfolding h by (elim insertE) (simp_all add: readSize_def be_word_take be_word_take_Suc Let_def)
qed


lemma readSize_InrD:
  assumes "readSize b slen = Inr s" "1 \<le> unat slen" "unat slen \<le> 8"
  shows "unat slen \<le> length b" "putint s = take (unat slen) b" "\<not> s < 56"
proof -
  note r = assms(1) [unfolded readSize_be [OF assms(2,3)] Let_def]
  from r show l: "unat slen \<le> length b" by (auto split: if_splits)
  from r l have s: "s = be_word_acc 0 (take (unat slen) b)" and h: "hd b \<noteq> 0" and "\<not> s < 56"
    by (auto split: if_splits)
  then show "\<not> s < 56" by simp
  have "hd (take (unat slen) b) = hd b" using assms(2) by (simp add: hd_take)
  then show "putint s = take (unat slen) b"
    unfolding s using assms(2,3) l h by (intro putint_be_word) auto
qed

lemma readSize_putint:
  assumes "\<not> s < 56"
  shows "readSize (putint s @ r) (word_of_nat (length (putint s))) = Inr s"
proof -
  have u: "unat (word_of_nat (length (putint s)) :: byte) = length (putint s)"
    using length_putint_le [of s] by (intro unat_of_nat_byte) simp
  have "s \<noteq> 0" using assms by auto
  then have "hd (putint s @ r) \<noteq> 0" using hd_putint by (simp add: hd_append)
  with assms u show ?thesis
    by (subst readSize_be) (simp_all add: length_putint_le Suc_le_eq)
qed

section \<open>What a split means\<close>

text \<open>The header and the side condition of a canonical encoding of each kind.\<close>

definition enc_head :: "kind \<Rightarrow> bytes \<Rightarrow> bytes" where
  "enc_head k content =
     (case k of
        KByte \<Rightarrow> []
      | KString \<Rightarrow> puthead 0x80 0xB7 (word_of_nat (length content))
      | KList \<Rightarrow> puthead 0xC0 0xF7 (word_of_nat (length content)))"

definition canon :: "kind \<Rightarrow> bytes \<Rightarrow> bool" where
  "canon k content =
     (case k of
        KByte \<Rightarrow> length content = 1 \<and> hd content < 0x80
      | KString \<Rightarrow> \<not> (length content = 1 \<and> hd content < 0x80)
      | KList \<Rightarrow> True)"

lemma unat_sub_len:
  "n < 2 ^ 64 \<Longrightarrow> unat ts \<le> n \<Longrightarrow> unat (word_of_nat n - ts :: u64) = n - unat ts"
  by (subst unat_sub) (simp_all add: word_le_nat_alt unat_of_nat_u64)

lemma fits_iff:
  "n < 2 ^ 64 \<Longrightarrow> unat ts \<le> n \<Longrightarrow>
   \<not> cs > (word_of_nat n - ts :: u64) \<longleftrightarrow> unat ts + unat cs \<le> n"
  by (simp add: word_less_nat_alt unat_sub_len) linarith

lemma long_head:
  assumes "\<not> s < 56" "unat b = unat l + length (putint s)" "unat l + 8 < 256"
  shows "puthead t l s = b # putint s"
proof -
  have "l + word_of_nat (length (putint s)) = b"
    using assms(2,3) length_putint_le [of s]
    by (simp add: word_unat_eq_iff unat_word_ariths unat_of_nat_byte)
  with assms(1) show ?thesis by (simp add: puthead_def Let_def)
qed

lemma short_head:
  assumes "n < 56" "unat b = unat t + n"
  shows "puthead t l (word_of_nat n) = [b]"
proof -
  have "unat b < 256" by (rule unat_byte_less)
  with assms have "t + ucast (word_of_nat n :: u64) = b"
    by (simp add: word_unat_eq_iff unat_word_ariths unat_ucast_byte unat_of_nat_u64)
  with assms(1) show ?thesis by (simp add: puthead_def word_less_nat_alt unat_of_nat_u64)
qed


lemma unat_byte_minus: "unat c \<le> unat b \<Longrightarrow> unat (b - c :: byte) = unat b - unat c"
  by (simp add: unat_sub word_le_nat_alt)

text \<open>The value \<open>readKind\<close> computes before its last check, by the range of the type tag.\<close>

lemma readKind_long:
  assumes "readKind (b # rest) = Inr (k, ts, cs)" "length (b # rest) < 2 ^ 64"
    and r: "readKind (b # rest) =
      (case (case readSize rest (b - l) of Inl e \<Rightarrow> Inl e | Inr cs \<Rightarrow> Inr (k', ucast (b - l) + 1, cs)) of
         Inl e \<Rightarrow> Inl e
       | Inr (k, tagsize, contentsize) \<Rightarrow>
           (if contentsize > word_of_nat (length (b # rest)) - tagsize then Inl ErrValueTooLarge
            else Inr (k, tagsize, contentsize)))"
    and l: "unat l < unat b" "unat b \<le> unat l + 8"
  shows "k = k' \<and> unat ts + unat cs \<le> length (b # rest) \<and> unat ts = Suc (unat b - unat l) \<and>
    take (unat ts) (b # rest) = b # putint cs \<and> length (putint cs) = unat b - unat l \<and> \<not> cs < 56"
proof -
  have sl: "unat (b - l) = unat b - unat l" using l by (simp add: unat_byte_minus)
  from assms(1) r obtain s where s: "readSize rest (b - l) = Inr s"
    and e: "k = k'" "ts = ucast (b - l) + 1" "cs = s"
      "\<not> cs > word_of_nat (length (b # rest)) - ts"
    by (auto split: sum.splits if_splits)
  have d: "unat (b - l) \<le> length rest" "putint s = take (unat (b - l)) rest" "\<not> s < 56"
    using readSize_InrD [OF s] sl l by auto
  have "unat b < 256" by (rule unat_byte_less)
  then have "unat b - unat l < 256" by linarith
  then have ts: "unat ts = Suc (unat b - unat l)"
    using sl by (simp add: e(2) unat_word_ariths unat_ucast_u64)
  have "unat ts + unat cs \<le> length (b # rest)"
    using e(4) assms(2) d(1) ts sl by (subst (asm) fits_iff) simp_all
  moreover have "length (putint cs) = unat b - unat l" using d(1,2) sl e(3) by simp
  ultimately show ?thesis using d(2,3) ts sl e(1,3) by simp
qed

lemma readKind_short:
  assumes "length (b # rest) < 2 ^ 64" "unat t \<le> unat b" "unat b < unat t + 56"
    and "\<not> ucast (b - t) > word_of_nat (length (b # rest)) - (1 :: u64)"
  shows "1 + (unat b - unat t) \<le> length (b # rest) \<and>
    unat (ucast (b - t) :: u64) = unat b - unat t \<and>
    puthead t l (word_of_nat (unat b - unat t)) = [b]"
proof (intro conjI)
  show u: "unat (ucast (b - t) :: u64) = unat b - unat t"
    using assms(2) by (simp add: unat_ucast_u64 unat_byte_minus)
  show "1 + (unat b - unat t) \<le> length (b # rest)"
    using assms(1,4) u by (subst (asm) fits_iff) simp_all
  show "puthead t l (word_of_nat (unat b - unat t)) = [b]"
    using assms(2,3) by (intro short_head) auto
qed

lemma readKind_InrD:
  assumes "readKind buf = Inr (k, ts, cs)" "length buf < 2 ^ 64"
  shows "unat ts + unat cs \<le> length buf \<and>
    take (unat ts) buf = enc_head k (take (unat cs) (drop (unat ts) buf)) \<and>
    canon k (take (unat cs) (drop (unat ts) buf)) \<and>
    0 < unat ts + unat cs"
proof (cases buf)
  case Nil
  with assms(1) show ?thesis by (simp add: readKind_def)
next
  case (Cons b rest)
  note rk = assms(1) [unfolded Cons] and len = assms(2) [unfolded Cons]
  consider "b < 0x80" | "\<not> b < 0x80" "b < 0xB8" | "\<not> b < 0xB8" "b < 0xC0"
    | "\<not> b < 0xC0" "b < 0xF8" | "\<not> b < 0xF8" by blast
  then show ?thesis
  proof cases
    case 1
    with rk have "k = KByte" "ts = 0" "cs = 1"
      by (auto simp: readKind_def split: if_splits)
    with 1 Cons show ?thesis by (simp add: enc_head_def canon_def)
  next
    case 2
    then have ran: "128 \<le> unat b" "unat b < 184" by (simp_all add: word_less_nat_alt)
    from rk 2 have e: "k = KString" "ts = 1" "cs = ucast (b - 0x80)"
      and fit: "\<not> ucast (b - 0x80) > word_of_nat (length (b # rest)) - (1 :: u64)"
      and one: "ucast (b - 0x80) = (1 :: u64) \<Longrightarrow> \<not> hd rest < 128"
      by (auto simp: readKind_def Let_def split: if_splits list.splits)
    note sh = readKind_short [where t = "0x80" and l = "0xB7", OF len _ _ fit]
    have n: "unat cs = unat b - 128" and h: "puthead 0x80 0xB7 (word_of_nat (unat b - 128)) = [b]"
      and le: "1 + (unat b - 128) \<le> length (b # rest)"
      using sh ran e(3) by simp_all
    have lc: "length (take (unat cs) rest) = unat cs" using le n by simp
    have "canon KString (take (unat cs) rest)"
    proof (cases "unat cs = 1")
      case True
      then have "ucast (b - 0x80) = (1 :: u64)" using e(3) by (simp add: word_unat_eq_iff)
      with one lc True show ?thesis by (cases rest) (auto simp: canon_def)
    next
      case False
      with lc show ?thesis by (simp add: canon_def)
    qed
    with Cons e(1,2) h n le lc show ?thesis by (simp add: enc_head_def)
  next
    case 3
    then have ran: "184 \<le> unat b" "unat b < 192" by (simp_all add: word_less_nat_alt)
    have nb: "\<not> b < 0x80" using ran by (simp add: word_less_nat_alt)
    note L = readKind_long [where l = "0xB7" and k' = KString, OF rk len]
    have "readKind (b # rest) =
      (case (case readSize rest (b - 0xB7) of Inl e \<Rightarrow> Inl e
               | Inr cs \<Rightarrow> Inr (KString, ucast (b - 0xB7) + 1, cs)) of
         Inl e \<Rightarrow> Inl e
       | Inr (k, tagsize, contentsize) \<Rightarrow>
           (if contentsize > word_of_nat (length (b # rest)) - tagsize then Inl ErrValueTooLarge
            else Inr (k, tagsize, contentsize)))"
      using 3 nb by (simp add: readKind_def)
    moreover have "unat (0xB7 :: byte) < unat b" "unat b \<le> unat (0xB7 :: byte) + 8"
      using ran by simp_all
    ultimately have P: "k = KString" "unat ts + unat cs \<le> length (b # rest)"
      "unat ts = Suc (unat b - unat (0xB7 :: byte))" "take (unat ts) (b # rest) = b # putint cs"
      "length (putint cs) = unat b - unat (0xB7 :: byte)" "\<not> cs < 56"
      using L by blast+
    have "puthead 0x80 0xB7 cs = b # putint cs"
      using P(5,6) ran by (intro long_head) auto
    moreover have "length (take (unat cs) (drop (unat ts) (b # rest))) = unat cs" using P(2) by simp
    moreover have "unat cs \<noteq> 1" using P(6) by (simp add: word_less_nat_alt)
    ultimately show ?thesis using P(1,2,3,4) Cons by (auto simp: enc_head_def canon_def)
  next
    case 4
    then have ran: "192 \<le> unat b" "unat b < 248" by (simp_all add: word_less_nat_alt)
    have nb: "\<not> b < 0x80" "\<not> b < 0xB8" using ran by (simp_all add: word_less_nat_alt)
    from rk 4 nb have e: "k = KList" "ts = 1" "cs = ucast (b - 0xC0)"
      and fit: "\<not> ucast (b - 0xC0) > word_of_nat (length (b # rest)) - (1 :: u64)"
      by (auto simp: readKind_def split: if_splits)
    note sh = readKind_short [where t = "0xC0" and l = "0xF7", OF len _ _ fit]
    have "unat cs = unat b - 192" "puthead 0xC0 0xF7 (word_of_nat (unat b - 192)) = [b]"
      "1 + (unat b - 192) \<le> length (b # rest)"
      using sh ran e(3) by simp_all
    with Cons e(1,2) show ?thesis by (simp add: enc_head_def canon_def)
  next
    case 5
    then have ran: "248 \<le> unat b" by (simp_all add: word_less_nat_alt)
    have nb: "\<not> b < 0x80" "\<not> b < 0xB8" "\<not> b < 0xC0" using ran by (simp_all add: word_less_nat_alt)
    have hi: "unat b \<le> 255" using unat_byte_less [of b] by linarith
    note L = readKind_long [where l = "0xF7" and k' = KList, OF rk len]
    have "readKind (b # rest) =
      (case (case readSize rest (b - 0xF7) of Inl e \<Rightarrow> Inl e
               | Inr cs \<Rightarrow> Inr (KList, ucast (b - 0xF7) + 1, cs)) of
         Inl e \<Rightarrow> Inl e
       | Inr (k, tagsize, contentsize) \<Rightarrow>
           (if contentsize > word_of_nat (length (b # rest)) - tagsize then Inl ErrValueTooLarge
            else Inr (k, tagsize, contentsize)))"
      using 5 nb by (simp add: readKind_def)
    moreover have "unat (0xF7 :: byte) < unat b" "unat b \<le> unat (0xF7 :: byte) + 8"
      using ran hi by simp_all
    ultimately have P: "k = KList" "unat ts + unat cs \<le> length (b # rest)"
      "unat ts = Suc (unat b - unat (0xF7 :: byte))" "take (unat ts) (b # rest) = b # putint cs"
      "length (putint cs) = unat b - unat (0xF7 :: byte)" "\<not> cs < 56"
      using L by blast+
    have "puthead 0xC0 0xF7 cs = b # putint cs"
      using P(5,6) ran by (intro long_head) auto
    moreover have "length (take (unat cs) (drop (unat ts) (b # rest))) = unat cs" using P(2) by simp
    ultimately show ?thesis using P(1,2,3,4) Cons by (auto simp: enc_head_def canon_def)
  qed
qed


lemma puthead_Cons:
  "puthead t l sz = (if sz < 56 then t + ucast sz else l + word_of_nat (length (putint sz))) #
     (if sz < 56 then [] else putint sz)"
  by (simp add: puthead_def Let_def)

lemma length_puthead_le: "length (puthead t l sz) \<le> 9"
  by (simp add: puthead_def Let_def length_putint_le)

lemma readKind_enc_head:
  assumes "canon k c" "length (enc_head k c @ c @ r) < 2 ^ 64"
  shows "readKind (enc_head k c @ c @ r) =
    Inr (k, word_of_nat (length (enc_head k c)), word_of_nat (length c))"
proof -
  let ?buf = "enc_head k c @ c @ r"
  let ?n = "word_of_nat (length c) :: u64"
  let ?h = "word_of_nat (length (enc_head k c)) :: u64"
  have n: "unat ?n = length c" and h: "unat ?h = length (enc_head k c)"
    using assms(2) by (simp_all add: unat_of_nat_u64)
  have fit: "\<not> ?n > word_of_nat (length ?buf) - ?h"
    using assms(2) n h by (subst fits_iff) auto
  have le8: "length (putint ?n) \<le> 8" by (rule length_putint_le)
  have one: "?n = 1 \<longleftrightarrow> length c = 1" using n by (simp add: word_unat_eq_iff)
  show ?thesis
  proof (cases k)
    case KByte
    then obtain b where "c = [b]" "b < 0x80"
      using assms(1) by (cases c) (auto simp: canon_def)
    with KByte fit show ?thesis by (simp add: readKind_def enc_head_def)
  next
    case KString
    show ?thesis
    proof (cases "?n < 56")
      case True
      let ?b = "0x80 + ucast ?n :: byte"
      have e: "enc_head k c = [?b]" using KString True by (simp add: enc_head_def puthead_Cons)
      have ub: "unat ?b = 128 + length c"
        using True n by (simp add: unat_word_ariths unat_ucast_byte word_less_nat_alt)
      have lt: "length c < 56" using True n by (simp add: word_less_nat_alt)
      have "\<not> ?b < 0x80" "?b < 0xB8" using ub lt by (simp_all add: word_less_nat_alt)
      moreover have "ucast (?b - 0x80) = ?n"
        using lt n by (simp add: word_unat_eq_iff unat_ucast_u64 unat_ucast_byte)
      moreover have "length c = 1 \<Longrightarrow> \<not> hd (c @ r) < 128"
        using assms(1) KString by (cases c) (auto simp: canon_def)
      moreover have "length c = 1 \<Longrightarrow> c @ r \<noteq> []" by auto
      ultimately show ?thesis using fit one e KString
        by (auto simp: readKind_def Let_def split: list.splits)
    next
      case False
      let ?b = "0xB7 + word_of_nat (length (putint ?n)) :: byte"
      have e: "enc_head k c = ?b # putint ?n" using KString False by (simp add: enc_head_def puthead_Cons)
      have ub: "unat ?b = 183 + length (putint ?n)"
        using le8 by (simp add: unat_word_ariths unat_of_nat_byte)
      have "\<not> ?b < 0x80" "\<not> ?b < 0xB8" "?b < 0xC0"
        using ub le8 length_putint_pos [of ?n] by (simp_all add: word_less_nat_alt Suc_le_eq)
      moreover have "readSize (putint ?n @ c @ r) (?b - 0xB7) = Inr ?n"
        using readSize_putint [OF False, of "c @ r"] by simp
      moreover have "ucast (?b - 0xB7) + 1 = ?h"
        using le8 by (simp add: e word_unat_eq_iff unat_word_ariths unat_ucast_u64 unat_of_nat_byte unat_of_nat_u64)
      ultimately show ?thesis using fit e KString by (simp add: readKind_def)
    qed
  next
    case KList
    show ?thesis
    proof (cases "?n < 56")
      case True
      let ?b = "0xC0 + ucast ?n :: byte"
      have e: "enc_head k c = [?b]" using KList True by (simp add: enc_head_def puthead_Cons)
      have ub: "unat ?b = 192 + length c"
        using True n by (simp add: unat_word_ariths unat_ucast_byte word_less_nat_alt)
      have lt: "length c < 56" using True n by (simp add: word_less_nat_alt)
      have "\<not> ?b < 0x80" "\<not> ?b < 0xB8" "\<not> ?b < 0xC0" "?b < 0xF8"
        using ub lt by (simp_all add: word_less_nat_alt)
      moreover have "ucast (?b - 0xC0) = ?n"
        using lt n by (simp add: word_unat_eq_iff unat_ucast_u64 unat_ucast_byte)
      ultimately show ?thesis using fit e KList by (simp add: readKind_def)
    next
      case False
      let ?b = "0xF7 + word_of_nat (length (putint ?n)) :: byte"
      have e: "enc_head k c = ?b # putint ?n" using KList False by (simp add: enc_head_def puthead_Cons)
      have ub: "unat ?b = 247 + length (putint ?n)"
        using le8 by (simp add: unat_word_ariths unat_of_nat_byte)
      have "\<not> ?b < 0x80" "\<not> ?b < 0xB8" "\<not> ?b < 0xC0" "\<not> ?b < 0xF8"
        using ub le8 length_putint_pos [of ?n] by (simp_all add: word_less_nat_alt Suc_le_eq)
      moreover have "readSize (putint ?n @ c @ r) (?b - 0xF7) = Inr ?n"
        using readSize_putint [OF False, of "c @ r"] by simp
      moreover have "ucast (?b - 0xF7) + 1 = ?h"
        using le8 by (simp add: e word_unat_eq_iff unat_word_ariths unat_ucast_u64 unat_of_nat_byte unat_of_nat_u64)
      ultimately show ?thesis using fit e KList by (simp add: readKind_def)
    qed
  qed
qed

lemma Split_iff:
  assumes "length b < 2 ^ 64"
  shows "Split b = Inr (k, content, rest) \<longleftrightarrow>
    b = enc_head k content @ content @ rest \<and> canon k content"
proof
  assume "Split b = Inr (k, content, rest)"
  then obtain ts cs where rk: "readKind b = Inr (k, ts, cs)"
    and c: "content = take (unat cs) (drop (unat ts) b)" and r: "rest = drop (unat (ts + cs)) b"
    by (auto simp: Split_def split: sum.splits)
  note D = readKind_InrD [OF rk assms]
  have "unat (ts + cs) = unat ts + unat cs"
    using D assms by (simp add: unat_word_ariths)
  with D c r show "b = enc_head k content @ content @ rest \<and> canon k content"
    using take_drop_split [of "unat ts" "unat cs" b] by simp
next
  assume e: "b = enc_head k content @ content @ rest \<and> canon k content"
  have l: "length (enc_head k content) + length content < 2 ^ 64" using e assms by simp
  have "unat (word_of_nat (length (enc_head k content)) + word_of_nat (length content) :: u64) =
    length (enc_head k content) + length content"
    using l by (simp add: unat_word_ariths unat_of_nat_u64)
  with l e assms readKind_enc_head [of k content rest] show "Split b = Inr (k, content, rest)"
    by (simp add: Split_def unat_of_nat_u64)
qed


text \<open>The one input on which the index \<open>buf[1]\<close> of \<open>readKind\<close> is out of range.\<close>

lemma readSize_no_panic: "readSize b s \<noteq> Inl RlpPanic"
  by (simp add: readSize_def Let_def)

lemma readKind_panic_iff: "readKind buf = Inl RlpPanic \<longleftrightarrow> buf = [0x81]"
proof
  assume "readKind buf = Inl RlpPanic"
  then obtain b where b: "buf = [b]" "\<not> b < 0x80" "b < 0xB8" "ucast (b - 0x80) = (1 :: u64)"
    by (auto simp: readKind_def Let_def readSize_no_panic
        split: list.splits sum.splits if_splits)
  have "unat (ucast (b - 0x80) :: u64) = 1" using b(4) by simp
  then have "unat (b - 0x80) = 1" by (simp only: unat_ucast_u64)
  then have "b - 0x80 = 1" by (simp add: word_unat_eq_iff)
  then have "b = 0x80 + 1" by (simp add: diff_eq_eq)
  with b(1) show "buf = [0x81]" by simp
qed (simp add: readKind_def Let_def)

section \<open>Properties\<close>

text \<open>
  C24: On a slice of addressable length, \<open>Split\<close> succeeds with kind, content and rest exactly when the
  slice is the canonical header for that kind and content, followed by the content and the rest.
\<close>

theorem Split_spec:
  assumes "length b < 2 ^ 64"
  shows "Split b = Inr (k, content, rest) \<longleftrightarrow>
    b = enc_head k content @ content @ rest \<and> canon k content"
  using assms by (rule Split_iff)

theorem Split_spec_witness:
  "Split [0x83, 1, 2, 3, 0xC0] = Inr (KString, [1, 2, 3], [0xC0])"
  using Split_spec [of "[0x83, 1, 2, 3, 0xC0]" KString "[1, 2, 3]" "[0xC0]"]
  by (simp add: enc_head_def canon_def puthead_def)

text \<open>
  C35: \<open>readKind\<close> indexes out of range on exactly one input, the slice that holds the single byte 0x81.
\<close>

theorem readKind_panics_iff: "readKind buf = Inl RlpPanic \<longleftrightarrow> buf = [0x81]"
  by (rule readKind_panic_iff)

end
