(* ===== verification/RLP_Encode.thy ===== *)
theory RLP_Encode
  imports RLP_Raw
begin

text \<open>
  The encoder of \<open>rlp/encode.go\<close>. The source collects string data in \<open>encbuf.str\<close> and list
  headers, with the offset at which each belongs, in \<open>encbuf.lheads\<close>; \<open>toBytes\<close>, \<open>toWriter\<close> and
  \<open>encReader\<close> merge the two. The reflected Go value is the datatype \<open>gval\<close>, with one constructor
  for each writer that \<open>makeWriter\<close> can choose.

  The reference encoding \<open>enc_gval\<close> recurses over the value and puts the header in front of the
  encoded elements; \<open>encode_spec\<close> shows that the two-pass buffer yields exactly these bytes.
\<close>

section \<open>The encoding buffer\<close>

record listhead =
  lh_offset :: nat
  lh_size :: int

record encbuf =
  str :: bytes
  lheads :: "listhead list"
  lhsize :: int

definition listhead_encode :: "listhead \<Rightarrow> bytes" where
  "listhead_encode h = puthead 0xC0 0xF7 (word_of_int (lh_size h))"

definition encbuf_reset :: "encbuf \<Rightarrow> encbuf" where
  "encbuf_reset w = w\<lparr>lhsize := 0, str := [], lheads := []\<rparr>"

definition encbuf_Write :: "bytes \<Rightarrow> encbuf \<Rightarrow> encbuf" where
  "encbuf_Write b w = w\<lparr>str := str w @ b\<rparr>"

definition encodeStringHeader :: "nat \<Rightarrow> encbuf \<Rightarrow> encbuf" where
  "encodeStringHeader sz w =
     (if sz < 56 then w\<lparr>str := str w @ [0x80 + word_of_nat sz]\<rparr>
      else
        (let s = putint (word_of_nat sz) in
         w\<lparr>str := str w @ (0xB7 + word_of_nat (length s)) # s\<rparr>))"

definition encodeString :: "bytes \<Rightarrow> encbuf \<Rightarrow> encbuf" where
  "encodeString b w =
     (if length b = 1 \<and> b ! 0 \<le> 0x7F then w\<lparr>str := str w @ [b ! 0]\<rparr>
      else (let w = encodeStringHeader (length b) w in w\<lparr>str := str w @ b\<rparr>))"

definition encbuf_size :: "encbuf \<Rightarrow> int" where
  "encbuf_size w = int (length (str w)) + lhsize w"

text \<open>\<open>list\<close> returns a pointer to the new header; the model returns its index in \<open>lheads\<close>.\<close>

definition encbuf_list :: "encbuf \<Rightarrow> nat \<times> encbuf" where
  "encbuf_list w =
     (length (lheads w),
      w\<lparr>lheads := lheads w @ [\<lparr>lh_offset = length (str w), lh_size = lhsize w\<rparr>]\<rparr>)"

definition encbuf_listEnd :: "nat \<Rightarrow> encbuf \<Rightarrow> encbuf" where
  "encbuf_listEnd i w =
     (let lh = lheads w ! i;
          sz = encbuf_size w - int (lh_offset lh) - lh_size lh;
          w = w\<lparr>lheads := (lheads w)[i := lh\<lparr>lh_size := sz\<rparr>]\<rparr>
      in if sz < 56 then w\<lparr>lhsize := lhsize w + 1\<rparr>
         else w\<lparr>lhsize := lhsize w + (1 + int (intsize (word_of_int sz)))\<rparr>)"

text \<open>
  \<open>toBytes\<close> allocates \<open>size()\<close> bytes and copies the pieces into them; the model lists the bytes
  copied. \<open>encode_size\<close> shows that they fill the allocation exactly.
\<close>

fun toBytes_loop :: "bytes \<Rightarrow> nat \<Rightarrow> listhead list \<Rightarrow> bytes" where
  "toBytes_loop s strpos [] = drop strpos s"
| "toBytes_loop s strpos (h # hs) =
     (let piece = take (lh_offset h - strpos) (drop strpos s) in
      piece @ listhead_encode h @ toBytes_loop s (strpos + length piece) hs)"

definition toBytes :: "encbuf \<Rightarrow> bytes" where
  "toBytes w = toBytes_loop (str w) 0 (lheads w)"

text \<open>
  \<open>toWriter\<close> hands the pieces to an \<open>io.Writer\<close>, one call each. The writer is a parameter: from its
  state and the bytes offered it returns the new state, the number of bytes taken and whether it
  failed.
\<close>

type_synonym 's io_writer = "'s \<Rightarrow> bytes \<Rightarrow> 's \<times> nat \<times> bool"

fun toWriter_loop ::
  "'s io_writer \<Rightarrow> bytes \<Rightarrow> nat \<Rightarrow> listhead list \<Rightarrow> 's \<Rightarrow> 's \<times> bool" where
  "toWriter_loop out s strpos [] st =
     (if strpos < length s then (case out st (drop strpos s) of (st, _, failed) \<Rightarrow> (st, failed))
      else (st, False))"
| "toWriter_loop out s strpos (h # hs) st =
     (let (st, strpos, failed) =
        (if lh_offset h > strpos then
           (case out st (take (lh_offset h - strpos) (drop strpos s)) of
              (st, n, failed) \<Rightarrow> (st, strpos + n, failed))
         else (st, strpos, False))
      in if failed then (st, True)
         else
           (case out st (listhead_encode h) of
              (st, _, failed) \<Rightarrow>
                if failed then (st, True) else toWriter_loop out s strpos hs st))"

definition toWriter :: "'s io_writer \<Rightarrow> encbuf \<Rightarrow> 's \<Rightarrow> 's \<times> bool" where
  "toWriter out w st = toWriter_loop out (str w) 0 (lheads w) st"

section \<open>Writers\<close>

text \<open>
  \<open>GSlice True\<close> is a slice field with the tag \<open>rlp:"tail"\<close>. \<open>GEncoder v\<close> is a value whose method
  \<open>EncodeRLP(w)\<close> calls \<open>rlp.Encode(w, v)\<close>, which on an \<open>encbuf\<close> continues in the same buffer;
  \<open>GEncoderWrite b\<close> is one whose method calls \<open>w.Write(b)\<close>, and \<open>GUnaddressable\<close> a value of
  \<open>writeEncoderNoPtr\<close> whose address cannot be taken. Nil pointers are split by the handler that
  \<open>makePtrWriter\<close> picks for them; \<open>GNilOther z\<close> carries the zero value of the element type.
\<close>

datatype gval =
    GRawValue bytes
  | GEncoder gval
  | GEncoderWrite bytes
  | GUnaddressable
  | GNilInterface
  | GInterface gval
  | GNilBigInt
  | GBigIntPtr int
  | GBigInt int
  | GUint u64
  | GBool bool
  | GString bytes
  | GBytes bytes
  | GByteArray bytes
  | GSlice bool "gval list"
  | GStruct "gval list"
  | GPtr gval
  | GNilByteArray
  | GNilStruct
  | GNilOther gval

definition writeRawValue :: "bytes \<Rightarrow> encbuf \<Rightarrow> rlp_err + encbuf" where
  "writeRawValue b w = Inr (w\<lparr>str := str w @ b\<rparr>)"

definition writeUint :: "u64 \<Rightarrow> encbuf \<Rightarrow> rlp_err + encbuf" where
  "writeUint i w =
     Inr (if i = 0 then w\<lparr>str := str w @ [0x80]\<rparr>
          else if i < 128 then w\<lparr>str := str w @ [ucast i]\<rparr>
          else (let s = putint i in w\<lparr>str := str w @ (0x80 + word_of_nat (length s)) # s\<rparr>))"

definition writeBool :: "bool \<Rightarrow> encbuf \<Rightarrow> rlp_err + encbuf" where
  "writeBool b w = Inr (if b then w\<lparr>str := str w @ [0x01]\<rparr> else w\<lparr>str := str w @ [0x80]\<rparr>)"

definition writeBigInt :: "int \<Rightarrow> encbuf \<Rightarrow> rlp_err + encbuf" where
  "writeBigInt i w =
     (if i < 0 then Inl ErrNegativeBigInt
      else if i = 0 then Inr (w\<lparr>str := str w @ [0x80]\<rparr>)
      else Inr (encodeString (bigBytes (nat i)) w))"

definition writeBigIntPtr :: "int option \<Rightarrow> encbuf \<Rightarrow> rlp_err + encbuf" where
  "writeBigIntPtr p w =
     (case p of None \<Rightarrow> Inr (w\<lparr>str := str w @ [0x80]\<rparr>) | Some i \<Rightarrow> writeBigInt i w)"

definition writeBytes :: "bytes \<Rightarrow> encbuf \<Rightarrow> rlp_err + encbuf" where
  "writeBytes b w = Inr (encodeString b w)"

definition writeByteArray :: "bytes \<Rightarrow> encbuf \<Rightarrow> rlp_err + encbuf" where
  "writeByteArray b w = Inr (encodeString b w)"

definition writeString :: "bytes \<Rightarrow> encbuf \<Rightarrow> rlp_err + encbuf" where
  "writeString s w =
     Inr (if length s = 1 \<and> s ! 0 \<le> 0x7F then w\<lparr>str := str w @ [s ! 0]\<rparr>
          else (let w = encodeStringHeader (length s) w in w\<lparr>str := str w @ s\<rparr>))"

fun writer :: "gval \<Rightarrow> encbuf \<Rightarrow> rlp_err + encbuf"
  and writeElems :: "gval list \<Rightarrow> encbuf \<Rightarrow> rlp_err + encbuf" where
  "writer (GRawValue b) w = writeRawValue b w"
| "writer (GEncoder v) w = writer v w"
| "writer (GEncoderWrite b) w = Inr (encbuf_Write b w)"
| "writer GUnaddressable w = Inl ErrUnaddressable"
| "writer GNilInterface w = Inr (w\<lparr>str := str w @ [0xC0]\<rparr>)"
| "writer (GInterface v) w = writer v w"
| "writer GNilBigInt w = writeBigIntPtr None w"
| "writer (GBigIntPtr i) w = writeBigIntPtr (Some i) w"
| "writer (GBigInt i) w = writeBigInt i w"
| "writer (GUint i) w = writeUint i w"
| "writer (GBool b) w = writeBool b w"
| "writer (GString s) w = writeString s w"
| "writer (GBytes b) w = writeBytes b w"
| "writer (GByteArray b) w = writeByteArray b w"
| "writer (GSlice tail vs) w =
     (if tail then writeElems vs w
      else
        (let (lh, w) = encbuf_list w in
         case writeElems vs w of Inl e \<Rightarrow> Inl e | Inr w \<Rightarrow> Inr (encbuf_listEnd lh w)))"
| "writer (GStruct vs) w =
     (let (lh, w) = encbuf_list w in
      case writeElems vs w of Inl e \<Rightarrow> Inl e | Inr w \<Rightarrow> Inr (encbuf_listEnd lh w))"
| "writer (GPtr v) w = writer v w"
| "writer GNilByteArray w = Inr (w\<lparr>str := str w @ [0x80]\<rparr>)"
| "writer GNilStruct w = (let (lh, w) = encbuf_list w in Inr (encbuf_listEnd lh w))"
| "writer (GNilOther zero) w = writer zero w"
| "writeElems [] w = Inr w"
| "writeElems (v # vs) w = (case writer v w of Inl e \<Rightarrow> Inl e | Inr w \<Rightarrow> writeElems vs w)"

definition EncodeToBytes :: "gval \<Rightarrow> encbuf \<Rightarrow> rlp_err + bytes" where
  "EncodeToBytes v eb =
     (case writer v (encbuf_reset eb) of Inl e \<Rightarrow> Inl e | Inr eb \<Rightarrow> Inr (toBytes eb))"

text \<open>\<open>Encode\<close> on a writer that is not itself an \<open>encbuf\<close>.\<close>

definition Encode :: "'s io_writer \<Rightarrow> gval \<Rightarrow> encbuf \<Rightarrow> 's \<Rightarrow> rlp_err + 's \<times> bool" where
  "Encode out v eb st =
     (case writer v (encbuf_reset eb) of Inl e \<Rightarrow> Inl e | Inr eb \<Rightarrow> Inr (toWriter out eb st))"

section \<open>Reading the encoding in pieces\<close>

text \<open>
  \<open>encReader\<close>: \<open>er_buf = None\<close> is the nil buffer after EOF, \<open>piece = None\<close> the nil piece. \<open>Read n\<close>
  is a call with a buffer of \<open>n\<close> bytes; it returns the bytes copied and whether the error is
  \<open>io.EOF\<close>.
\<close>

record encReader =
  er_buf :: "encbuf option"
  lhpos :: nat
  er_strpos :: nat
  piece :: "bytes option"

definition encReader_next :: "encReader \<Rightarrow> bytes option \<times> encReader" where
  "encReader_next r =
     (case er_buf r of
        None \<Rightarrow> (None, r)
      | Some w \<Rightarrow>
          (case piece r of
             Some p \<Rightarrow> (Some p, r)
           | None \<Rightarrow>
               if lhpos r < length (lheads w) then
                 (let head = lheads w ! lhpos r in
                  if lh_offset head > er_strpos r then
                    (Some (take (lh_offset head - er_strpos r) (drop (er_strpos r) (str w))),
                     r\<lparr>er_strpos := lh_offset head\<rparr>)
                  else (Some (listhead_encode head), r\<lparr>lhpos := lhpos r + 1\<rparr>))
               else if er_strpos r < length (str w) then
                 (Some (drop (er_strpos r) (str w)), r\<lparr>er_strpos := length (str w)\<rparr>)
               else (None, r)))"

fun reader_measure :: "encReader \<Rightarrow> nat" where
  "reader_measure r =
     (case er_buf r of
        None \<Rightarrow> 0
      | Some w \<Rightarrow>
          (if piece r = None then 0 else 1) + 2 * (length (lheads w) - lhpos r) +
          (if lhpos r < length (lheads w) \<and> er_strpos r < lh_offset (lheads w ! lhpos r)
           then 1 else 0) +
          (length (str w) - er_strpos r))"

lemma encReader_next_measure:
  "encReader_next r = (Some p, r') \<Longrightarrow> reader_measure (r'\<lparr>piece := None\<rparr>) < reader_measure r"
  by (auto simp: encReader_next_def Let_def split: option.splits if_splits)

function encReader_Read_loop :: "bytes \<Rightarrow> nat \<Rightarrow> encReader \<Rightarrow> (bytes \<times> bool) \<times> encReader" where
  "encReader_Read_loop out n r =
     (case encReader_next r of
        (None, r) \<Rightarrow> ((out, True), r\<lparr>piece := None, er_buf := None\<rparr>)
      | (Some p, r) \<Rightarrow>
          (let nn = min n (length p) in
           if nn < length p then ((out @ take nn p, False), r\<lparr>piece := Some (drop nn p)\<rparr>)
           else encReader_Read_loop (out @ p) (n - nn) (r\<lparr>piece := None\<rparr>)))"
  by pat_completeness auto
termination
  by (relation "measure (\<lambda>(out, n, r). reader_measure r)")
    (auto simp del: reader_measure.simps intro: encReader_next_measure [OF sym])

declare encReader_Read_loop.simps [simp del]

definition encReader_Read :: "nat \<Rightarrow> encReader \<Rightarrow> (bytes \<times> bool) \<times> encReader" where
  "encReader_Read n r = encReader_Read_loop [] n r"

definition EncodeToReader :: "gval \<Rightarrow> encbuf \<Rightarrow> rlp_err + int \<times> encReader" where
  "EncodeToReader v eb =
     (case writer v (encbuf_reset eb) of
        Inl e \<Rightarrow> Inl e
      | Inr eb \<Rightarrow>
          Inr (encbuf_size eb, \<lparr>er_buf = Some eb, lhpos = 0, er_strpos = 0, piece = None\<rparr>))"

section \<open>The reference encoding\<close>

definition string_kind :: "bytes \<Rightarrow> kind" where
  "string_kind b = (if length b = 1 \<and> b ! 0 < 0x80 then KByte else KString)"

definition enc_string :: "bytes \<Rightarrow> bytes" where
  "enc_string b = enc_head (string_kind b) b @ b"

definition enc_list :: "bytes \<Rightarrow> bytes" where
  "enc_list c = enc_head KList c @ c"

fun enc_gval :: "gval \<Rightarrow> rlp_err + bytes" and enc_gvals :: "gval list \<Rightarrow> rlp_err + bytes" where
  "enc_gval (GRawValue b) = Inr b"
| "enc_gval (GEncoder v) = enc_gval v"
| "enc_gval (GEncoderWrite b) = Inr b"
| "enc_gval GUnaddressable = Inl ErrUnaddressable"
| "enc_gval GNilInterface = Inr (enc_list [])"
| "enc_gval (GInterface v) = enc_gval v"
| "enc_gval GNilBigInt = Inr (enc_string [])"
| "enc_gval (GBigIntPtr i) =
     (if i < 0 then Inl ErrNegativeBigInt else Inr (enc_string (bigBytes (nat i))))"
| "enc_gval (GBigInt i) =
     (if i < 0 then Inl ErrNegativeBigInt else Inr (enc_string (bigBytes (nat i))))"
| "enc_gval (GUint i) = Inr (enc_string (if i = 0 then [] else putint i))"
| "enc_gval (GBool b) = Inr (enc_string (if b then [1] else []))"
| "enc_gval (GString s) = Inr (enc_string s)"
| "enc_gval (GBytes b) = Inr (enc_string b)"
| "enc_gval (GByteArray b) = Inr (enc_string b)"
| "enc_gval (GSlice tail vs) =
     (case enc_gvals vs of Inl e \<Rightarrow> Inl e | Inr c \<Rightarrow> Inr (if tail then c else enc_list c))"
| "enc_gval (GStruct vs) = (case enc_gvals vs of Inl e \<Rightarrow> Inl e | Inr c \<Rightarrow> Inr (enc_list c))"
| "enc_gval (GPtr v) = enc_gval v"
| "enc_gval GNilByteArray = Inr (enc_string [])"
| "enc_gval GNilStruct = Inr (enc_list [])"
| "enc_gval (GNilOther zero) = enc_gval zero"
| "enc_gvals [] = Inr []"
| "enc_gvals (v # vs) =
     (case enc_gval v of
        Inl e \<Rightarrow> Inl e
      | Inr b \<Rightarrow> (case enc_gvals vs of Inl e \<Rightarrow> Inl e | Inr c \<Rightarrow> Inr (b @ c)))"

section \<open>Rendering a buffer segment\<close>

text \<open>
  \<open>rend base s hs\<close> merges the string data \<open>s\<close> written since position \<open>base\<close> with the headers \<open>hs\<close>
  recorded since then, whose offsets lie between \<open>base\<close> and the end of \<open>s\<close>.
\<close>

fun rend :: "nat \<Rightarrow> bytes \<Rightarrow> listhead list \<Rightarrow> bytes" where
  "rend base s [] = s"
| "rend base s (h # hs) =
     take (lh_offset h - base) s @ listhead_encode h @
     rend (lh_offset h) (drop (lh_offset h - base) s) hs"

fun offsets_in :: "nat \<Rightarrow> nat \<Rightarrow> listhead list \<Rightarrow> bool" where
  "offsets_in lo hi [] \<longleftrightarrow> lo \<le> hi"
| "offsets_in lo hi (h # hs) \<longleftrightarrow> lo \<le> lh_offset h \<and> offsets_in (lh_offset h) hi hs"

definition heads_size :: "listhead list \<Rightarrow> nat" where
  "heads_size hs = sum_list (map (length \<circ> listhead_encode) hs)"

lemma offsets_in_le: "offsets_in lo hi hs \<Longrightarrow> lo \<le> hi"
  by (induction lo hi hs rule: offsets_in.induct) auto

lemma offsets_in_mono: "offsets_in m hi hs \<Longrightarrow> lo \<le> m \<Longrightarrow> offsets_in lo hi hs"
  by (cases hs) auto

lemma offsets_in_append:
  "offsets_in lo m hs \<Longrightarrow> offsets_in m hi hs' \<Longrightarrow> offsets_in lo hi (hs @ hs')"
  by (induction hs arbitrary: lo) (auto intro: offsets_in_mono)

lemma rend_append:
  "offsets_in base (base + length s) hs \<Longrightarrow>
   offsets_in (base + length s) hi hs' \<Longrightarrow>
   rend base (s @ t) (hs @ hs') = rend base s hs @ rend (base + length s) t hs'"
proof (induction hs arbitrary: base s)
  case Nil
  show ?case
  proof (cases hs')
    case (Cons h hs'')
    with Nil have "base + length s \<le> lh_offset h" by simp
    then obtain d where d: "lh_offset h = base + length s + d" using le_Suc_ex by blast
    show ?thesis unfolding Cons by (simp add: d)
  qed simp
next
  case (Cons h hs)
  let ?n = "lh_offset h - base"
  have le: "base \<le> lh_offset h" "lh_offset h \<le> base + length s"
    using Cons.prems(1) offsets_in_le by auto
  then have n: "?n \<le> length s" "lh_offset h + length (drop ?n s) = base + length s" by auto
  have "rend (lh_offset h) (drop ?n s @ t) (hs @ hs') =
    rend (lh_offset h) (drop ?n s) hs @ rend (base + length s) t hs'"
    using Cons.IH [of "lh_offset h" "drop ?n s", unfolded n(2)] Cons.prems by simp
  with n show ?case by simp
qed

lemma length_rend:
  "offsets_in base (base + length s) hs \<Longrightarrow> length (rend base s hs) = length s + heads_size hs"
proof (induction hs arbitrary: base s)
  case (Cons h hs)
  let ?n = "lh_offset h - base"
  have le: "base \<le> lh_offset h" "lh_offset h \<le> base + length s"
    using Cons.prems offsets_in_le by auto
  then have n: "lh_offset h + length (drop ?n s) = base + length s" by auto
  have "length (rend (lh_offset h) (drop ?n s) hs) = length (drop ?n s) + heads_size hs"
    using Cons.IH [of "lh_offset h" "drop ?n s", unfolded n] Cons.prems by simp
  with le show ?case by (simp add: heads_size_def)
qed (simp add: heads_size_def)

lemma toBytes_loop_rend:
  "offsets_in base (length s) hs \<Longrightarrow> toBytes_loop s base hs = rend base (drop base s) hs"
proof (induction hs arbitrary: base)
  case (Cons h hs)
  have le: "base \<le> lh_offset h" "lh_offset h \<le> length s"
    using Cons.prems offsets_in_le by auto
  with Cons show ?case by (simp add: Let_def)
qed simp

text \<open>\<open>appends w w' e\<close>: the step from \<open>w\<close> to \<open>w'\<close> added a segment that renders to \<open>e\<close>.\<close>

definition appends :: "encbuf \<Rightarrow> encbuf \<Rightarrow> bytes \<Rightarrow> bool" where
  "appends w w' e \<longleftrightarrow>
     (\<exists>s hs. w' = w\<lparr>str := str w @ s, lheads := lheads w @ hs,
                  lhsize := lhsize w + int (heads_size hs)\<rparr> \<and>
        offsets_in (length (str w)) (length (str w) + length s) hs \<and>
        rend (length (str w)) s hs = e)"

lemma appends_str: "appends w (w\<lparr>str := str w @ s\<rparr>) s"
  unfolding appends_def
  by (rule exI [of _ s], rule exI [of _ "[]"]) (simp add: heads_size_def)

lemma appends_refl: "appends w w []"
  using appends_str [of w "[]"] by simp

lemma appends_trans:
  assumes "appends w w1 e1" "appends w1 w2 e2"
  shows "appends w w2 (e1 @ e2)"
proof -
  obtain s1 h1 where 1: "w1 = w\<lparr>str := str w @ s1, lheads := lheads w @ h1,
        lhsize := lhsize w + int (heads_size h1)\<rparr>"
      "offsets_in (length (str w)) (length (str w) + length s1) h1"
      "rend (length (str w)) s1 h1 = e1"
    using assms(1) by (auto simp: appends_def)
  obtain s2 h2 where 2: "w2 = w1\<lparr>str := str w1 @ s2, lheads := lheads w1 @ h2,
        lhsize := lhsize w1 + int (heads_size h2)\<rparr>"
      "offsets_in (length (str w1)) (length (str w1) + length s2) h2"
      "rend (length (str w1)) s2 h2 = e2"
    using assms(2) by (auto simp: appends_def)
  have l: "length (str w1) = length (str w) + length s1" using 1(1) by simp
  have "w2 = w\<lparr>str := str w @ (s1 @ s2), lheads := lheads w @ (h1 @ h2),
      lhsize := lhsize w + int (heads_size (h1 @ h2))\<rparr>"
    using 1(1) 2(1) by (simp add: heads_size_def)
  moreover have "offsets_in (length (str w)) (length (str w) + length (s1 @ s2)) (h1 @ h2)"
    using 1(2) 2(2) l by (auto intro!: offsets_in_append simp: add.assoc)
  moreover have "rend (length (str w)) (s1 @ s2) (h1 @ h2) = e1 @ e2"
    using rend_append [OF 1(2), of _ h2 s2] 1(3) 2(2,3) l by simp
  ultimately show ?thesis unfolding appends_def by blast
qed

lemma appends_list:
  assumes lst: "encbuf_list w = (i, w1)" and app: "appends w1 w2 c" and len: "length c < 2 ^ 64"
  shows "appends w (encbuf_listEnd i w2) (enc_list c)"
proof -
  let ?b = "length (str w)" and ?h0 = "\<lparr>lh_offset = length (str w), lh_size = lhsize w\<rparr>"
  have i: "i = length (lheads w)" and w1: "w1 = w\<lparr>lheads := lheads w @ [?h0]\<rparr>"
    using lst by (simp_all add: encbuf_list_def)
  obtain s hs where w2: "w2 = w\<lparr>str := str w @ s, lheads := lheads w @ ?h0 # hs,
        lhsize := lhsize w + int (heads_size hs)\<rparr>"
      and off: "offsets_in ?b (?b + length s) hs" and r: "rend ?b s hs = c"
    using app w1 by (auto simp: appends_def)
  have lc: "length c = length s + heads_size hs" using length_rend [OF off] r by simp
  let ?h = "\<lparr>lh_offset = ?b, lh_size = int (length c)\<rparr>"
  have enc: "listhead_encode ?h = enc_head KList c"
    by (simp add: listhead_encode_def enc_head_def)
  have hs0: "heads_size (?h # hs) = headsize (word_of_nat (length c)) + heads_size hs"
    using headsize_puthead by (simp add: heads_size_def listhead_encode_def)
  have "length c < 56 \<longleftrightarrow> (word_of_nat (length c) :: u64) < 56"
    using len by (simp add: word_less_nat_alt unat_of_nat_u64)
  then have "encbuf_listEnd i w2 = w\<lparr>str := str w @ s, lheads := lheads w @ ?h # hs,
      lhsize := lhsize w + int (heads_size (?h # hs))\<rparr>"
    unfolding hs0 using lc
    by (auto simp: encbuf_listEnd_def encbuf_size_def w2 i Let_def headsize_def)
  moreover have "offsets_in ?b (?b + length s) (?h # hs)" using off by simp
  moreover have "rend ?b s (?h # hs) = enc_list c" using r enc by (simp add: enc_list_def)
  ultimately show ?thesis unfolding appends_def by blast
qed

section \<open>The writers append the reference encoding\<close>

lemma le_7F_iff: "(b :: byte) \<le> 0x7F \<longleftrightarrow> b < 0x80"
  by (simp add: word_le_nat_alt word_less_nat_alt) linarith

lemma ucast_of_nat_byte: "ucast (word_of_nat n :: u64) = (word_of_nat n :: byte)"
  by (simp add: word_unat_eq_iff unsigned_ucast_eq unat_of_nat take_bit_eq_mod mod_mod_cancel)

lemma encodeString_str:
  assumes "length b < 2 ^ 64"
  shows "encodeString b w = w\<lparr>str := str w @ enc_string b\<rparr>"
proof -
  have "length b < 56 \<longleftrightarrow> (word_of_nat (length b) :: u64) < 56"
    using assms by (simp add: word_less_nat_alt unat_of_nat_u64)
  moreover have "length b = 1 \<Longrightarrow> [b ! 0] = b" by (cases b) auto
  moreover note ucast_of_nat_byte [of "length b"]
  ultimately show ?thesis
    by (simp add: encodeString_def encodeStringHeader_def enc_string_def string_kind_def
        enc_head_def puthead_def le_7F_iff Let_def)
qed

lemma writeString_eq: "writeString b w = Inr (encodeString b w)"
  by (simp add: writeString_def encodeString_def)

lemma enc_string_Nil [simp]: "enc_string [] = [0x80]"
  by (simp add: enc_string_def string_kind_def enc_head_def puthead_def)

lemma enc_list_Nil [simp]: "enc_list [] = [0xC0]"
  by (simp add: enc_list_def enc_head_def puthead_def)

lemma putint_small: "i < 256 \<Longrightarrow> putint i = [ucast i]"
  by (simp add: putint_def push_bit_eq_mult)

lemma writeUint_str:
  "writeUint i w = Inr (w\<lparr>str := str w @ enc_string (if i = 0 then [] else putint i)\<rparr>)"
proof -
  have small: "ucast i < (0x80 :: byte)" if "i < 128"
    using that by (simp add: word_less_nat_alt unat_ucast_byte)
  have "length (putint i) \<noteq> 1 \<or> \<not> putint i ! 0 < 0x80" if "\<not> i < 128"
  proof (cases "i < 256")
    case True
    then have "\<not> ucast i < (0x80 :: byte)"
      using that by (simp add: word_less_nat_alt unat_ucast_byte)
    with True show ?thesis by (simp add: putint_small)
  next
    case False
    then show ?thesis by (simp add: putint_def push_bit_eq_mult)
  qed
  moreover have "(word_of_nat (length (putint i)) :: u64) < 56"
    using length_putint_le [of i] by (simp add: word_less_nat_alt unat_of_nat_u64)
  moreover note ucast_of_nat_byte [of "length (putint i)"]
  ultimately show ?thesis
    using small putint_small [of i]
    by (auto simp: writeUint_def enc_string_def string_kind_def enc_head_def puthead_def Let_def
        word_less_nat_alt)
qed

lemma writer_result:
  "case enc_gval v of Inl e \<Rightarrow> writer v w = Inl e | Inr b \<Rightarrow> \<exists>w'. writer v w = Inr w'"
  "case enc_gvals vs of Inl e \<Rightarrow> writeElems vs w = Inl e | Inr b \<Rightarrow> \<exists>w'. writeElems vs w = Inr w'"
proof (induction v and vs arbitrary: w and w rule: enc_gval_enc_gvals.induct)
  case (15 tail vs)
  from this [of w] this [of "snd (encbuf_list w)"] show ?case
    by (auto simp: encbuf_list_def split: sum.splits)
next
  case (16 vs)
  from this [of "snd (encbuf_list w)"] show ?case by (auto simp: encbuf_list_def split: sum.splits)
next
  case (22 v vs)
  show ?case
  proof (cases "writer v w")
    case (Inl e)
    with 22(1) [of w] show ?thesis by (auto split: sum.splits)
  next
    case (Inr w1)
    with 22(1) [of w] 22(2) [of _ w1] show ?thesis by (auto split: sum.splits)
  qed
qed (auto simp: writeRawValue_def writeUint_def writeBool_def writeBigInt_def writeBigIntPtr_def
      writeBytes_def writeByteArray_def writeString_def encbuf_list_def split: sum.splits)

lemma encodeString_appends:
  "length (enc_string b) < 2 ^ 64 \<Longrightarrow> appends w (encodeString b w) (enc_string b)"
  using encodeString_str [of b w] by (simp add: appends_str enc_string_def)

lemma enc_string_1 [simp]: "enc_string [1] = [1]"
  by (simp add: enc_string_def string_kind_def enc_head_def)

lemma writer_appends:
  "enc_gval v = Inr b \<Longrightarrow> length b < 2 ^ 64 \<Longrightarrow> \<exists>w'. writer v w = Inr w' \<and> appends w w' b"
  "enc_gvals vs = Inr b \<Longrightarrow> length b < 2 ^ 64 \<Longrightarrow> \<exists>w'. writeElems vs w = Inr w' \<and> appends w w' b"
proof (induction v and vs arbitrary: w b and w b rule: enc_gval_enc_gvals.induct)
  case (15 tail vs)
  then obtain c where c: "enc_gvals vs = Inr c" "b = (if tail then c else enc_list c)"
    by (auto split: sum.splits)
  then have len: "length c < 2 ^ 64" using 15(3) by (auto simp: enc_list_def split: if_splits)
  obtain i w1 where l: "encbuf_list w = (i, w1)" by fastforce
  from 15(1) [OF c(1) len, of w] 15(1) [OF c(1) len, of w1] c(2) l show ?case
    by (auto intro: appends_list [OF l _ len])
next
  case (16 vs)
  then obtain c where c: "enc_gvals vs = Inr c" "b = enc_list c"
    by (auto split: sum.splits)
  then have len: "length c < 2 ^ 64" using 16(3) by (auto simp: enc_list_def)
  obtain i w1 where l: "encbuf_list w = (i, w1)" by fastforce
  from 16(1) [OF c(1) len, of w1] c(2) l show ?case
    by (auto intro: appends_list [OF l _ len])
next
  case 19
  obtain i w1 where l: "encbuf_list w = (i, w1)" by fastforce
  with 19 appends_list [OF l appends_refl] show ?case by auto
next
  case (22 v vs)
  then obtain b1 b2 where e: "enc_gval v = Inr b1" "enc_gvals vs = Inr b2" "b = b1 @ b2"
    by (auto split: sum.splits)
  with 22(4) have len: "length b1 < 2 ^ 64" "length b2 < 2 ^ 64" by auto
  obtain w1 where w1: "writer v w = Inr w1" "appends w w1 b1"
    using 22(1) [OF e(1) len(1)] by blast
  obtain w2 where "writeElems vs w1 = Inr w2" "appends w1 w2 b2"
    using 22(2) [OF e(1) e(2) len(2)] by blast
  with w1 e(3) show ?case by (auto intro: appends_trans)
qed (auto simp: writeRawValue_def writeUint_str writeBool_def writeBigInt_def writeBigIntPtr_def
      writeBytes_def writeByteArray_def writeString_eq encodeString_appends appends_str appends_refl
      bigBytes.simps [of 0] encbuf_Write_def split: if_splits)

section \<open>Merging the buffer\<close>

definition buf_ok :: "encbuf \<Rightarrow> bytes \<Rightarrow> bool" where
  "buf_ok w e \<longleftrightarrow> offsets_in 0 (length (str w)) (lheads w) \<and> toBytes w = e \<and>
     encbuf_size w = int (length e)"

lemma writer_buf_ok:
  assumes "enc_gval v = Inr e" "length e < 2 ^ 64"
  shows "\<exists>w. writer v (encbuf_reset eb) = Inr w \<and> buf_ok w e"
proof -
  obtain w where w: "writer v (encbuf_reset eb) = Inr w" "appends (encbuf_reset eb) w e"
    using writer_appends(1) [OF assms] by blast
  then have "offsets_in 0 (length (str w)) (lheads w)" "rend 0 (str w) (lheads w) = e"
    "lhsize w = int (heads_size (lheads w))"
    by (auto simp: appends_def encbuf_reset_def)
  then have "buf_ok w e"
    using length_rend [of 0 "str w" "lheads w"] toBytes_loop_rend [of 0 "str w" "lheads w"]
    by (simp add: buf_ok_def toBytes_def encbuf_size_def)
  with w(1) show ?thesis by blast
qed

lemma EncodeToBytes_enc_gval:
  assumes "\<And>e. enc_gval v = Inr e \<Longrightarrow> length e < 2 ^ 64"
  shows "EncodeToBytes v eb = enc_gval v"
proof (cases "enc_gval v")
  case (Inl er)
  with writer_result(1) [of v "encbuf_reset eb"] show ?thesis by (simp add: EncodeToBytes_def)
next
  case (Inr e)
  with writer_buf_ok [OF Inr assms [OF Inr], of eb] show ?thesis
    by (auto simp: EncodeToBytes_def buf_ok_def)
qed

text \<open>
  An \<open>io.Writer\<close> that takes everything it is given; the buffer itself is one.
\<close>

locale io_sink =
  fixes out :: "'s io_writer" and received :: "'s \<Rightarrow> bytes"
  assumes out_takes_all: "fst (snd (out st p)) = length p"
    and out_ok: "\<not> snd (snd (out st p))"
    and out_received: "received (fst (out st p)) = received st @ p"
begin

lemma out_cases: "out st p = (st', n, failed) \<Longrightarrow> n = length p \<and> \<not> failed \<and> received st' = received st @ p"
  using out_takes_all [of st p] out_ok [of st p] out_received [of st p] by simp

lemma toWriter_loop_received:
  "offsets_in pos (length s) hs \<Longrightarrow>
   \<not> snd (toWriter_loop out s pos hs st) \<and>
   received (fst (toWriter_loop out s pos hs st)) = received st @ toBytes_loop s pos hs"
proof (induction hs arbitrary: pos st)
  case Nil
  then show ?case by (auto split: prod.splits dest: out_cases)
next
  case (Cons h hs)
  have le: "pos \<le> lh_offset h" "lh_offset h \<le> length s"
    using Cons.prems offsets_in_le by auto
  have IH: "\<not> snd (toWriter_loop out s (lh_offset h) hs st) \<and>
    received (fst (toWriter_loop out s (lh_offset h) hs st)) =
    received st @ toBytes_loop s (lh_offset h) hs" for st
    using Cons by simp
  show ?case
    using le IH by (auto simp: Let_def split: prod.splits if_splits dest!: out_cases)
qed

lemma toWriter_received:
  "buf_ok w e \<Longrightarrow>
   \<not> snd (toWriter out w st) \<and> received (fst (toWriter out w st)) = received st @ e"
  using toWriter_loop_received [of 0 "str w" "lheads w" st]
  by (simp add: buf_ok_def toWriter_def toBytes_def)

end

definition encbuf_out :: "encbuf io_writer" where
  "encbuf_out w b = (encbuf_Write b w, length b, False)"

interpretation encbuf_sink: io_sink encbuf_out str
  by unfold_locales (simp_all add: encbuf_out_def encbuf_Write_def)

section \<open>Reading in pieces yields the same bytes\<close>

definition unread :: "encReader \<Rightarrow> bytes" where
  "unread r =
     (case er_buf r of
        None \<Rightarrow> []
      | Some w \<Rightarrow>
          (case piece r of None \<Rightarrow> [] | Some p \<Rightarrow> p) @
          toBytes_loop (str w) (er_strpos r) (drop (lhpos r) (lheads w)))"

definition reader_ok :: "encReader \<Rightarrow> bool" where
  "reader_ok r =
     (case er_buf r of
        None \<Rightarrow> True
      | Some w \<Rightarrow> offsets_in (er_strpos r) (length (str w)) (drop (lhpos r) (lheads w)))"

lemma encReader_next_None:
  "reader_ok r \<Longrightarrow> encReader_next r = (None, r') \<Longrightarrow> unread r = [] \<and> r' = r"
  by (auto simp: encReader_next_def unread_def reader_ok_def Let_def
      split: option.splits if_splits)

lemma encReader_next_Some:
  assumes ok: "reader_ok r" and n: "encReader_next r = (Some p, r')"
  shows "reader_ok r' \<and> unread r = p @ unread (r'\<lparr>piece := None\<rparr>) \<and> er_buf r' \<noteq> None"
proof -
  obtain w where w: "er_buf r = Some w"
    using n by (auto simp: encReader_next_def split: option.splits)
  show ?thesis
  proof (cases "piece r = None \<and> lhpos r < length (lheads w)")
    case True
    then have d: "drop (lhpos r) (lheads w) = lheads w ! lhpos r # drop (Suc (lhpos r)) (lheads w)"
      by (simp add: Cons_nth_drop_Suc)
    have le: "lh_offset (lheads w ! lhpos r) \<le> length (str w)"
      using ok w d offsets_in_le by (auto simp: reader_ok_def)
    show ?thesis using n ok w d True le
      by (auto simp: encReader_next_def reader_ok_def unread_def Let_def split: if_splits)
  next
    case False
    with n ok w show ?thesis
      by (auto simp: encReader_next_def reader_ok_def unread_def split: option.splits if_splits)
  qed
qed

lemma encReader_Read_loop_spec:
  assumes "reader_ok r" "encReader_Read_loop out n r = ((bs, eof), r')"
  shows "\<exists>got. bs = out @ got \<and> reader_ok r' \<and> unread r = got @ unread r' \<and> length got \<le> n \<and>
    (if eof then unread r' = [] else length got = n \<and> unread r' \<noteq> [])"
  using assms
proof (induction out n r arbitrary: bs eof r' rule: encReader_Read_loop.induct)
  case (1 out n r)
  obtain po r1 where nx: "encReader_next r = (po, r1)" by fastforce
  show ?case
  proof (cases po)
    case None
    with 1 nx encReader_next_None [of r r1] show ?thesis
      by (auto simp: encReader_Read_loop.simps [of out n r] unread_def reader_ok_def)
  next
    case (Some p)
    note N = encReader_next_Some [OF "1.prems"(1) nx [unfolded Some]]
    then have ok1: "reader_ok (r1\<lparr>piece := pc\<rparr>)" for pc
      by (auto simp: reader_ok_def split: option.splits)
    show ?thesis
    proof (cases "min n (length p) < length p")
      case True
      then have r': "bs = out @ take n p" "eof = False" "r' = r1\<lparr>piece := Some (drop n p)\<rparr>" "n < length p"
        using 1 nx Some by (auto simp: encReader_Read_loop.simps [of out n r] Let_def min_def split: if_splits)
      then have "unread r = take n p @ unread r'" "unread r' \<noteq> []"
        using N by (auto simp: unread_def)
      with r' ok1 show ?thesis by auto
    next
      case False
      then have "encReader_Read_loop (out @ p) (n - length p) (r1\<lparr>piece := None\<rparr>) = ((bs, eof), r')"
        "length p \<le> n"
        using 1 nx Some by (auto simp: encReader_Read_loop.simps [of out n r] Let_def min_def split: if_splits)
      with "1.IH" [OF nx [symmetric] Some refl, of bs eof r'] ok1 False
      obtain got where "bs = (out @ p) @ got" "reader_ok r'"
        "unread (r1\<lparr>piece := None\<rparr>) = got @ unread r'" "length got \<le> n - length p"
        "if eof then unread r' = [] else length got = n - length p \<and> unread r' \<noteq> []"
        by (auto simp: min_def split: if_splits)
      with N \<open>length p \<le> n\<close> show ?thesis
        by (intro exI [of _ "p @ got"]) (auto split: if_splits)
    qed
  qed
qed

text \<open>A sequence of \<open>Read\<close> calls with buffers of the given sizes.\<close>

fun encReader_Reads :: "nat list \<Rightarrow> encReader \<Rightarrow> bytes" where
  "encReader_Reads [] r = []"
| "encReader_Reads (n # ns) r =
     (case encReader_Read n r of ((bs, eof), r) \<Rightarrow> bs @ encReader_Reads ns r)"

lemma encReader_Reads_unread:
  "reader_ok r \<Longrightarrow> encReader_Reads ns r = take (sum_list ns) (unread r)"
proof (induction ns arbitrary: r)
  case (Cons n ns)
  obtain bs eof r' where rd: "encReader_Read n r = ((bs, eof), r')" by (metis prod.collapse)
  from encReader_Read_loop_spec [OF Cons.prems rd [unfolded encReader_Read_def]]
  have "reader_ok r'" "unread r = bs @ unread r'" "length bs \<le> n"
    "if eof then unread r' = [] else length bs = n"
    by (auto split: if_splits)
  with Cons.IH [of r'] rd show ?case by (auto split: if_splits)
qed simp

section \<open>Values as trees of items\<close>

text \<open>
  The data model of RLP: an item is a byte string or a list of items. \<open>items_of\<close> gives the items
  that a value stands for, for a value without raw bytes, negative integers and unaddressable parts.
\<close>

datatype item = Str bytes | Lst "item list"

fun enc_item :: "item \<Rightarrow> bytes" where
  "enc_item (Str b) = enc_string b"
| "enc_item (Lst xs) = enc_list (concat (map enc_item xs))"

definition enc_items :: "item list \<Rightarrow> bytes" where
  "enc_items xs = concat (map enc_item xs)"

fun items_of :: "gval \<Rightarrow> item list option" and items_ofs :: "gval list \<Rightarrow> item list option" where
  "items_of (GRawValue b) = None"
| "items_of (GEncoder v) = items_of v"
| "items_of (GEncoderWrite b) = None"
| "items_of GUnaddressable = None"
| "items_of GNilInterface = Some [Lst []]"
| "items_of (GInterface v) = items_of v"
| "items_of GNilBigInt = Some [Str []]"
| "items_of (GBigIntPtr i) = (if i < 0 then None else Some [Str (bigBytes (nat i))])"
| "items_of (GBigInt i) = (if i < 0 then None else Some [Str (bigBytes (nat i))])"
| "items_of (GUint i) = Some [Str (if i = 0 then [] else putint i)]"
| "items_of (GBool b) = Some [Str (if b then [1] else [])]"
| "items_of (GString s) = Some [Str s]"
| "items_of (GBytes b) = Some [Str b]"
| "items_of (GByteArray b) = Some [Str b]"
| "items_of (GSlice tail vs) =
     (case items_ofs vs of None \<Rightarrow> None | Some xs \<Rightarrow> Some (if tail then xs else [Lst xs]))"
| "items_of (GStruct vs) = (case items_ofs vs of None \<Rightarrow> None | Some xs \<Rightarrow> Some [Lst xs])"
| "items_of (GPtr v) = items_of v"
| "items_of GNilByteArray = Some [Str []]"
| "items_of GNilStruct = Some [Lst []]"
| "items_of (GNilOther zero) = items_of zero"
| "items_ofs [] = Some []"
| "items_ofs (v # vs) =
     (case items_of v of
        None \<Rightarrow> None
      | Some xs \<Rightarrow> (case items_ofs vs of None \<Rightarrow> None | Some ys \<Rightarrow> Some (xs @ ys)))"

lemma enc_items_simps [simp]:
  "enc_items [] = []" "enc_items (x # xs) = enc_item x @ enc_items xs"
  "enc_items (xs @ ys) = enc_items xs @ enc_items ys"
  by (simp_all add: enc_items_def)

lemma enc_item_Lst: "enc_item (Lst xs) = enc_list (enc_items xs)"
  by (simp add: enc_items_def)

lemma enc_gval_items:
  "items_of v = Some xs \<Longrightarrow> enc_gval v = Inr (enc_items xs)"
  "items_ofs vs = Some xs \<Longrightarrow> enc_gvals vs = Inr (enc_items xs)"
  by (induction v and vs arbitrary: xs and xs rule: items_of_items_ofs.induct)
    (auto simp: enc_item_Lst simp del: enc_item.simps(2) split: option.splits if_splits)

text \<open>A single item starts with the header that \<open>Split\<close> takes off again.\<close>

definition item_kind :: "item \<Rightarrow> kind" where
  "item_kind x = (case x of Str b \<Rightarrow> string_kind b | Lst _ \<Rightarrow> KList)"

definition item_content :: "item \<Rightarrow> bytes" where
  "item_content x = (case x of Str b \<Rightarrow> b | Lst xs \<Rightarrow> enc_items xs)"

lemma enc_item_head: "enc_item x = enc_head (item_kind x) (item_content x) @ item_content x"
  by (cases x)
    (simp_all add: item_kind_def item_content_def enc_string_def enc_list_def enc_items_def)

lemma canon_item: "canon (item_kind x) (item_content x)"
  by (cases x) (auto simp: item_kind_def item_content_def canon_def string_kind_def length_Suc_conv
      split: kind.splits if_splits)

lemma Split_enc_item:
  "length (enc_item x @ r) < 2 ^ 64 \<Longrightarrow>
   Split (enc_item x @ r) = Inr (item_kind x, item_content x, r)"
  by (simp add: Split_iff canon_item enc_item_head)

lemma enc_item_not_Nil: "enc_item x \<noteq> []"
  by (cases x) (auto simp: enc_string_def enc_list_def enc_head_def puthead_Cons string_kind_def)

lemma CountValues_loop_enc_items:
  "length (enc_items xs) < 2 ^ 64 \<Longrightarrow> CountValues_loop i (enc_items xs) = Inr (i + length xs)"
proof (induction xs arbitrary: i)
  case Nil
  show ?case by (simp add: CountValues_loop.simps)
next
  case (Cons x xs)
  let ?k = "item_kind x" and ?c = "item_content x"
  have len: "length (enc_head ?k ?c @ ?c @ enc_items xs) < 2 ^ 64"
    using Cons.prems by (simp add: enc_item_head)
  then have "unat (word_of_nat (length (enc_head ?k ?c)) :: u64) = length (enc_head ?k ?c)"
    "unat (word_of_nat (length ?c) :: u64) = length ?c"
    by (simp_all add: unat_of_nat_u64)
  then show ?case
    using Cons enc_item_not_Nil [of x] readKind_enc_head [OF canon_item len]
    by (auto simp: CountValues_loop.simps [of i] enc_item_head)
qed

section \<open>Properties\<close>

text \<open>
  C12: \<open>EncodeToBytes\<close>, which collects string data and list headers separately and merges them, returns
  the reference encoding of the value, or its error, whatever the pooled buffer held before.
\<close>

theorem EncodeToBytes_spec:
  assumes "\<And>e. enc_gval v = Inr e \<Longrightarrow> length e < 2 ^ 64"
  shows "EncodeToBytes v eb = enc_gval v"
  using assms by (rule EncodeToBytes_enc_gval)

theorem EncodeToBytes_spec_witness:
  "EncodeToBytes (GStruct [GUint 1024, GSlice False [GBool True, GNilStruct]])
     \<lparr>str = [7], lheads = [\<lparr>lh_offset = 3, lh_size = 9\<rparr>], lhsize = 4\<rparr> =
   Inr [0xC6, 0x82, 4, 0, 0xC2, 1, 0xC0]"
  using EncodeToBytes_spec [of "GStruct [GUint 1024, GSlice False [GBool True, GNilStruct]]"
      "\<lparr>str = [7], lheads = [\<lparr>lh_offset = 3, lh_size = 9\<rparr>], lhsize = 4\<rparr>"]
  by (simp add: enc_string_def enc_list_def enc_head_def string_kind_def puthead_def putint_def
      push_bit_eq_mult drop_bit_eq_div)

text \<open>
  C25: Reading the result of \<open>EncodeToReader\<close> in pieces of any sizes gives the encoding, cut off after
  the number of bytes asked for, and the size returned with the reader is the length of the
  encoding.
\<close>

theorem EncodeToReader_spec:
  assumes "enc_gval v = Inr e" "length e < 2 ^ 64"
  shows "\<exists>r. EncodeToReader v eb = Inr (int (length e), r) \<and>
    encReader_Reads ns r = take (sum_list ns) e"
proof -
  obtain w where w: "writer v (encbuf_reset eb) = Inr w" "buf_ok w e"
    using writer_buf_ok [OF assms] by blast
  let ?r = "\<lparr>er_buf = Some w, lhpos = 0, er_strpos = 0, piece = None\<rparr>"
  have "reader_ok ?r" "unread ?r = e"
    using w(2) by (simp_all add: reader_ok_def unread_def buf_ok_def toBytes_def)
  with encReader_Reads_unread [of ?r ns] w show ?thesis
    by (simp add: EncodeToReader_def buf_ok_def)
qed

theorem EncodeToReader_spec_witness:
  "\<exists>r. EncodeToReader (GSlice False [GUint 5, GUint 0]) \<lparr>str = [], lheads = [], lhsize = 0\<rparr> = Inr (3, r) \<and>
     encReader_Reads [1, 0, 1] r = [0xC2, 5]"
proof -
  have e: "enc_gval (GSlice False [GUint 5, GUint 0]) = Inr [0xC2, 5, 0x80]"
    by (simp add: enc_string_def enc_list_def enc_head_def string_kind_def puthead_def putint_small)
  have t: "take (sum_list [1, 0, 1]) [0xC2, 5, 0x80] = [0xC2, 5 :: byte]" by (simp add: take_Cons')
  have l: "int (length [0xC2, 5, 0x80 :: byte]) = 3" by simp
  show ?thesis using EncodeToReader_spec [OF e, of _ "[1, 0, 1]", unfolded t l] by simp
qed

text \<open>
  C26: \<open>CountValues\<close> of a sequence of encoded items is the number of items.
\<close>

theorem CountValues_spec:
  "length (enc_items xs) < 2 ^ 64 \<Longrightarrow> CountValues (enc_items xs) = Inr (length xs)"
  by (simp add: CountValues_def CountValues_loop_enc_items)

theorem CountValues_spec_witness: "CountValues [0xC1, 0x05, 0x82, 0xFF, 0x00, 0x07] = Inr 3"
  using CountValues_spec [of "[Lst [Str [5]], Str [0xFF, 0], Str [7]]"]
  by (simp add: enc_string_def enc_list_def enc_head_def string_kind_def puthead_def)

end
