(* ===== verification/RLP_Stream.thy ===== *)
theory RLP_Stream
  imports RLP_Encode
begin

text \<open>
  The decoder of \<open>rlp/decode.go\<close>: the \<open>Stream\<close> with its stack of open lists, and the decoders that
  \<open>makeDecoder\<close> builds for a Go type. The input reader is in memory (\<open>bytes.Reader\<close>), so that a read
  fails only at its end. An operation takes the stream and returns its result, or its error, and
  the new stream; the \<open>stack\<close> slice of the source is the list \<open>lstack\<close> with the innermost list
  first.
\<close>

record stream =
  inp :: bytes
  remaining :: u64
  limited :: bool
  kind_ahead :: "kind option"
  sz_ahead :: u64
  byteval :: byte
  kinderr :: "rlp_err option"
  lstack :: "(u64 \<times> u64) list"

section \<open>Stream operations\<close>

text \<open>
  \<open>Reset\<close> on a \<open>bytes.Reader\<close>: without an explicit limit, the length of the data is the limit.
\<close>

definition NewStream :: "bytes \<Rightarrow> u64 \<Rightarrow> stream" where
  "NewStream r inputLimit =
     \<lparr>inp = r,
      remaining = (if inputLimit > 0 then inputLimit else word_of_nat (length r)),
      limited = True, kind_ahead = None, sz_ahead = 0, byteval = 0, kinderr = None, lstack = []\<rparr>"

definition NewListStream :: "bytes \<Rightarrow> u64 \<Rightarrow> stream" where
  "NewListStream r len = (NewStream r len)\<lparr>kind_ahead := Some KList, sz_ahead := len\<rparr>"

definition willRead :: "u64 \<Rightarrow> stream \<Rightarrow> (rlp_err + unit) \<times> stream" where
  "willRead n s =
     (let s = s\<lparr>kind_ahead := None\<rparr>;
          limit = (\<lambda>s. if limited s then
                     (if n > remaining s then (Inl ErrValueTooLarge, s)
                      else (Inr (), s\<lparr>remaining := remaining s - n\<rparr>))
                   else (Inr (), s))
      in case lstack s of
           [] \<Rightarrow> limit s
         | (pos, sz) # stack \<Rightarrow>
             if n > sz - pos then (Inl ErrElemTooLarge, s)
             else limit (s\<lparr>lstack := (pos + n, sz) # stack\<rparr>))"

definition readByte :: "stream \<Rightarrow> (rlp_err + byte) \<times> stream" where
  "readByte s =
     (case willRead 1 s of
        (Inl e, s) \<Rightarrow> (Inl e, s)
      | (Inr _, s) \<Rightarrow>
          (case inp s of
             [] \<Rightarrow> (Inl ErrUnexpectedEOF, s)
           | b # r \<Rightarrow> (Inr b, s\<lparr>inp := r\<rparr>)))"

text \<open>\<open>readFull n\<close> fills a buffer of \<open>n\<close> bytes.\<close>

definition readFull :: "u64 \<Rightarrow> stream \<Rightarrow> (rlp_err + bytes) \<times> stream" where
  "readFull n s =
     (case willRead n s of
        (Inl e, s) \<Rightarrow> (Inl e, s)
      | (Inr _, s) \<Rightarrow>
          if unat n \<le> length (inp s) then
            (Inr (take (unat n) (inp s)), s\<lparr>inp := drop (unat n) (inp s)\<rparr>)
          else (Inl ErrUnexpectedEOF, s\<lparr>inp := []\<rparr>))"

text \<open>
  \<open>readUint\<close> reads into the tail of the 8-byte \<open>uintbuf\<close>, whose head it clears; more than 8 bytes are
  a slice bound out of range.
\<close>

definition readUint :: "byte \<Rightarrow> stream \<Rightarrow> (rlp_err + u64) \<times> stream" where
  "readUint sz s =
     (if sz = 0 then (Inr 0, s\<lparr>kind_ahead := None\<rparr>)
      else if sz = 1 then
        (case readByte s of (Inl e, s) \<Rightarrow> (Inl e, s) | (Inr b, s) \<Rightarrow> (Inr (ucast b), s))
      else if sz > 8 then (Inl RlpPanic, s)
      else
        (case readFull (ucast sz) s of
           (Inl e, s) \<Rightarrow> (Inl e, s)
         | (Inr buf, s) \<Rightarrow>
             if buf ! 0 = 0 then (Inl ErrCanonSize, s)
             else (Inr (be_word_acc 0 (replicate (8 - unat sz) 0 @ buf)), s)))"

text \<open>
  \<open>Stream.readKind\<close> returns kind, size and error together, and \<open>Kind\<close> stores all three; on an error
  of \<open>readByte\<close> the kind is the zero value \<open>Byte\<close>.
\<close>

definition s_readKind :: "stream \<Rightarrow> (kind \<times> u64 \<times> rlp_err option) \<times> stream" where
  "s_readKind s =
     (case readByte s of
        (Inl e, s) \<Rightarrow>
          ((KByte, 0,
            Some (if lstack s = [] \<and> (e = ErrUnexpectedEOF \<or> e = ErrValueTooLarge)
                  then ErrEOF else e)), s)
      | (Inr b, s) \<Rightarrow>
          (let s = s\<lparr>byteval := 0\<rparr>;
               long = (\<lambda>k n. case readUint n s of
                          (Inl e, s) \<Rightarrow> ((k, 0, Some e), s)
                        | (Inr z, s) \<Rightarrow> ((k, z, if z < 56 then Some ErrCanonSize else None), s))
           in if b < 0x80 then ((KByte, 0, None), s\<lparr>byteval := b\<rparr>)
              else if b < 0xB8 then ((KString, ucast (b - 0x80), None), s)
              else if b < 0xC0 then long KString (b - 0xB7)
              else if b < 0xF8 then ((KList, ucast (b - 0xC0), None), s)
              else long KList (b - 0xF7)))"

definition s_Kind :: "stream \<Rightarrow> (rlp_err + kind \<times> u64) \<times> stream" where
  "s_Kind s =
     (case kind_ahead s of
        Some k \<Rightarrow>
          ((case kinderr s of Some e \<Rightarrow> Inl e | None \<Rightarrow> Inr (k, sz_ahead s)), s)
      | None \<Rightarrow>
          (let s = s\<lparr>kinderr := None\<rparr> in
           if (case lstack s of [] \<Rightarrow> False | (pos, sz) # _ \<Rightarrow> pos = sz) then (Inl EOL, s)
           else
             (case s_readKind s of
                ((k, z, err), s) \<Rightarrow>
                  (let err =
                     (case err of
                        Some e \<Rightarrow> Some e
                      | None \<Rightarrow>
                          (case lstack s of
                             [] \<Rightarrow> if limited s \<and> z > remaining s then Some ErrValueTooLarge else None
                           | (pos, sz) # _ \<Rightarrow> if z > sz - pos then Some ErrElemTooLarge else None));
                       s = s\<lparr>kind_ahead := Some k, sz_ahead := z, kinderr := err\<rparr>
                   in ((case err of Some e \<Rightarrow> Inl e | None \<Rightarrow> Inr (k, z)), s)))))"

definition s_Bytes :: "stream \<Rightarrow> (rlp_err + bytes) \<times> stream" where
  "s_Bytes s =
     (case s_Kind s of
        (Inl e, s) \<Rightarrow> (Inl e, s)
      | (Inr (k, z), s) \<Rightarrow>
          (case k of
             KByte \<Rightarrow> (Inr [byteval s], s\<lparr>kind_ahead := None\<rparr>)
           | KString \<Rightarrow>
               (case readFull z s of
                  (Inl e, s) \<Rightarrow> (Inl e, s)
                | (Inr b, s) \<Rightarrow>
                    if z = 1 \<and> b ! 0 < 128 then (Inl ErrCanonSize, s) else (Inr b, s))
           | KList \<Rightarrow> (Inl ErrExpectedString, s)))"

definition s_Raw :: "stream \<Rightarrow> (rlp_err + bytes) \<times> stream" where
  "s_Raw s =
     (case s_Kind s of
        (Inl e, s) \<Rightarrow> (Inl e, s)
      | (Inr (k, z), s) \<Rightarrow>
          if k = KByte then (Inr [byteval s], s\<lparr>kind_ahead := None\<rparr>)
          else
            (case readFull z s of
               (Inl e, s) \<Rightarrow> (Inl e, s)
             | (Inr b, s) \<Rightarrow>
                 if k = KString then (Inr (puthead 0x80 0xB8 z @ b), s)
                 else (Inr (puthead 0xC0 0xF7 z @ b), s)))"

definition s_uint :: "nat \<Rightarrow> stream \<Rightarrow> (rlp_err + u64) \<times> stream" where
  "s_uint maxbits s =
     (case s_Kind s of
        (Inl e, s) \<Rightarrow> (Inl e, s)
      | (Inr (k, z), s) \<Rightarrow>
          (case k of
             KByte \<Rightarrow>
               if byteval s = 0 then (Inl ErrCanonInt, s)
               else (Inr (ucast (byteval s)), s\<lparr>kind_ahead := None\<rparr>)
           | KString \<Rightarrow>
               if z > word_of_nat (maxbits div 8) then (Inl ErrUintOverflow, s)
               else
                 (case readUint (ucast z) s of
                    (Inl e, s) \<Rightarrow> (Inl (if e = ErrCanonSize then ErrCanonInt else e), s)
                  | (Inr v, s) \<Rightarrow>
                      if z > 0 \<and> v < 128 then (Inl ErrCanonSize, s) else (Inr v, s))
           | KList \<Rightarrow> (Inl ErrExpectedString, s)))"

definition s_Uint :: "stream \<Rightarrow> (rlp_err + u64) \<times> stream" where
  "s_Uint s = s_uint 64 s"

definition s_Bool :: "stream \<Rightarrow> (rlp_err + bool) \<times> stream" where
  "s_Bool s =
     (case s_uint 8 s of
        (Inl e, s) \<Rightarrow> (Inl e, s)
      | (Inr num, s) \<Rightarrow>
          if num = 0 then (Inr False, s)
          else if num = 1 then (Inr True, s)
          else (Inl ErrInvalidBool, s))"

definition s_List :: "stream \<Rightarrow> (rlp_err + u64) \<times> stream" where
  "s_List s =
     (case s_Kind s of
        (Inl e, s) \<Rightarrow> (Inl e, s)
      | (Inr (k, z), s) \<Rightarrow>
          if k \<noteq> KList then (Inl ErrExpectedList, s)
          else (Inr z, s\<lparr>lstack := (0, z) # lstack s, kind_ahead := None, sz_ahead := 0\<rparr>))"

definition s_ListEnd :: "stream \<Rightarrow> (rlp_err + unit) \<times> stream" where
  "s_ListEnd s =
     (case lstack s of
        [] \<Rightarrow> (Inl ErrNotInList, s)
      | (pos, sz) # stack \<Rightarrow>
          if pos \<noteq> sz then (Inl ErrNotAtEOL, s)
          else
            (Inr (),
             s\<lparr>lstack := (case stack of [] \<Rightarrow> [] | (p, z) # st \<Rightarrow> (p + sz, z) # st),
               kind_ahead := None, sz_ahead := 0\<rparr>))"

section \<open>Decoders\<close>

text \<open>
  The Go types that \<open>makeDecoder\<close> handles by itself. \<open>TTail\<close> is a slice field tagged \<open>"tail"\<close>,
  \<open>TNilPtr\<close> a pointer field tagged \<open>"nil"\<close>. A decoder is given a fresh zero value to decode into.
\<close>

datatype gtype =
    TRawValue
  | TBigInt
  | TUint nat
  | TBool
  | TString
  | TByteSlice
  | TByteArray nat
  | TSlice gtype
  | TTail gtype
  | TArray nat gtype
  | TStruct "gtype list"
  | TPtr gtype
  | TNilPtr gtype
  | TInterface

definition wrapStreamError :: "rlp_err \<Rightarrow> rlp_err" where
  "wrapStreamError e =
     (if e \<in> {ErrCanonInt, ErrCanonSize, ErrExpectedList, ErrExpectedString, ErrUintOverflow, ErrNotAtEOL}
      then DecodeError e else e)"

text \<open>The zero value of a type, and the nil pointer to it as \<open>makePtrWriter\<close> sees it.\<close>

fun zero_val :: "gtype \<Rightarrow> gval" and nil_ptr :: "gtype \<Rightarrow> gval" where
  "zero_val TRawValue = GRawValue []"
| "zero_val TBigInt = GBigInt 0"
| "zero_val (TUint bits) = GUint 0"
| "zero_val TBool = GBool False"
| "zero_val TString = GString []"
| "zero_val TByteSlice = GBytes []"
| "zero_val (TByteArray n) = GByteArray (replicate n 0)"
| "zero_val (TSlice t) = GSlice False []"
| "zero_val (TTail t) = GSlice True []"
| "zero_val (TArray n t) = GSlice False (replicate n (zero_val t))"
| "zero_val (TStruct ts) = GStruct (map zero_val ts)"
| "zero_val (TPtr t) = nil_ptr t"
| "zero_val (TNilPtr t) = nil_ptr t"
| "zero_val TInterface = GNilInterface"
| "nil_ptr t =
     (case t of
        TByteArray _ \<Rightarrow> GNilByteArray
      | TStruct _ \<Rightarrow> GNilStruct
      | TArray _ _ \<Rightarrow> GNilStruct
      | _ \<Rightarrow> GNilOther (zero_val t))"

definition decodeRawValue :: "stream \<Rightarrow> (rlp_err + gval) \<times> stream" where
  "decodeRawValue s =
     (case s_Raw s of (Inl e, s) \<Rightarrow> (Inl e, s) | (Inr r, s) \<Rightarrow> (Inr (GRawValue r), s))"

definition decodeUint :: "nat \<Rightarrow> stream \<Rightarrow> (rlp_err + gval) \<times> stream" where
  "decodeUint bits s =
     (case s_uint bits s of
        (Inl e, s) \<Rightarrow> (Inl (wrapStreamError e), s)
      | (Inr num, s) \<Rightarrow> (Inr (GUint num), s))"

definition decodeBool :: "stream \<Rightarrow> (rlp_err + gval) \<times> stream" where
  "decodeBool s =
     (case s_Bool s of
        (Inl e, s) \<Rightarrow> (Inl (wrapStreamError e), s)
      | (Inr b, s) \<Rightarrow> (Inr (GBool b), s))"

definition decodeString :: "stream \<Rightarrow> (rlp_err + gval) \<times> stream" where
  "decodeString s =
     (case s_Bytes s of
        (Inl e, s) \<Rightarrow> (Inl (wrapStreamError e), s)
      | (Inr b, s) \<Rightarrow> (Inr (GString b), s))"

definition decodeBigInt :: "stream \<Rightarrow> (rlp_err + gval) \<times> stream" where
  "decodeBigInt s =
     (case s_Bytes s of
        (Inl e, s) \<Rightarrow> (Inl (wrapStreamError e), s)
      | (Inr b, s) \<Rightarrow>
          if length b > 0 \<and> b ! 0 = 0 then (Inl (wrapStreamError ErrCanonInt), s)
          else (Inr (GBigInt (int (be_nat b))), s))"

definition decodeByteSlice :: "stream \<Rightarrow> (rlp_err + gval) \<times> stream" where
  "decodeByteSlice s =
     (case s_Bytes s of
        (Inl e, s) \<Rightarrow> (Inl (wrapStreamError e), s)
      | (Inr b, s) \<Rightarrow> (Inr (GBytes b), s))"

text \<open>In the \<open>Byte\<close> case the source ignores the error of \<open>Uint\<close> and stores the zero it returns.\<close>

definition decodeByteArray :: "nat \<Rightarrow> stream \<Rightarrow> (rlp_err + gval) \<times> stream" where
  "decodeByteArray vlen s =
     (case s_Kind s of
        (Inl e, s) \<Rightarrow> (Inl e, s)
      | (Inr (k, z), s) \<Rightarrow>
          (case k of
             KByte \<Rightarrow>
               if vlen = 0 then (Inl (DecodeError ErrInputTooLong), s)
               else if vlen > 1 then (Inl (DecodeError ErrInputTooShort), s)
               else
                 (case s_Uint s of
                    (Inl _, s) \<Rightarrow> (Inr (GByteArray [0]), s)
                  | (Inr bv, s) \<Rightarrow> (Inr (GByteArray [ucast bv]), s))
           | KString \<Rightarrow>
               if word_of_nat vlen < z then (Inl (DecodeError ErrInputTooLong), s)
               else if word_of_nat vlen > z then (Inl (DecodeError ErrInputTooShort), s)
               else
                 (case readFull (word_of_nat vlen) s of
                    (Inl e, s) \<Rightarrow> (Inl e, s)
                  | (Inr b, s) \<Rightarrow>
                      if z = 1 \<and> b ! 0 < 128 then (Inl (wrapStreamError ErrCanonSize), s)
                      else (Inr (GByteArray b), s))
           | KList \<Rightarrow> (Inl (wrapStreamError ErrExpectedString), s)))"

text \<open>
  The decoders that recurse. A list decoder runs until its elements report the end of the list, which
  is not bounded by the type, so the recursion has fuel; \<open>None\<close> is running out of it.
\<close>

text \<open>\<open>on_result x f g\<close> continues a computation that ran: \<open>f\<close> on its error, \<open>g\<close> on its value.\<close>

fun on_result :: "((rlp_err + 'a) \<times> stream) option \<Rightarrow> (rlp_err \<Rightarrow> stream \<Rightarrow> 'b option) \<Rightarrow>
    ('a \<Rightarrow> stream \<Rightarrow> 'b option) \<Rightarrow> 'b option" where
  "on_result None f g = None"
| "on_result (Some (Inl e, s)) f g = f e s"
| "on_result (Some (Inr v, s)) f g = g v s"

lemma on_result_cong [fundef_cong]:
  assumes "x = x'" "\<And>e s. x' = Some (Inl e, s) \<Longrightarrow> f e s = f' e s"
    "\<And>v s. x' = Some (Inr v, s) \<Longrightarrow> g v s = g' v s"
  shows "on_result x f g = on_result x' f' g'"
  using assms by (cases "(x, f, g)" rule: on_result.cases) auto

definition raise :: "rlp_err \<Rightarrow> stream \<Rightarrow> ((rlp_err + 'a) \<times> stream) option" where
  "raise e s = Some (Inl e, s)"

definition raise_wrapped :: "rlp_err \<Rightarrow> stream \<Rightarrow> ((rlp_err + 'a) \<times> stream) option" where
  "raise_wrapped e s = Some (Inl (wrapStreamError e), s)"

definition too_few :: "rlp_err \<Rightarrow> stream \<Rightarrow> ((rlp_err + 'a) \<times> stream) option" where
  "too_few e s = Some (Inl (if e = EOL then DecodeError ErrTooFewElements else e), s)"

definition give :: "'a \<Rightarrow> stream \<Rightarrow> ((rlp_err + 'a) \<times> stream) option" where
  "give v s = Some (Inr v, s)"

lemmas result_simps = raise_def raise_wrapped_def too_few_def give_def

function (sequential) decode_val :: "nat \<Rightarrow> gtype \<Rightarrow> stream \<Rightarrow> ((rlp_err + gval) \<times> stream) option"
  and decodeListSlice :: "nat \<Rightarrow> gtype \<Rightarrow> stream \<Rightarrow> ((rlp_err + gval list) \<times> stream) option"
  and decodeSliceElems :: "nat \<Rightarrow> gtype \<Rightarrow> stream \<Rightarrow> ((rlp_err + gval list) \<times> stream) option"
  and decodeArrayElems ::
    "nat \<Rightarrow> nat \<Rightarrow> gtype \<Rightarrow> stream \<Rightarrow> ((rlp_err + gval list) \<times> stream) option"
  and decodeFields :: "nat \<Rightarrow> gtype list \<Rightarrow> stream \<Rightarrow> ((rlp_err + gval list) \<times> stream) option" where
  "decode_val 0 t s = None"
| "decode_val (Suc fuel) t s =
     (case t of
        TRawValue \<Rightarrow> Some (decodeRawValue s)
      | TBigInt \<Rightarrow> Some (decodeBigInt s)
      | TUint bits \<Rightarrow> Some (decodeUint bits s)
      | TBool \<Rightarrow> Some (decodeBool s)
      | TString \<Rightarrow> Some (decodeString s)
      | TByteSlice \<Rightarrow> Some (decodeByteSlice s)
      | TByteArray n \<Rightarrow> Some (decodeByteArray n s)
      | TSlice t \<Rightarrow>
          on_result (decodeListSlice fuel t s) raise (\<lambda>vs. give (GSlice False vs))
      | TTail t \<Rightarrow>
          on_result (decodeSliceElems fuel t s) raise (\<lambda>vs. give (GSlice True vs))
      | TArray n t \<Rightarrow>
          on_result (Some (s_List s)) raise_wrapped (\<lambda>_ s.
            on_result (decodeArrayElems fuel n t s) raise (\<lambda>vs s.
              on_result (Some (s_ListEnd s)) raise_wrapped (\<lambda>_. give (GSlice False vs))))
      | TStruct ts \<Rightarrow>
          on_result (Some (s_List s)) raise_wrapped (\<lambda>_ s.
            on_result (decodeFields fuel ts s) raise (\<lambda>vs s.
              on_result (Some (s_ListEnd s)) raise_wrapped (\<lambda>_. give (GStruct vs))))
      | TPtr t \<Rightarrow> on_result (decode_val fuel t s) raise (\<lambda>v. give (GPtr v))
      | TNilPtr t \<Rightarrow>
          on_result (Some (s_Kind s)) (\<lambda>e s. raise e (s\<lparr>kind_ahead := None\<rparr>)) (\<lambda>kz s.
            if snd kz = 0 \<and> fst kz \<noteq> KByte then give (nil_ptr t) (s\<lparr>kind_ahead := None\<rparr>)
            else on_result (decode_val fuel t s) raise (\<lambda>v. give (GPtr v)))
      | TInterface \<Rightarrow>
          on_result (Some (s_Kind s)) raise (\<lambda>kz s.
            if fst kz = KList then
              on_result (decodeListSlice fuel TInterface s) raise
                (\<lambda>vs. give (GInterface (GSlice False vs)))
            else on_result (Some (s_Bytes s)) raise (\<lambda>b. give (GInterface (GBytes b)))))"
| "decodeListSlice 0 t s = None"
| "decodeListSlice (Suc fuel) t s =
     on_result (Some (s_List s)) raise_wrapped (\<lambda>sz s.
       if sz = 0 then on_result (Some (s_ListEnd s)) raise (\<lambda>_. give [])
       else
         on_result (decodeSliceElems fuel t s) raise (\<lambda>vs s.
           on_result (Some (s_ListEnd s)) raise (\<lambda>_. give vs)))"
| "decodeSliceElems 0 t s = None"
| "decodeSliceElems (Suc fuel) t s =
     on_result (decode_val fuel t s)
       (\<lambda>e s. if e = EOL then give [] s else raise e s)
       (\<lambda>v s. on_result (decodeSliceElems fuel t s) raise (\<lambda>vs. give (v # vs)))"
| "decodeArrayElems 0 n t s = None"
| "decodeArrayElems (Suc fuel) n t s =
     (if n = 0 then give [] s
      else
        on_result (decode_val fuel t s) too_few
          (\<lambda>v s. on_result (decodeArrayElems fuel (n - 1) t s) raise (\<lambda>vs. give (v # vs))))"
| "decodeFields 0 ts s = None"
| "decodeFields (Suc fuel) ts s =
     (case ts of
        [] \<Rightarrow> give [] s
      | t # ts \<Rightarrow>
          on_result (decode_val fuel t s) too_few
            (\<lambda>v s. on_result (decodeFields fuel ts s) raise (\<lambda>vs. give (v # vs))))"
  by pat_completeness auto
termination
  by (relation "measure (\<lambda>x. case x of
       Inl (Inl (n, _)) \<Rightarrow> n | Inl (Inr (n, _)) \<Rightarrow> n
     | Inr (Inl (n, _)) \<Rightarrow> n | Inr (Inr (Inl (n, _))) \<Rightarrow> n | Inr (Inr (Inr (n, _))) \<Rightarrow> n)") auto

text \<open>
  \<open>DecodeBytes\<close> makes the stream with the length of the data as its limit; with no data the limit
  is discovered from the reader, which gives the same.
\<close>

definition DecodeBytes :: "nat \<Rightarrow> gtype \<Rightarrow> bytes \<Rightarrow> (rlp_err + gval) option" where
  "DecodeBytes fuel t b =
     on_result (decode_val fuel t (NewStream b (word_of_nat (length b))))
       (\<lambda>e _. Some (Inl e))
       (\<lambda>v s. Some (if length (inp s) > 0 then Inl ErrMoreThanOneValue else Inr v))"

section \<open>The stream invariant\<close>

text \<open>
  A limited stream whose limit is the data left, with a stack of open lists each of which fits into
  what its parent has left and, together with what was read inside it, into the data.
\<close>

fun stack_ok :: "(u64 \<times> u64) list \<Rightarrow> nat \<Rightarrow> bool" where
  "stack_ok [] l \<longleftrightarrow> True"
| "stack_ok ((pos, sz) # st) l \<longleftrightarrow>
     unat pos \<le> unat sz \<and> unat sz - unat pos \<le> l \<and>
     (case st of [] \<Rightarrow> True | (p, z) # _ \<Rightarrow> unat sz \<le> unat z - unat p) \<and>
     stack_ok st (l + unat pos)"

definition sinv :: "stream \<Rightarrow> bool" where
  "sinv s \<longleftrightarrow> limited s \<and> unat (remaining s) = length (inp s) \<and> stack_ok (lstack s) (length (inp s))"

definition room :: "stream \<Rightarrow> nat" where
  "room s = (case lstack s of [] \<Rightarrow> length (inp s) | (pos, sz) # _ \<Rightarrow> unat sz - unat pos)"

fun bump :: "nat \<Rightarrow> (u64 \<times> u64) list \<Rightarrow> (u64 \<times> u64) list" where
  "bump n [] = []"
| "bump n ((pos, sz) # st) = (pos + word_of_nat n, sz) # st"

text \<open>\<open>adv n s\<close> is \<open>s\<close> with \<open>n\<close> bytes read, \<open>s \<leadsto> s'\<close> up to the cached fields.\<close>

definition adv :: "nat \<Rightarrow> stream \<Rightarrow> stream" where
  "adv n s = s\<lparr>kind_ahead := None, inp := drop n (inp s), remaining := remaining s - word_of_nat n,
     lstack := bump n (lstack s)\<rparr>"

lemma adv_fields [simp]:
  "inp (adv n s) = drop n (inp s)" "kind_ahead (adv n s) = None" "limited (adv n s) = limited s"
  "lstack (adv n s) = bump n (lstack s)" "remaining (adv n s) = remaining s - word_of_nat n"
  by (simp_all add: adv_def)

lemma room_le: "sinv s \<Longrightarrow> room s \<le> length (inp s)"
  by (auto simp: sinv_def room_def split: list.splits)

lemma length_inp_u64: "sinv s \<Longrightarrow> length (inp s) < 2 ^ 64"
  using unat_u64_less [of "remaining s"] by (auto simp: sinv_def)

lemma bump_ok:
  assumes "stack_ok st l" "n \<le> l" "n < 2 ^ 64"
    "case st of [] \<Rightarrow> True | (p, z) # _ \<Rightarrow> n \<le> unat z - unat p"
  shows "stack_ok (bump n st) (l - n)"
proof (cases st)
  case (Cons pz st')
  obtain p z where pz: "pz = (p, z)" by fastforce
  have "unat p \<le> unat z" "n \<le> unat z - unat p" using assms Cons pz by simp_all
  then have le: "unat p + n \<le> unat z" by linarith
  then have "unat p + n < 2 ^ 64" using unat_u64_less [of z] by linarith
  then have "unat (p + word_of_nat n) = unat p + n"
    using assms(3) by (simp add: unat_word_ariths unat_of_nat_u64)
  with assms le Cons pz show ?thesis by (auto simp: add.commute)
qed simp

lemma sinv_adv:
  assumes "sinv s" "n \<le> room s"
  shows "sinv (adv n s)" "room (adv n s) = room s - n"
proof -
  have le: "n \<le> length (inp s)" using assms room_le by fastforce
  have lt: "n < 2 ^ 64" using le length_inp_u64 [OF assms(1)] by linarith
  have u: "unat (word_of_nat n :: u64) = n" using lt by (simp add: unat_of_nat_u64)
  have "unat (remaining s - word_of_nat n) = length (inp s) - n"
    using assms(1) le u by (simp add: sinv_def unat_sub word_le_nat_alt)
  moreover have "stack_ok (bump n (lstack s)) (length (inp s) - n)"
    using assms le lt by (intro bump_ok) (auto simp: sinv_def room_def split: list.splits)
  ultimately show "sinv (adv n s)" using assms(1) by (simp add: sinv_def adv_def)
  show "room (adv n s) = room s - n"
  proof (cases "lstack s")
    case (Cons pz st')
    obtain p z where pz: "pz = (p, z)" by fastforce
    have "unat p + n \<le> unat z" using assms Cons pz by (auto simp: sinv_def room_def)
    then have "unat p + n < 2 ^ 64" using unat_u64_less [of z] by linarith
    then have "unat (p + word_of_nat n) = unat p + n" using u by (simp add: unat_word_ariths)
    with Cons pz show ?thesis by (simp add: room_def adv_def)
  qed (simp add: room_def adv_def)
qed

lemma willRead_ok:
  assumes "sinv s" "unat n \<le> room s"
  shows "willRead n s = (Inr (), (adv (unat n) s)\<lparr>inp := inp s\<rparr>)"
proof -
  have "unat n \<le> length (inp s)" using assms room_le by fastforce
  then have "\<not> n > remaining s" using assms(1) by (simp add: sinv_def word_less_nat_alt)
  moreover have "\<not> n > sz - pos" if "lstack s = (pos, sz) # st" for pos sz st
    using assms that by (simp add: sinv_def room_def word_less_nat_alt unat_sub word_le_nat_alt)
  ultimately show ?thesis
    using assms(1) by (auto simp: willRead_def Let_def adv_def sinv_def split: list.splits)
qed

lemma willRead_InrD:
  assumes "sinv s" "willRead n s = (Inr u, s')"
  shows "unat n \<le> room s"
  using assms
  by (auto simp: willRead_def Let_def sinv_def room_def word_less_nat_alt unat_sub word_le_nat_alt
      split: list.splits if_splits)

lemma readFull_ok:
  assumes "sinv s" "unat n \<le> room s"
  shows "readFull n s = (Inr (take (unat n) (inp s)), adv (unat n) s)"
proof -
  have "unat n \<le> length (inp s)" using assms room_le by fastforce
  then show ?thesis using willRead_ok [OF assms] by (simp add: readFull_def adv_def)
qed

lemma readFull_InrD: "sinv s \<Longrightarrow> readFull n s = (Inr b, s') \<Longrightarrow> unat n \<le> room s"
  by (auto simp: readFull_def split: prod.splits sum.splits dest: willRead_InrD)

lemma readByte_ok:
  assumes "sinv s" "0 < room s"
  shows "readByte s = (Inr (inp s ! 0), adv 1 s)"
proof -
  have "0 < length (inp s)" using assms room_le by fastforce
  then obtain b r where "inp s = b # r" by (cases "inp s") auto
  then show ?thesis using willRead_ok [OF assms(1), of 1] assms(2) by (simp add: readByte_def adv_def)
qed

lemma readByte_InrD: "sinv s \<Longrightarrow> readByte s = (Inr b, s') \<Longrightarrow> 0 < room s"
  by (auto simp: readByte_def split: prod.splits sum.splits dest: willRead_InrD)

text \<open>\<open>moved n s s'\<close>: \<open>s'\<close> is \<open>s\<close> with \<open>n\<close> bytes read, whatever the cached kind is.\<close>

definition moved :: "nat \<Rightarrow> stream \<Rightarrow> stream \<Rightarrow> bool" where
  "moved n s s' \<longleftrightarrow> inp s' = drop n (inp s) \<and> remaining s' = remaining s - word_of_nat n \<and>
     limited s' = limited s \<and> lstack s' = bump n (lstack s)"

lemma moved_adv: "moved n s (adv n s)"
  by (simp add: moved_def adv_def)

lemma moved_sinv:
  assumes "moved n s s'" "sinv s" "n \<le> room s"
  shows "sinv s'" "room s' = room s - n"
  using sinv_adv [OF assms(2,3)] assms(1)
  by (auto simp: moved_def adv_def sinv_def room_def cong: list.case_cong)

lemma bump_bump: "bump m (bump n st) = bump (n + m) st"
  by (cases "(m, st)" rule: bump.cases) (simp_all add: add.assoc)

lemma moved_trans: "moved m s s' \<Longrightarrow> moved n s' s'' \<Longrightarrow> moved (m + n) s s''"
  by (simp add: moved_def bump_bump add.commute)

lemma bump_0 [simp]: "bump 0 st = st"
  by (cases "(0::nat, st)" rule: bump.cases) simp_all

lemma be_word_zeros: "be_word_acc 0 (replicate k 0 @ bs) = be_word_acc 0 bs"
  by (induction k) simp_all

lemma readUint_ok:
  assumes "sinv s" "1 \<le> unat n" "unat n \<le> 8" "unat n \<le> room s"
  shows "readUint n s =
    (if n \<noteq> 1 \<and> inp s ! 0 = 0 then Inl ErrCanonSize else Inr (be_word_acc 0 (take (unat n) (inp s))),
     adv (unat n) s)"
proof -
  have n0: "n \<noteq> 0" and n8: "\<not> n > 8"
    using assms(2,3) by (auto simp: word_less_nat_alt)
  show ?thesis
  proof (cases "n = 1")
    case True
    have "length (inp s) > 0" using assms(1,2,4) room_le by fastforce
    then have "take 1 (inp s) = [inp s ! 0]" by (cases "inp s") auto
    with True show ?thesis using readByte_ok [OF assms(1)] assms(4) by (simp add: readUint_def)
  next
    case False
    have "readFull (ucast n) s = (Inr (take (unat n) (inp s)), adv (unat n) s)"
      using readFull_ok [OF assms(1), of "ucast n"] assms(4) by (simp add: unat_ucast_u64)
    with False n0 n8 assms(2) show ?thesis by (simp add: readUint_def be_word_zeros)
  qed
qed

lemma readUint_InrD: "sinv s \<Longrightarrow> 1 \<le> unat n \<Longrightarrow> readUint n s = (Inr z, s') \<Longrightarrow> unat n \<le> room s"
  by (auto simp: readUint_def unat_ucast_u64 split: if_splits prod.splits sum.splits
      dest: readByte_InrD readFull_InrD)

section \<open>Kind\<close>

text \<open>The last step of \<open>Kind\<close>: the size check, and the cached result.\<close>

definition kind_result :: "kind \<Rightarrow> u64 \<Rightarrow> stream \<Rightarrow> (rlp_err + kind \<times> u64) \<times> stream" where
  "kind_result k z s =
     (let err = (if unat z \<le> room s then None
                 else Some (if lstack s = [] then ErrValueTooLarge else ErrElemTooLarge))
      in ((case err of Some e \<Rightarrow> Inl e | None \<Rightarrow> Inr (k, z)),
          s\<lparr>kind_ahead := Some k, sz_ahead := z, kinderr := err\<rparr>))"

lemma kind_check:
  assumes "sinv s"
  shows "(case lstack s of
       [] \<Rightarrow> if limited s \<and> z > remaining s then Some ErrValueTooLarge else None
     | (pos, sz) # _ \<Rightarrow> if z > sz - pos then Some ErrElemTooLarge else None) =
    (if unat z \<le> room s then None
     else Some (if lstack s = [] then ErrValueTooLarge else ErrElemTooLarge))"
  using assms
  by (auto simp: sinv_def room_def word_less_nat_alt unat_sub word_le_nat_alt split: list.splits)

lemma s_Kind_unfold:
  assumes "sinv s" "kind_ahead s = None" "0 < room s"
    and "s_readKind (s\<lparr>kinderr := None\<rparr>) = ((k, z, None), s')" "sinv s'"
  shows "s_Kind s = kind_result k z s'"
proof -
  have "\<not> (case lstack s of [] \<Rightarrow> False | (pos, sz) # _ \<Rightarrow> pos = sz)"
    using assms(3) by (auto simp: room_def split: list.splits)
  then show ?thesis
    using assms(2,4) kind_check [OF assms(5), of z]
    by (simp add: s_Kind_def kind_result_def Let_def)
qed

lemma sinv_upd [simp]:
  "sinv (s\<lparr>kinderr := e\<rparr>) = sinv s" "sinv (s\<lparr>byteval := b\<rparr>) = sinv s"
  "sinv (s\<lparr>kind_ahead := k\<rparr>) = sinv s" "sinv (s\<lparr>sz_ahead := z\<rparr>) = sinv s"
  "room (s\<lparr>kinderr := e\<rparr>) = room s" "room (s\<lparr>byteval := b\<rparr>) = room s"
  "room (s\<lparr>kind_ahead := k\<rparr>) = room s" "room (s\<lparr>sz_ahead := z\<rparr>) = room s"
  by (simp_all add: sinv_def room_def cong: list.case_cong)

lemma adv_upd [simp]:
  "adv n (s\<lparr>kinderr := e\<rparr>) = (adv n s)\<lparr>kinderr := e\<rparr>"
  "adv n (s\<lparr>byteval := b\<rparr>) = (adv n s)\<lparr>byteval := b\<rparr>"
  by (simp_all add: adv_def)

definition small_tag :: "kind \<Rightarrow> byte" where
  "small_tag k = (if k = KList then 0xC0 else 0x80)"

definition large_tag :: "kind \<Rightarrow> byte" where
  "large_tag k = (if k = KList then 0xF7 else 0xB7)"

definition hdr :: "kind \<Rightarrow> u64 \<Rightarrow> bytes" where
  "hdr k z = puthead (small_tag k) (large_tag k) z"

lemma enc_head_hdr: "k \<noteq> KByte \<Longrightarrow> enc_head k c = hdr k (word_of_nat (length c))"
  by (cases k) (simp_all add: enc_head_def hdr_def small_tag_def large_tag_def)

lemma s_Kind_byte:
  assumes "sinv s" "kind_ahead s = None" "0 < room s" "inp s ! 0 < 0x80"
  shows "s_Kind s = kind_result KByte 0 ((adv 1 s)\<lparr>kinderr := None, byteval := inp s ! 0\<rparr>)"
  using assms readByte_ok [of "s\<lparr>kinderr := None\<rparr>"] sinv_adv [of s 1]
  by (intro s_Kind_unfold) (simp_all add: s_readKind_def Let_def)

lemma s_Kind_short:
  assumes "sinv s" "kind_ahead s = None" "0 < room s" "k \<noteq> KByte"
    and "unat (small_tag k) \<le> unat (inp s ! 0)" "unat (inp s ! 0) < unat (small_tag k) + 56"
  shows "s_Kind s = kind_result k (ucast (inp s ! 0 - small_tag k))
    ((adv 1 s)\<lparr>kinderr := None, byteval := 0\<rparr>)"
  using assms readByte_ok [of "s\<lparr>kinderr := None\<rparr>"] sinv_adv [of s 1]
  by (intro s_Kind_unfold; cases k)
    (simp_all add: s_readKind_def Let_def small_tag_def word_less_nat_alt)

lemma s_Kind_long:
  assumes s: "sinv s" "kind_ahead s = None" "0 < room s" "k \<noteq> KByte"
    and b: "unat (large_tag k) < unat (inp s ! 0)" "unat (inp s ! 0) \<le> unat (large_tag k) + 8"
    and n: "n = unat (inp s ! 0) - unat (large_tag k)" "n < room s"
    and z: "z = be_word_acc 0 (take n (drop 1 (inp s)))" "inp s ! 1 \<noteq> 0" "\<not> z < 56"
  shows "s_Kind s = kind_result k z ((adv (1 + n) s)\<lparr>kinderr := None, byteval := 0\<rparr>)"
proof -
  let ?b = "inp s ! 0" and ?s1 = "(adv 1 s)\<lparr>kinderr := None, byteval := 0\<rparr>"
  have un: "unat (?b - large_tag k) = n" using b n(1) by (simp add: unat_byte_minus)
  have s1: "sinv ?s1" "n \<le> room ?s1" "1 \<le> n" "n \<le> 8"
    using sinv_adv [OF s(1), of 1] s(3) n b by auto
  have i1: "inp ?s1 = drop 1 (inp s)" by (simp add: adv_def)
  have "1 < length (inp s)" using n(2) s1(3) room_le [OF s(1)] by linarith
  then have "inp ?s1 ! 0 = inp s ! 1" using i1 by simp
  moreover have a: "adv n ?s1 = (adv (1 + n) s)\<lparr>kinderr := None, byteval := 0\<rparr>"
    by (simp add: adv_def bump_bump add.commute)
  ultimately have ru: "readUint (?b - large_tag k) ?s1 = (Inr z, (adv (1 + n) s)\<lparr>kinderr := None, byteval := 0\<rparr>)"
    using readUint_ok [OF s1(1), of "?b - large_tag k"] s1 un z i1 by simp
  have "s_readKind (s\<lparr>kinderr := None\<rparr>) = ((k, z, None), (adv (1 + n) s)\<lparr>kinderr := None, byteval := 0\<rparr>)"
    using ru s(1,3,4) z(3) b readByte_ok [of "s\<lparr>kinderr := None\<rparr>"] unat_byte_less [of ?b]
    by (cases k) (simp_all add: s_readKind_def Let_def large_tag_def word_less_nat_alt)
  then show ?thesis
    using s n sinv_adv [OF s(1), of "1 + n"] by (intro s_Kind_unfold) simp_all
qed

text \<open>Reading a header of the encoder.\<close>

lemma s_Kind_hdr:
  assumes s: "sinv s" "kind_ahead s = None" "k \<noteq> KByte"
    and i: "inp s = hdr k z @ r" and fit: "length (hdr k z) + unat z \<le> room s"
  shows "s_Kind s = (Inr (k, z), (adv (length (hdr k z)) s)
    \<lparr>kinderr := None, byteval := 0, kind_ahead := Some k, sz_ahead := z\<rparr>)"
proof -
  have kr: "kind_result k z ((adv (length (hdr k z)) s)\<lparr>kinderr := None, byteval := 0\<rparr>) =
    (Inr (k, z), (adv (length (hdr k z)) s)
      \<lparr>kinderr := None, byteval := 0, kind_ahead := Some k, sz_ahead := z\<rparr>)"
    using fit sinv_adv [OF s(1), of "length (hdr k z)"] by (simp add: kind_result_def)
  show ?thesis
  proof (cases "z < 56")
    case True
    then have h: "hdr k z = [small_tag k + ucast z]" by (simp add: hdr_def puthead_def)
    have ub: "unat (small_tag k + ucast z) = unat (small_tag k) + unat z"
      using True s(3) by (cases k)
        (simp_all add: small_tag_def unat_word_ariths unat_ucast_byte word_less_nat_alt)
    have "ucast (small_tag k + ucast z - small_tag k) = z"
      using True by (simp add: word_unat_eq_iff unat_ucast_u64 unat_ucast_byte word_less_nat_alt)
    moreover have "inp s ! 0 = small_tag k + ucast z" using i h by simp
    moreover have "0 < room s" using fit h by simp
    moreover have "unat z < 56" using True by (simp add: word_less_nat_alt)
    ultimately show ?thesis
      using s_Kind_short [OF s(1,2) _ s(3)] kr ub h by simp
  next
    case False
    then have h: "hdr k z = (large_tag k + word_of_nat (length (putint z))) # putint z"
      by (simp add: hdr_def puthead_def Let_def)
    let ?n = "length (putint z)"
    have ub: "unat (large_tag k + word_of_nat ?n) = unat (large_tag k) + ?n"
      using length_putint_le [of z] s(3) by (cases k)
        (simp_all add: large_tag_def unat_word_ariths unat_of_nat_byte)
    have "inp s ! 1 = hd (putint z)"
      using i h putint_not_Nil [of z] by (simp add: hd_conv_nth nth_append)
    moreover have "hd (putint z) \<noteq> 0"
      using False by (intro hd_putint) (auto simp: word_less_nat_alt)
    ultimately have "inp s ! 1 \<noteq> 0" by simp
    moreover have "inp s ! 0 = large_tag k + word_of_nat ?n" "take ?n (drop 1 (inp s)) = putint z"
      using i h by simp_all
    moreover have "?n < room s" using fit h by simp
    ultimately have "s_Kind s = kind_result k z ((adv (1 + ?n) s)\<lparr>kinderr := None, byteval := 0\<rparr>)"
      using False ub length_putint_le [of z]
      by (intro s_Kind_long s) simp_all
    with kr h show ?thesis by simp
  qed
qed

text \<open>What a successful call of \<open>Kind\<close> has read.\<close>

lemma kind_result_InrD: "kind_result k z s = (Inr (k', z'), s') \<Longrightarrow> k' = k \<and> z' = z \<and> unat z \<le> room s"
  by (auto simp: kind_result_def Let_def split: if_splits)

lemma s_Kind_readKind:
  assumes "kind_ahead s = None" "s_Kind s = (Inr (k, z), s')"
  shows "\<exists>s1. s_readKind (s\<lparr>kinderr := None\<rparr>) = ((k, z, None), s1)"
  using assms by (auto simp: s_Kind_def Let_def split: if_splits prod.splits option.splits)

lemma s_Kind_room:
  assumes "sinv s" "kind_ahead s = None" "s_Kind s = (Inr (k, z), s')"
  shows "0 < room s"
proof -
  obtain s1 where "s_readKind (s\<lparr>kinderr := None\<rparr>) = ((k, z, None), s1)"
    using s_Kind_readKind [OF assms(2,3)] by blast
  then obtain b s2 where "readByte (s\<lparr>kinderr := None\<rparr>) = (Inr b, s2)"
    by (auto simp: s_readKind_def split: prod.splits sum.splits)
  then show ?thesis using readByte_InrD [of "s\<lparr>kinderr := None\<rparr>"] assms(1) by simp
qed

lemma s_Kind_long_InrD:
  assumes s: "sinv s" "kind_ahead s = None" "s_Kind s = (Inr (k', z), s')"
    and k: "k \<noteq> KByte" "unat (large_tag k) < unat (inp s ! 0)" "unat (inp s ! 0) \<le> unat (large_tag k) + 8"
  shows "k' = k \<and> take (length (hdr k z)) (inp s) = hdr k z \<and> length (hdr k z) + unat z \<le> room s"
proof -
  let ?b = "inp s ! 0" and ?s1 = "(adv 1 s)\<lparr>kinderr := None, byteval := 0\<rparr>"
  let ?n = "unat ?b - unat (large_tag k)"
  have un: "unat (?b - large_tag k) = ?n" using k by (simp add: unat_byte_minus)
  have room: "0 < room s" by (rule s_Kind_room [OF s])
  have s1: "sinv ?s1" "room ?s1 = room s - 1" using sinv_adv [OF s(1), of 1] room by simp_all
  obtain s2 where rk: "s_readKind (s\<lparr>kinderr := None\<rparr>) = ((k', z, None), s2)"
    using s_Kind_readKind [OF s(2,3)] by blast
  then obtain s3 where ru: "k' = k" "readUint (?b - large_tag k) ?s1 = (Inr z, s3)" "\<not> z < 56"
    using readByte_ok [of "s\<lparr>kinderr := None\<rparr>"] s(1) room k
    by (cases k) (auto simp: s_readKind_def Let_def large_tag_def word_less_nat_alt
        split: if_splits prod.splits sum.splits)
  have n: "1 \<le> ?n" "?n \<le> 8" using k by linarith+
  then have n: "1 \<le> ?n" "?n \<le> 8" "?n < room s"
    using readUint_InrD [OF s1(1) _ ru(2)] un room s1(2) by simp_all
  let ?bs = "take ?n (drop 1 (inp s))"
  have len: "1 + ?n \<le> length (inp s)" using n room_le [OF s(1)] by linarith
  have i1: "inp ?s1 = drop 1 (inp s)" by (simp add: adv_def)
  have "?n \<le> room ?s1" using n(3) s1(2) by linarith
  with readUint_ok [OF s1(1), of "?b - large_tag k"] ru(2) un n i1
  have z: "z = be_word_acc 0 ?bs" and nz: "?b - large_tag k \<noteq> 1 \<Longrightarrow> drop 1 (inp s) ! 0 \<noteq> 0"
    by (auto split: if_splits)
  have bs: "?bs \<noteq> []" "length ?bs = ?n" "hd ?bs = inp s ! 1"
    using n len by (auto simp: hd_conv_nth)
  have lead: "inp s ! 1 \<noteq> 0"
  proof (cases "?b - large_tag k = 1")
    case True
    then have "?n = 1" using un by simp
    then have "?bs = [inp s ! 1]" using bs(2,3) singleton_hd [of ?bs] by simp
    with z ru(3) show ?thesis by auto
  next
    case False
    with nz len show ?thesis by simp
  qed
  have p: "putint z = ?bs" using putint_be_word [of ?bs] bs lead n(2) z by simp
  have h: "hdr k z = ?b # ?bs"
    unfolding hdr_def using long_head [OF ru(3), of ?b "large_tag k"] k p bs(2)
    by (simp add: large_tag_def split: if_splits)
  have "inp s \<noteq> []" using len by auto
  then have "take (Suc ?n) (inp s) = ?b # ?bs" by (cases "inp s") simp_all
  then have t: "take (length (hdr k z)) (inp s) = hdr k z" using h bs(2) by simp
  have "s_Kind s = kind_result k z ((adv (1 + ?n) s)\<lparr>kinderr := None, byteval := 0\<rparr>)"
    using s_Kind_long [OF s(1,2) room k refl n(3) z lead ru(3)] .
  with s(3) have "unat z \<le> room (adv (1 + ?n) s)" by (auto dest: kind_result_InrD)
  then have "1 + ?n + unat z \<le> room s" using sinv_adv(2) [OF s(1), of "1 + ?n"] n(3) by simp
  with t ru(1) h bs(2) show ?thesis by simp
qed

lemma s_Kind_short_InrD:
  assumes s: "sinv s" "kind_ahead s = None" "s_Kind s = (Inr (k', z), s')"
    and k: "k \<noteq> KByte" "unat (small_tag k) \<le> unat (inp s ! 0)" "unat (inp s ! 0) < unat (small_tag k) + 56"
  shows "k' = k \<and> take (length (hdr k z)) (inp s) = hdr k z \<and> length (hdr k z) + unat z \<le> room s"
proof -
  let ?b = "inp s ! 0"
  have room: "0 < room s" by (rule s_Kind_room [OF s])
  have "kind_result k (ucast (?b - small_tag k)) ((adv 1 s)\<lparr>kinderr := None, byteval := 0\<rparr>) =
    (Inr (k', z), s')"
    using s_Kind_short [OF s(1,2) room k] s(3) by simp
  note R = kind_result_InrD [OF this]
  have D: "k' = k" "z = ucast (?b - small_tag k)" using R by blast+
  have "unat z \<le> room (adv 1 s)" using R unfolding D(2) sinv_upd by blast
  then have D: "k' = k" "z = ucast (?b - small_tag k)" "unat z \<le> room s - 1"
    using sinv_adv(2) [OF s(1), of 1] room D by linarith+
  have "unat z = unat (?b - small_tag k)"
    unfolding D(2) by (rule unat_ucast_u64)
  also have "\<dots> = unat ?b - unat (small_tag k)" using k by (simp only: unat_byte_minus)
  finally have z: "unat z = unat ?b - unat (small_tag k)" .
  have b: "unat z < 56" "unat ?b = unat (small_tag k) + unat z" using z k by linarith+
  have h: "hdr k z = [?b]"
    using short_head [OF b] by (simp add: hdr_def)
  have "inp s \<noteq> []" using room room_le [OF s(1)] by auto
  then have "take 1 (inp s) = [?b]" by (cases "inp s") simp_all
  moreover have "1 + unat z \<le> room s" using D(3) room by linarith
  ultimately show ?thesis using h D(1) by simp
qed

lemma s_Kind_InrD:
  assumes s: "sinv s" "kind_ahead s = None" "s_Kind s = (Inr (k, z), s')"
  shows "if k = KByte
    then z = 0 \<and> 0 < room s \<and> inp s ! 0 < 0x80 \<and>
      s' = (adv 1 s)\<lparr>kinderr := None, byteval := inp s ! 0, kind_ahead := Some KByte, sz_ahead := 0\<rparr>
    else take (length (hdr k z)) (inp s) = hdr k z \<and> length (hdr k z) + unat z \<le> room s"
proof -
  let ?b = "inp s ! 0"
  have room: "0 < room s" by (rule s_Kind_room [OF s])
  have hi: "unat ?b \<le> 255" using unat_byte_less [of ?b] by linarith
  consider "unat ?b < 128" | "128 \<le> unat ?b" "unat ?b < 184" | "184 \<le> unat ?b" "unat ?b < 192"
    | "192 \<le> unat ?b" "unat ?b < 248" | "248 \<le> unat ?b" by linarith
  then show ?thesis
  proof cases
    case 1
    then have "?b < 0x80" by (simp add: word_less_nat_alt)
    with s_Kind_byte [OF s(1,2) room] s(3) room show ?thesis
      by (auto simp: kind_result_def)
  next
    case 2
    with s_Kind_short_InrD [OF s, of KString] show ?thesis by (auto simp: small_tag_def)
  next
    case 3
    with s_Kind_long_InrD [OF s, of KString] show ?thesis by (auto simp: large_tag_def)
  next
    case 4
    with s_Kind_short_InrD [OF s, of KList] show ?thesis by (auto simp: small_tag_def)
  next
    case 5
    with s_Kind_long_InrD [OF s, of KList] hi show ?thesis by (auto simp: large_tag_def)
  qed
qed

section \<open>Reading strings and lists\<close>

text \<open>A second call of \<open>Kind\<close> returns the cached result.\<close>

lemma s_Kind_cached:
  assumes "s_Kind s = (Inr kz, s')"
  shows "s_Kind s' = (Inr kz, s')"
proof (cases "kind_ahead s")
  case None
  obtain k z err s1 where rk: "s_readKind (s\<lparr>kinderr := None\<rparr>) = ((k, z, err), s1)"
    by (metis prod.collapse)
  define err' where "err' =
    (case err of
       Some e \<Rightarrow> Some e
     | None \<Rightarrow>
         (case lstack s1 of
            [] \<Rightarrow> if limited s1 \<and> z > remaining s1 then Some ErrValueTooLarge else None
          | (pos, sz) # _ \<Rightarrow> if z > sz - pos then Some ErrElemTooLarge else None))"
  have "err' = None \<and> kz = (k, z) \<and> s' = s1\<lparr>kind_ahead := Some k, sz_ahead := z, kinderr := err'\<rparr>"
    using assms None rk unfolding s_Kind_def Let_def err'_def [symmetric]
    by (auto simp: Let_def err'_def [symmetric] split: if_splits option.splits)
  then show ?thesis by (simp add: s_Kind_def)
next
  case (Some k)
  with assms show ?thesis by (auto simp: s_Kind_def split: option.splits)
qed

lemma s_Kind_EOL:
  assumes "kind_ahead s = None" "lstack s = (z, z) # st"
  shows "s_Kind s = (Inl EOL, s\<lparr>kinderr := None\<rparr>)"
  using assms by (simp add: s_Kind_def)

lemma Cons_take_1: "xs \<noteq> [] \<Longrightarrow> [xs ! 0] = take 1 xs"
  by (cases xs) auto

lemma s_Bytes_ok:
  assumes s: "sinv s" "kind_ahead s = None" and i: "inp s = enc_string b @ r"
    and fit: "length (enc_string b) \<le> room s"
  shows "\<exists>s'. s_Bytes s = (Inr b, s') \<and> moved (length (enc_string b)) s s' \<and> kind_ahead s' = None"
proof (cases "string_kind b = KByte")
  case True
  then have b: "b = [b ! 0]" "b ! 0 < 0x80" "enc_string b = b"
    by (auto simp: string_kind_def enc_string_def enc_head_def length_Suc_conv split: if_splits)
  then obtain x where x: "b = [x]" by metis
  with b(3) i have i0: "inp s ! 0 = b ! 0" and l1: "length (enc_string b) = 1" by simp_all
  have "s_Kind s = kind_result KByte 0 ((adv 1 s)\<lparr>kinderr := None, byteval := b ! 0\<rparr>)"
    using s_Kind_byte [OF s] i0 b(2) fit l1 by simp
  with b(1) l1 show ?thesis
    by (auto simp: s_Bytes_def kind_result_def moved_def)
next
  case False
  let ?z = "word_of_nat (length b) :: u64"
  have sk: "string_kind b = KString" using False by (auto simp: string_kind_def split: if_splits)
  then have e: "enc_string b = hdr KString ?z @ b" by (simp add: enc_string_def enc_head_hdr)
  have lt: "length b < 2 ^ 64" using fit e room_le [OF s(1)] length_inp_u64 [OF s(1)] by simp
  then have z: "unat ?z = length b" by (simp add: unat_of_nat_u64)
  let ?n = "length (hdr KString ?z)"
  let ?s1 = "(adv ?n s)\<lparr>kinderr := None, byteval := 0, kind_ahead := Some KString, sz_ahead := ?z\<rparr>"
  have k: "s_Kind s = (Inr (KString, ?z), ?s1)"
    using s_Kind_hdr [OF s, of KString ?z "b @ r"] i fit e z by simp
  have s1: "sinv ?s1" "room ?s1 = room s - ?n" "inp ?s1 = b @ r"
    using sinv_adv [OF s(1), of ?n] fit e i by simp_all
  have rf: "readFull ?z ?s1 = (Inr b, adv (length b) ?s1)"
    using readFull_ok [OF s1(1), of ?z] s1 z fit e by simp
  have "\<not> (?z = 1 \<and> b ! 0 < 128)"
  proof
    assume a: "?z = 1 \<and> b ! 0 < 128"
    then have "length b = 1" using z by simp
    with a sk show False by (simp add: string_kind_def)
  qed
  with k rf have "s_Bytes s = (Inr b, adv (length b) ?s1)" by (simp add: s_Bytes_def)
  moreover have "moved ?n s ?s1" by (simp add: moved_def)
  then have "moved (?n + length b) s (adv (length b) ?s1)" by (rule moved_trans [OF _ moved_adv])
  ultimately show ?thesis using e by (simp add: adv_def)
qed

lemma s_Bytes_InrD:
  assumes s: "sinv s" "kind_ahead s = None" "s_Bytes s = (Inr b, s')"
  shows "length (enc_string b) \<le> room s \<and> inp s = enc_string b @ inp s' \<and>
    moved (length (enc_string b)) s s' \<and> kind_ahead s' = None"
proof -
  obtain k z s1 where k: "s_Kind s = (Inr (k, z), s1)"
    using s(3) by (auto simp: s_Bytes_def split: prod.splits sum.splits)
  note D = s_Kind_InrD [OF s(1,2) k]
  have "inp s \<noteq> []" using s_Kind_room [OF s(1,2) k] room_le [OF s(1)] by auto
  then have t1: "inp s = [inp s ! 0] @ drop 1 (inp s)" by (cases "inp s") auto
  show ?thesis
  proof (cases k)
    case KByte
    with s(3) k D have b: "b = [inp s ! 0]" "inp s ! 0 < 0x80" "0 < room s"
      "s' = (adv 1 s)\<lparr>kinderr := None, byteval := inp s ! 0, kind_ahead := None, sz_ahead := 0\<rparr>"
      by (auto simp: s_Bytes_def)
    then have "enc_string b = [inp s ! 0]" by (simp add: enc_string_def string_kind_def enc_head_def)
    with b t1 show ?thesis by (simp add: moved_def)
  next
    case KString
    let ?n = "length (hdr KString z)"
    let ?s1 = "(adv ?n s)\<lparr>kinderr := None, byteval := 0, kind_ahead := Some KString, sz_ahead := z\<rparr>"
    have h: "take ?n (inp s) = hdr KString z" "?n + unat z \<le> room s" using D KString by simp_all
    then have i: "inp s = hdr KString z @ drop ?n (inp s)" by (metis append_take_drop_id)
    have s1: "s1 = ?s1" using s_Kind_hdr [OF s(1,2) _ i h(2)] k KString by simp
    have inv1: "sinv ?s1" "room ?s1 = room s - ?n" "inp ?s1 = drop ?n (inp s)"
      using sinv_adv [OF s(1), of ?n] h by simp_all
    from readFull_ok [OF inv1(1), of z] inv1 h s(3) k KString s1
    have b: "b = take (unat z) (drop ?n (inp s))" "s' = adv (unat z) ?s1" "\<not> (z = 1 \<and> b ! 0 < 128)"
      by (auto simp: s_Bytes_def split: if_splits)
    have lb: "length b = unat z" using b(1) h room_le [OF s(1)] by simp
    then have "string_kind b = KString"
      using b(3) by (auto simp: string_kind_def word_unat_eq_iff)
    then have e: "enc_string b = hdr KString z @ b"
      using lb by (simp add: enc_string_def enc_head_hdr)
    have "inp s = enc_string b @ drop (?n + unat z) (inp s)"
    proof -
      have le: "?n + unat z \<le> length (inp s)" using h(2) room_le [OF s(1)] by linarith
      show ?thesis
        using take_drop_split [OF le, unfolded h(1) b(1) [symmetric]] unfolding e append.assoc .
    qed
    moreover have "moved (?n + unat z) s s'"
      unfolding b(2) by (rule moved_trans [OF _ moved_adv]) (simp add: moved_def)
    moreover have "inp s' = drop (?n + unat z) (inp s)" using calculation(2) by (simp add: moved_def)
    ultimately show ?thesis using e lb h b(2) by (simp add: adv_def)
  next
    case KList
    with s(3) k show ?thesis by (simp add: s_Bytes_def)
  qed
qed

text \<open>
  Opening a list pushes its size; closing it moves the enclosing list past it. In between, the
  stream behaves as if its data ended with the list.
\<close>

lemma s_List_ok:
  assumes s: "sinv s" "kind_ahead s = None" and i: "inp s = hdr KList z @ r"
    and fit: "length (hdr KList z) + unat z \<le> room s"
  shows "\<exists>s'. s_List s = (Inr z, s') \<and> sinv s' \<and> kind_ahead s' = None \<and> inp s' = r \<and>
    lstack s' = (0, z) # bump (length (hdr KList z)) (lstack s)"
proof -
  let ?n = "length (hdr KList z)"
  let ?s1 = "(adv ?n s)\<lparr>kinderr := None, byteval := 0, kind_ahead := Some KList, sz_ahead := z\<rparr>"
  have k: "s_Kind s = (Inr (KList, z), ?s1)" using s_Kind_hdr [OF s _ i fit] by simp
  have inv: "sinv (adv ?n s)" "room (adv ?n s) = room s - ?n" using sinv_adv [OF s(1)] fit by simp_all
  then have z: "unat z \<le> room (adv ?n s)" using fit by linarith
  then have "unat z \<le> length (drop ?n (inp s))" using room_le [OF inv(1)] by simp
  with z inv(1) have "sinv (?s1\<lparr>lstack := (0, z) # lstack ?s1, kind_ahead := None, sz_ahead := 0\<rparr>)"
    by (auto simp: sinv_def room_def split: list.splits)
  with k i show ?thesis by (simp add: s_List_def)
qed

lemma s_List_InrD:
  assumes s: "sinv s" "kind_ahead s = None" "s_List s = (Inr z, s')"
  shows "length (hdr KList z) + unat z \<le> room s \<and>
    inp s = hdr KList z @ drop (length (hdr KList z)) (inp s)"
proof -
  obtain s1 where k: "s_Kind s = (Inr (KList, z), s1)"
    using s(3) by (auto simp: s_List_def split: prod.splits sum.splits if_splits)
  from s_Kind_InrD [OF s(1,2) k] show ?thesis by simp (metis append_take_drop_id)
qed

text \<open>The list is read up to its end when the position reaches its size.\<close>

lemma s_ListEnd_ok:
  assumes s: "sinv s" and st: "lstack s = (z, z) # st"
  shows "\<exists>s'. s_ListEnd s = (Inr (), s') \<and> sinv s' \<and> kind_ahead s' = None \<and> inp s' = inp s \<and>
    lstack s' = bump (unat z) st"
proof -
  have "stack_ok (bump (unat z) st) (length (inp s))"
  proof (cases st)
    case (Cons py st')
    obtain p y where py: "py = (p, y)" by fastforce
    have D: "unat p \<le> unat y" "unat z \<le> unat y - unat p" "unat y - unat p \<le> length (inp s) + unat z"
      "stack_ok st' (length (inp s) + unat z + unat p)"
      "case st' of [] \<Rightarrow> True | (p', y') # _ \<Rightarrow> unat y \<le> unat y' - unat p'"
      using s st Cons py by (simp_all add: sinv_def)
    then have "unat p + unat z < 2 ^ 64" using unat_u64_less [of y] by linarith
    then have u: "unat (p + z) = unat p + unat z" by (simp add: unat_word_ariths)
    have "length (inp s) + (unat p + unat z) = length (inp s) + unat z + unat p" by simp
    then have "stack_ok st' (length (inp s) + (unat p + unat z))" using D(4) by (simp only:)
    with D(1,2,3,5) show ?thesis by (auto simp: Cons py u)
  qed simp
  then have "sinv (s\<lparr>lstack := bump (unat z) st, kind_ahead := None, sz_ahead := 0\<rparr>)"
    using s by (simp add: sinv_def)
  moreover have "(case st of [] \<Rightarrow> [] | (p, y) # st' \<Rightarrow> (p + z, y) # st') = bump (unat z) st"
    by (cases "(unat z, st)" rule: bump.cases) simp_all
  ultimately show ?thesis using st by (simp add: s_ListEnd_def)
qed

text \<open>
  \<open>after n s s'\<close>: from \<open>s\<close>, whole values of together \<open>n\<close> bytes have been consumed, and the next
  value has not been looked at.
\<close>

definition after :: "nat \<Rightarrow> stream \<Rightarrow> stream \<Rightarrow> bool" where
  "after n s s' \<longleftrightarrow> sinv s' \<and> kind_ahead s' = None \<and> inp s' = drop n (inp s) \<and>
     lstack s' = bump n (lstack s)"

lemma moved_after: "moved n s s' \<Longrightarrow> sinv s \<Longrightarrow> n \<le> room s \<Longrightarrow> kind_ahead s' = None \<Longrightarrow> after n s s'"
  using moved_sinv [of n s s'] by (simp add: after_def moved_def)

lemma after_room: "after n s s' \<Longrightarrow> sinv s \<Longrightarrow> n \<le> room s \<Longrightarrow> room s' = room s - n"
  using sinv_adv(2) [of s n] by (auto simp: after_def room_def cong: list.case_cong)

lemma after_trans: "after m s s' \<Longrightarrow> after n s' s'' \<Longrightarrow> after (m + n) s s''"
  by (simp add: after_def bump_bump add.commute)

lemma after_refl: "sinv s \<Longrightarrow> kind_ahead s = None \<Longrightarrow> after 0 s s"
  by (simp add: after_def)

lemma s_Bytes_after:
  assumes "sinv s" "kind_ahead s = None" "inp s = enc_string b @ r" "length (enc_string b) \<le> room s"
  shows "\<exists>s'. s_Bytes s = (Inr b, s') \<and> after (length (enc_string b)) s s'"
  using s_Bytes_ok [OF assms] moved_after [of _ s] assms(1,4) by blast

lemma s_ListEnd_after:
  assumes l: "sinv s" "kind_ahead s = None" "s_List s = (Inr z, s1)" and e: "after (unat z) s1 s2"
  shows "\<exists>s3. s_ListEnd s2 = (Inr (), s3) \<and> after (length (hdr KList z) + unat z) s s3"
proof -
  let ?n = "length (hdr KList z)"
  note D = s_List_InrD [OF l]
  obtain s1' where s1': "s_List s = (Inr z, s1')" "inp s1' = drop ?n (inp s)"
    "lstack s1' = (0, z) # bump ?n (lstack s)"
    using s_List_ok [OF l(1,2), of z "drop ?n (inp s)"] D by blast
  then have s1: "inp s1 = drop ?n (inp s)" "lstack s1 = (0, z) # bump ?n (lstack s)"
    using l(3) by simp_all
  then have s2: "sinv s2" "lstack s2 = (z, z) # bump ?n (lstack s)"
    "inp s2 = drop (?n + unat z) (inp s)"
    using e by (simp_all add: after_def add.commute)
  obtain s3 where "s_ListEnd s2 = (Inr (), s3)" "sinv s3" "kind_ahead s3 = None" "inp s3 = inp s2"
    "lstack s3 = bump (unat z) (bump ?n (lstack s))"
    using s_ListEnd_ok [OF s2(1,2)] by blast
  with s2(3) show ?thesis by (auto simp: after_def bump_bump)
qed

lemma cached_ops:
  assumes "s_Kind s = (Inr kz, s1)"
  shows "s_List s1 = s_List s" "s_Bytes s1 = s_Bytes s" "s_uint n s1 = s_uint n s"
    "s_Raw s1 = s_Raw s" "decodeByteArray m s1 = decodeByteArray m s"
  using s_Kind_cached [OF assms] assms
  by (simp_all add: s_List_def s_Bytes_def s_uint_def s_Raw_def decodeByteArray_def)

lemma decodeListSlice_cached:
  "s_Kind s = (Inr kz, s1) \<Longrightarrow> decodeListSlice fuel t s1 = decodeListSlice fuel t s"
  by (cases fuel) (simp_all add: cached_ops)

end
