(* ===== verification/RLP_Decode.thy ===== *)
theory RLP_Decode
  imports RLP_Stream
begin

text \<open>
  Correctness of the decoders of \<open>rlp/decode.go\<close> against the encoder: decoding into an interface
  accepts exactly the encodings of items, with enough fuel it always ends, and decoding into a type
  gives back every value of that type that was encoded.
\<close>

section \<open>Decoding into an interface\<close>

fun iface_of :: "item \<Rightarrow> gval" where
  "iface_of (Str b) = GInterface (GBytes b)"
| "iface_of (Lst xs) = GInterface (GSlice False (map iface_of xs))"

lemma hdr_list:
  "enc_item (Lst xs) = hdr KList (word_of_nat (length (enc_items xs))) @ enc_items xs"
  unfolding enc_item_Lst enc_list_def by (simp add: enc_head_hdr)

lemma length_hdr_pos: "0 < length (hdr k z)"
  by (simp add: hdr_def puthead_Cons)

text \<open>An \<open>EOL\<close> from a decoder means that the innermost list is used up.\<close>

lemma willRead_not_EOL: "willRead n s = (Inl e, s') \<Longrightarrow> e \<noteq> EOL"
  by (auto simp: willRead_def Let_def split: list.splits if_splits)

lemma readByte_not_EOL: "readByte s = (Inl e, s') \<Longrightarrow> e \<noteq> EOL"
  by (auto simp: readByte_def split: prod.splits sum.splits list.splits dest: willRead_not_EOL)

lemma readFull_not_EOL: "readFull n s = (Inl e, s') \<Longrightarrow> e \<noteq> EOL"
  by (auto simp: readFull_def split: prod.splits sum.splits if_splits dest: willRead_not_EOL)

lemma readUint_not_EOL: "readUint n s = (Inl e, s') \<Longrightarrow> e \<noteq> EOL"
  by (auto simp: readUint_def split: prod.splits sum.splits if_splits
      dest: readByte_not_EOL readFull_not_EOL)

lemma s_readKind_not_EOL: "s_readKind s = ((k, z, Some e), s') \<Longrightarrow> e \<noteq> EOL"
  by (auto simp: s_readKind_def Let_def split: prod.splits sum.splits if_splits
      dest: readByte_not_EOL readUint_not_EOL)

definition at_end :: "stream \<Rightarrow> bool" where
  "at_end s = (case lstack s of [] \<Rightarrow> False | (pos, sz) # _ \<Rightarrow> pos = sz)"

lemma s_Kind_EOL_D:
  assumes "kind_ahead s = None" "s_Kind s = (Inl EOL, s')"
  shows "at_end s \<and> s' = s\<lparr>kinderr := None\<rparr>"
proof (rule ccontr)
  assume a: "\<not> (at_end s \<and> s' = s\<lparr>kinderr := None\<rparr>)"
  obtain k z err s1 where rk: "s_readKind (s\<lparr>kinderr := None\<rparr>) = ((k, z, err), s1)"
    by (metis prod.collapse)
  have "\<not> at_end s" using a assms by (auto simp: s_Kind_def at_end_def)
  with assms rk show False using s_readKind_not_EOL [of "s\<lparr>kinderr := None\<rparr>" k z _ s1]
    by (auto simp: s_Kind_def at_end_def Let_def split: option.splits list.splits if_splits)
qed

lemma s_Bytes_not_EOL: "s_Kind s = (Inr kz, s1) \<Longrightarrow> s_Bytes s = (Inl e, s') \<Longrightarrow> e \<noteq> EOL"
  by (cases kz) (auto simp: s_Bytes_def split: kind.splits prod.splits sum.splits if_splits
      dest: readFull_not_EOL)

lemma s_ListEnd_not_EOL: "s_ListEnd s = (Inl e, s') \<Longrightarrow> e \<noteq> EOL"
  by (auto simp: s_ListEnd_def split: list.splits if_splits)

lemma decodeSliceElems_not_EOL: "decodeSliceElems fuel t s = Some (Inl e, s') \<Longrightarrow> e \<noteq> EOL"
proof (induction fuel arbitrary: s)
  case (Suc fuel)
  show ?case
  proof (cases "decode_val fuel t s")
    case (Some r)
    obtain x s1 where r: "r = (x, s1)" by fastforce
    show ?thesis
    proof (cases x)
      case (Inl a)
      with Suc.prems Some r show ?thesis by (auto simp: result_simps split: if_splits)
    next
      case (Inr b)
      then show ?thesis using Suc Some r
        by (cases "decodeSliceElems fuel t s1") (auto simp: result_simps elim!: on_result.elims)
    qed
  qed (use Suc.prems in simp)
qed simp

lemma on_result_Some:
  "on_result x f g = Some y \<longleftrightarrow>
     (\<exists>e s. x = Some (Inl e, s) \<and> f e s = Some y) \<or> (\<exists>v s. x = Some (Inr v, s) \<and> g v s = Some y)"
  by (cases "(x, f, g)" rule: on_result.cases) auto

lemma on_result_None:
  "on_result x f g = None \<longleftrightarrow>
     x = None \<or> (\<exists>e s. x = Some (Inl e, s) \<and> f e s = None) \<or> (\<exists>v s. x = Some (Inr v, s) \<and> g v s = None)"
  by (cases "(x, f, g)" rule: on_result.cases) auto

lemma iface_EOL_D:
  assumes "sinv s" "kind_ahead s = None" "decode_val fuel TInterface s = Some (Inl EOL, s')"
  shows "at_end s \<and> s' = s\<lparr>kinderr := None\<rparr>"
proof (cases fuel)
  case (Suc f)
  show ?thesis
  proof (cases "\<exists>e s1. s_Kind s = (Inl e, s1)")
    case True
    then obtain e s1 where k: "s_Kind s = (Inl e, s1)" by blast
    with assms(3) Suc have "e = EOL" "s1 = s'" by (auto simp: result_simps)
    with s_Kind_EOL_D [OF assms(2)] k show ?thesis by simp
  next
    case False
    then obtain k z s1 where k: "s_Kind s = (Inr (k, z), s1)"
      by (metis prod.exhaust sum.exhaust)
    show ?thesis
    proof (cases "k = KList")
      case True
      then have "decodeListSlice f TInterface s = Some (Inl EOL, s')"
        using assms(3) k Suc by (auto simp: result_simps on_result_Some decodeListSlice_cached [OF k])
      moreover have "\<exists>z s2. s_List s = (Inr z, s2)" using k True by (auto simp: s_List_def)
      ultimately show ?thesis
        by (cases f) (auto simp: result_simps on_result_Some split: if_splits
            dest: s_ListEnd_not_EOL decodeSliceElems_not_EOL)
    next
      case False
      then have "s_Bytes s = (Inl EOL, s')"
        using assms(3) k Suc by (auto simp: result_simps on_result_Some cached_ops [OF k])
      with s_Bytes_not_EOL [OF k] show ?thesis by blast
    qed
  qed
qed (use assms in simp)

text \<open>The element loop inside an opened list: what a list decoder may rely on.\<close>

lemma s_List_at_end:
  assumes l: "sinv s" "kind_ahead s = None" "s_List s = (Inr z, s1)"
    and e: "after n s1 s2" "n \<le> room s1" "at_end s2"
  shows "unat z = n"
proof -
  have st: "lstack s1 = (0, z) # bump (length (hdr KList z)) (lstack s)"
    using s_List_ok [OF l(1,2), of z] s_List_InrD [OF l] l(3) by auto
  then have "n \<le> unat z" using e(2) by (simp add: room_def)
  then have "n < 2 ^ 64" using unat_u64_less [of z] by linarith
  moreover have "word_of_nat n = z" using e(1,3) st by (simp add: after_def at_end_def)
  ultimately show ?thesis by (auto simp: unat_of_nat_u64)
qed

lemma s_List_opened:
  assumes l: "sinv s" "kind_ahead s = None" "s_List s = (Inr z, s1)"
  shows "sinv s1" "kind_ahead s1 = None" "room s1 = unat z" "inp s = hdr KList z @ inp s1"
    "length (hdr KList z) + unat z \<le> room s" "lstack s1 \<noteq> []"
proof -
  let ?r = "drop (length (hdr KList z)) (inp s)"
  have D: "length (hdr KList z) + unat z \<le> room s" "inp s = hdr KList z @ ?r"
    using s_List_InrD [OF l] by blast+
  obtain s' where s': "s_List s = (Inr z, s')" "sinv s'" "kind_ahead s' = None" "inp s' = ?r"
    "lstack s' = (0, z) # bump (length (hdr KList z)) (lstack s)"
    using s_List_ok [OF l(1,2) D(2,1)] by blast
  have "s' = s1" using s'(1) l(3) by simp
  with s' D show "sinv s1" "kind_ahead s1 = None" "room s1 = unat z" "inp s = hdr KList z @ inp s1"
    "length (hdr KList z) + unat z \<le> room s" "lstack s1 \<noteq> []"
    by (simp_all add: room_def)
qed

definition sound_at :: "nat \<Rightarrow> bool" where
  "sound_at fuel \<longleftrightarrow>
     (\<forall>s v s'. sinv s \<longrightarrow> kind_ahead s = None \<longrightarrow> decode_val fuel TInterface s = Some (Inr v, s') \<longrightarrow>
       (\<exists>x. v = iface_of x \<and> length (enc_item x) \<le> room s \<and> inp s = enc_item x @ inp s' \<and>
          after (length (enc_item x)) s s'))"

definition elems_sound_at :: "nat \<Rightarrow> bool" where
  "elems_sound_at fuel \<longleftrightarrow>
     (\<forall>s vs s'. sinv s \<longrightarrow> kind_ahead s = None \<longrightarrow>
       decodeSliceElems fuel TInterface s = Some (Inr vs, s') \<longrightarrow>
       (\<exists>xs. vs = map iface_of xs \<and> length (enc_items xs) \<le> room s \<and> inp s = enc_items xs @ inp s' \<and>
          after (length (enc_items xs)) s s' \<and> at_end s'))"

lemma elems_sound_step:
  assumes "sound_at fuel" "elems_sound_at fuel"
  shows "elems_sound_at (Suc fuel)"
  unfolding elems_sound_at_def
proof (intro allI impI)
  fix s vs s'
  assume s: "sinv s" "kind_ahead s = None"
    and d: "decodeSliceElems (Suc fuel) TInterface s = Some (Inr vs, s')"
  from d consider (eol) s1 where "decode_val fuel TInterface s = Some (Inl EOL, s1)" "vs = []" "s' = s1"
    | (more) v s1 vs' where "decode_val fuel TInterface s = Some (Inr v, s1)"
        "decodeSliceElems fuel TInterface s1 = Some (Inr vs', s')" "vs = v # vs'"
    by (auto simp: on_result_Some result_simps split: if_splits)
  then show "\<exists>xs. vs = map iface_of xs \<and> length (enc_items xs) \<le> room s \<and>
    inp s = enc_items xs @ inp s' \<and> after (length (enc_items xs)) s s' \<and> at_end s'"
  proof cases
    case eol
    with iface_EOL_D [OF s eol(1)] s have "s' = s\<lparr>kinderr := None\<rparr>" "at_end s" by auto
    with s eol(2) show ?thesis
      by (intro exI [of _ "[]"]) (simp add: after_def at_end_def)
  next
    case more
    obtain x where x: "v = iface_of x" "length (enc_item x) \<le> room s" "inp s = enc_item x @ inp s1"
      "after (length (enc_item x)) s s1"
      using assms(1) s more(1) unfolding sound_at_def by blast
    then have s1: "sinv s1" "kind_ahead s1 = None" "room s1 = room s - length (enc_item x)"
      using after_room [OF x(4) s(1)] by (simp_all add: after_def)
    obtain xs where xs: "vs' = map iface_of xs" "length (enc_items xs) \<le> room s1"
      "inp s1 = enc_items xs @ inp s'" "after (length (enc_items xs)) s1 s'" "at_end s'"
      using assms(2) s1(1,2) more(2) unfolding elems_sound_at_def by blast
    show ?thesis
      using x xs s1(3) more(3) after_trans [OF x(4) xs(4)]
      by (intro exI [of _ "x # xs"]) simp
  qed
qed

lemma sound_step:
  assumes IH: "\<And>g. g < fuel \<Longrightarrow> elems_sound_at g"
  shows "sound_at (Suc fuel)"
  unfolding sound_at_def
proof (intro allI impI)
  fix s v s'
  assume s: "sinv s" "kind_ahead s = None" and d: "decode_val (Suc fuel) TInterface s = Some (Inr v, s')"
  then obtain k z s0 where k: "s_Kind s = (Inr (k, z), s0)"
    by (auto simp: on_result_Some result_simps)
  show "\<exists>x. v = iface_of x \<and> length (enc_item x) \<le> room s \<and> inp s = enc_item x @ inp s' \<and>
    after (length (enc_item x)) s s'"
  proof (cases "k = KList")
    case False
    with d k have b: "\<exists>b. s_Bytes s = (Inr b, s') \<and> v = GInterface (GBytes b)"
      by (auto simp: on_result_Some result_simps cached_ops [OF k])
    then obtain b where b: "s_Bytes s = (Inr b, s')" "v = iface_of (Str b)" by auto
    with s_Bytes_InrD [OF s b(1)] moved_after [of _ s] s(1) show ?thesis
      by (intro exI [of _ "Str b"]) simp
  next
    case True
    with d k obtain vs where ls: "decodeListSlice fuel TInterface s = Some (Inr vs, s')"
      "v = GInterface (GSlice False vs)"
      by (auto simp: on_result_Some result_simps decodeListSlice_cached [OF k])
    then obtain g z' s1 where g: "fuel = Suc g" "s_List s = (Inr z', s1)"
      by (cases fuel) (auto simp: on_result_Some result_simps)
    note O = s_List_opened [OF s g(2)]
    have "\<exists>xs s2. vs = map iface_of xs \<and> length (enc_items xs) \<le> room s1 \<and>
      inp s1 = enc_items xs @ inp s2 \<and> after (length (enc_items xs)) s1 s2 \<and> at_end s2 \<and>
      s_ListEnd s2 = (Inr (), s')"
    proof (cases "z' = 0")
      case True
      then have "vs = []" "s_ListEnd s1 = (Inr (), s')"
        using ls(1) g by (auto simp: on_result_Some result_simps)
      moreover have "at_end s1" using calculation(2) by (auto simp: s_ListEnd_def at_end_def split: list.splits if_splits)
      ultimately show ?thesis using O
        by (intro exI [of _ "[]"] exI [of _ s1]) (simp add: after_refl)
    next
      case False
      then obtain s2 where s2: "decodeSliceElems g TInterface s1 = Some (Inr vs, s2)"
        "s_ListEnd s2 = (Inr (), s')"
        using ls(1) g by (auto simp: on_result_Some result_simps)
      with IH [of g] g(1) O show ?thesis unfolding elems_sound_at_def by blast
    qed
    then obtain xs s2 where xs: "vs = map iface_of xs" "length (enc_items xs) \<le> room s1"
      "inp s1 = enc_items xs @ inp s2" "after (length (enc_items xs)) s1 s2" "at_end s2"
      "s_ListEnd s2 = (Inr (), s')" by blast
    have z': "unat z' = length (enc_items xs)"
      using s_List_at_end [OF s g(2) xs(4,2,5)] .
    then have e: "enc_item (Lst xs) = hdr KList z' @ enc_items xs"
      unfolding hdr_list z' [symmetric] by simp
    from s_ListEnd_after [OF s g(2), of s2] xs(4,6) z' e
    have a: "after (length (enc_item (Lst xs))) s s'" by simp
    then have "inp s' = inp s2" using xs(6) by (auto simp: s_ListEnd_def split: list.splits if_splits)
    with a e xs ls(2) O z' show ?thesis
      by (intro exI [of _ "Lst xs"]) (simp del: enc_item.simps)
  qed
qed

lemma iface_sound_all: "sound_at fuel \<and> elems_sound_at fuel"
proof (induction fuel rule: less_induct)
  case (less fuel)
  show ?case
  proof (cases fuel)
    case 0
    then show ?thesis by (simp add: sound_at_def elems_sound_at_def)
  next
    case (Suc f)
    then show ?thesis using less elems_sound_step [of f] sound_step [of f] by auto
  qed
qed

text \<open>Fuel for all inputs: four units for a byte of input are enough.\<close>

lemma iface_total:
  "(\<forall>s. sinv s \<longrightarrow> kind_ahead s = None \<longrightarrow> 4 * length (inp s) + 1 \<le> fuel \<longrightarrow>
      decode_val fuel TInterface s \<noteq> None) \<and>
   (\<forall>s. sinv s \<longrightarrow> kind_ahead s = None \<longrightarrow> 4 * length (inp s) + 2 \<le> fuel \<longrightarrow>
      decodeSliceElems fuel TInterface s \<noteq> None)"
proof (induction fuel rule: less_induct)
  case (less fuel)
  show ?case
  proof (intro conjI allI impI)
    fix s
    assume s: "sinv s" "kind_ahead s = None" and f: "4 * length (inp s) + 1 \<le> fuel"
    then obtain g where g: "fuel = Suc g" by (cases fuel) auto
    show "decode_val fuel TInterface s \<noteq> None"
    proof (cases "s_Kind s")
      case (Pair kr s0)
      show ?thesis
      proof (cases "\<exists>z. kr = Inr (KList, z)")
        case False
        then show ?thesis using Pair g
          by (cases kr) (auto simp: result_simps on_result_None simp del: not_None_eq)
      next
        case True
        then obtain z where k: "s_Kind s = (Inr (KList, z), s0)" using Pair by auto
        then have "0 < room s" using s_Kind_room [OF s] by blast
        then have "0 < length (inp s)" using room_le [OF s(1)] by linarith
        then obtain h where h: "g = Suc h" using f g by (cases g) auto
        have "decodeListSlice g TInterface s \<noteq> None"
        proof
          assume n: "decodeListSlice g TInterface s = None"
          then obtain z' s1 where l: "s_List s = (Inr z', s1)" "decodeSliceElems h TInterface s1 = None"
            using h by (auto simp: on_result_None result_simps split: if_splits)
              (metis not_Some_eq surj_pair)
          note O = s_List_opened [OF s l(1)]
          have "length (inp s1) < length (inp s)" using O(4) length_hdr_pos [of KList z'] by simp
          then have "4 * length (inp s1) + 2 \<le> h" using f g h by linarith
          then have "decodeSliceElems h TInterface s1 \<noteq> None"
            using less [of h] O(1,2) g h by simp
          with l show False by simp
        qed
        then show ?thesis
          using k g by (simp add: result_simps on_result_None decodeListSlice_cached [OF k])
      qed
    qed
  next
    fix s
    assume s: "sinv s" "kind_ahead s = None" and f: "4 * length (inp s) + 2 \<le> fuel"
    then obtain g where g: "fuel = Suc g" by (cases fuel) auto
    have "decode_val g TInterface s \<noteq> None" using less [of g] s f g by auto
    moreover have "decodeSliceElems g TInterface s1 \<noteq> None"
      if d: "decode_val g TInterface s = Some (Inr v, s1)" for v s1
    proof -
      obtain x where x: "inp s = enc_item x @ inp s1" "after (length (enc_item x)) s s1"
        using iface_sound_all [of g] s d unfolding sound_at_def by blast
      then have "length (inp s1) < length (inp s)" using enc_item_not_Nil [of x] by simp
      with less [of g] x(2) f g show ?thesis by (auto simp: after_def)
    qed
    ultimately show "decodeSliceElems fuel TInterface s \<noteq> None"
      using g by (auto simp: on_result_None result_simps simp del: not_None_eq split: if_splits)
  qed
qed

text \<open>Fuel for the encoding of an item.\<close>

definition complete_at :: "nat \<Rightarrow> item \<Rightarrow> bool" where
  "complete_at fuel x \<longleftrightarrow>
     (\<forall>s r. sinv s \<longrightarrow> kind_ahead s = None \<longrightarrow> inp s = enc_item x @ r \<longrightarrow> length (enc_item x) \<le> room s \<longrightarrow>
       (\<exists>s'. decode_val fuel TInterface s = Some (Inr (iface_of x), s') \<and> after (length (enc_item x)) s s'))"

lemma elems_complete:
  assumes "\<And>x g. x \<in> set xs \<Longrightarrow> 4 * length (enc_item x) \<le> g \<Longrightarrow> complete_at g x"
    and "sinv s" "kind_ahead s = None" "inp s = enc_items xs @ r" "lstack s \<noteq> []"
    and "room s = length (enc_items xs)" "4 * length (enc_items xs) + 2 \<le> fuel"
  shows "\<exists>s'. decodeSliceElems fuel TInterface s = Some (Inr (map iface_of xs), s') \<and>
    after (length (enc_items xs)) s s'"
  using assms
proof (induction xs arbitrary: s fuel)
  case Nil
  then have "fuel = Suc (Suc (fuel - 2))" by simp
  then obtain g where g: "fuel = Suc (Suc g)" by blast
  obtain p z st where st: "lstack s = (p, z) # st" using Nil by (cases "lstack s") auto
  then have "p = z" using Nil by (auto simp: sinv_def room_def word_unat_eq_iff)
  with st Nil(2,3) g show ?case
    by (simp add: result_simps s_Kind_EOL after_def)
next
  case (Cons x xs)
  obtain g where g: "fuel = Suc g" using Cons.prems(7) by (cases fuel) auto
  have pos: "0 < length (enc_item x)" using enc_item_not_Nil by simp
  have "complete_at g x" using Cons.prems(1) [of x g] Cons.prems(7) g by simp
  then obtain s1 where s1: "decode_val g TInterface s = Some (Inr (iface_of x), s1)"
    "after (length (enc_item x)) s s1"
    using Cons.prems(2,3,4,6) unfolding complete_at_def by force
  have g2: "4 * length (enc_items xs) + 2 \<le> g" using Cons.prems(7) g pos
    by (simp only: enc_items_simps length_append) arith
  have r1: "room s1 = length (enc_items xs)"
    using after_room [OF s1(2) Cons.prems(2)] Cons.prems(6) by simp
  have "lstack s1 \<noteq> []" using s1(2) Cons.prems(5) by (cases "lstack s") (auto simp: after_def)
  then obtain s2 where s2: "decodeSliceElems g TInterface s1 = Some (Inr (map iface_of xs), s2)"
    "after (length (enc_items xs)) s1 s2"
    using Cons.IH [OF Cons.prems(1), of s1 g] Cons.prems(4) s1(2) r1 g2 by (auto simp: after_def)
  show ?case using s1(1) s2(1) after_trans [OF s1(2) s2(2)] g
    by (simp add: result_simps)
qed

lemma iface_complete: "4 * length (enc_item x) \<le> fuel \<Longrightarrow> complete_at fuel x"
proof (induction x arbitrary: fuel)
  case (Str b)
  have "0 < length (enc_item (Str b))" using enc_item_not_Nil [of "Str b"] by blast
  then obtain g where g: "fuel = Suc g" using Str by (cases fuel) auto
  show ?case unfolding complete_at_def
  proof (intro allI impI)
    fix s r
    assume s: "sinv s" "kind_ahead s = None" "inp s = enc_item (Str b) @ r"
      "length (enc_item (Str b)) \<le> room s"
    then obtain s' where b: "s_Bytes s = (Inr b, s')" "after (length (enc_string b)) s s'"
      using s_Bytes_after [of s b r] by auto
    then obtain k z s0 where k: "s_Kind s = (Inr (k, z), s0)" "k \<noteq> KList"
      by (auto simp: s_Bytes_def split: prod.splits sum.splits kind.splits)
    show "\<exists>s'. decode_val fuel TInterface s = Some (Inr (iface_of (Str b)), s') \<and>
      after (length (enc_item (Str b))) s s'"
      using b k g by (auto simp: result_simps cached_ops [OF k(1)])
  qed
next
  case (Lst xs)
  let ?z = "word_of_nat (length (enc_items xs)) :: u64"
  show ?case unfolding complete_at_def
  proof (intro allI impI)
    fix s r
    assume s: "sinv s" "kind_ahead s = None" and i: "inp s = enc_item (Lst xs) @ r"
      and fit: "length (enc_item (Lst xs)) \<le> room s"
    have "length (enc_items xs) < 2 ^ 64"
      using fit room_le [OF s(1)] length_inp_u64 [OF s(1)] unfolding hdr_list by simp
    then have z: "unat ?z = length (enc_items xs)" by (simp add: unat_of_nat_u64)
    obtain s1 where l: "s_List s = (Inr ?z, s1)"
      using s_List_ok [OF s, of ?z "enc_items xs @ r"] i fit z unfolding hdr_list by auto
    note O = s_List_opened [OF s l]
    have i1: "inp s1 = enc_items xs @ r" using O(4) i unfolding hdr_list by simp
    have "length (enc_item (Lst xs)) = length (hdr KList ?z) + length (enc_items xs)"
      unfolding hdr_list by simp
    then have "4 * length (enc_items xs) + 4 \<le> fuel"
      using Lst.prems length_hdr_pos [of KList ?z] by linarith
    then have h: "fuel = Suc (Suc (fuel - 2))" "4 * length (enc_items xs) + 2 \<le> fuel - 2"
      by linarith+
    define h where "h = fuel - 2"
    note h = h [folded h_def]
    obtain k z' s0 where k: "s_Kind s = (Inr (KList, z'), s0)"
      using l by (auto simp: s_List_def split: prod.splits sum.splits if_splits)
    obtain s2 where e: "decodeSliceElems h TInterface s1 = Some (Inr (map iface_of xs), s2)"
      "after (length (enc_items xs)) s1 s2"
      using elems_complete [OF Lst.IH, of xs s1 r h] O i1 z h by auto
    then obtain s3 where s3: "s_ListEnd s2 = (Inr (), s3)"
      "after (length (enc_item (Lst xs))) s s3"
      using s_ListEnd_after [OF s l, of s2] z unfolding hdr_list by auto
    show "\<exists>s'. decode_val fuel TInterface s = Some (Inr (iface_of (Lst xs)), s') \<and>
      after (length (enc_item (Lst xs))) s s'"
    proof (cases "?z = 0")
      case True
      then have "enc_items xs = []" using z by simp
      then have "xs = []" using enc_item_not_Nil by (cases xs) auto
      moreover have "after (unat ?z) s1 s1" using True O by (simp add: after_refl)
      then obtain s3 where "s_ListEnd s1 = (Inr (), s3)" "after (length (enc_item (Lst xs))) s s3"
        using s_ListEnd_after [OF s l] z unfolding hdr_list by auto
      ultimately show ?thesis using k l h(1) True
        by (simp add: result_simps cached_ops [OF k] del: enc_item.simps)
    next
      case False
      then show ?thesis using k l h(1) e(1) s3
        by (simp add: result_simps cached_ops [OF k] del: enc_item.simps)
    qed
  qed
qed

lemma sinv_NewStream:
  assumes "length b < 2 ^ 64"
  shows "sinv (NewStream b (word_of_nat (length b)))"
    "kind_ahead (NewStream b (word_of_nat (length b))) = None"
    "inp (NewStream b (word_of_nat (length b))) = b"
    "room (NewStream b (word_of_nat (length b))) = length b"
  using assms by (simp_all add: NewStream_def sinv_def room_def unat_of_nat_u64)

lemma DecodeBytes_iface_total:
  assumes "length b < 2 ^ 64" "4 * length b + 1 \<le> fuel"
  shows "DecodeBytes fuel TInterface b \<noteq> None"
proof -
  have "decode_val fuel TInterface (NewStream b (word_of_nat (length b))) \<noteq> None"
    using iface_total [of fuel] sinv_NewStream [OF assms(1)] assms(2) by metis
  then show ?thesis by (simp add: DecodeBytes_def on_result_None)
qed

lemma DecodeBytes_iface_iff:
  assumes len: "length b < 2 ^ 64" and fuel: "4 * length b + 1 \<le> fuel"
  shows "DecodeBytes fuel TInterface b = Some (Inr v) \<longleftrightarrow> (\<exists>x. v = iface_of x \<and> b = enc_item x)"
proof
  let ?s = "NewStream b (word_of_nat (length b))"
  note N = sinv_NewStream [OF len]
  assume "DecodeBytes fuel TInterface b = Some (Inr v)"
  then obtain s' where d: "decode_val fuel TInterface ?s = Some (Inr v, s')" "inp s' = []"
    by (auto simp: DecodeBytes_def on_result_Some split: if_splits)
  then obtain x where "v = iface_of x" "inp ?s = enc_item x @ inp s'"
    using iface_sound_all [of fuel] N(1,2) unfolding sound_at_def by blast
  then show "\<exists>x. v = iface_of x \<and> b = enc_item x" using N(3) d(2) by auto
next
  let ?s = "NewStream b (word_of_nat (length b))"
  note N = sinv_NewStream [OF len]
  assume "\<exists>x. v = iface_of x \<and> b = enc_item x"
  then obtain x where x: "v = iface_of x" "b = enc_item x" by blast
  have "inp ?s = enc_item x @ []" "length (enc_item x) \<le> room ?s" using N(3,4) x(2) by simp_all
  moreover have "complete_at fuel x" using iface_complete [of x fuel] fuel x(2) by simp
  ultimately obtain s' where "decode_val fuel TInterface ?s = Some (Inr v, s')" "after (length b) ?s s'"
    using N(1,2) x unfolding complete_at_def by blast
  then show "DecodeBytes fuel TInterface b = Some (Inr v)"
    using N by (simp add: DecodeBytes_def after_def)
qed

section \<open>Properties\<close>

text \<open>
  C11: \<open>DecodeBytes\<close> into an interface always returns, and it accepts a byte slice exactly when the
  slice is the encoding of an item, which is then the result: the decoder is total, complete and
  admits only canonical encodings.
\<close>

theorem DecodeBytes_interface_spec:
  assumes "length b < 2 ^ 64" "4 * length b + 1 \<le> fuel"
  shows "DecodeBytes fuel TInterface b \<noteq> None \<and>
    (DecodeBytes fuel TInterface b = Some (Inr v) \<longleftrightarrow> (\<exists>x. v = iface_of x \<and> b = enc_item x))"
  using DecodeBytes_iface_total [OF assms] DecodeBytes_iface_iff [OF assms] by blast

theorem DecodeBytes_interface_spec_witness:
  "DecodeBytes 30 TInterface [0xC3, 0x05, 0x81, 0x80] =
     Some (Inr (GInterface (GSlice False [GInterface (GBytes [5]), GInterface (GBytes [0x80])])))"
proof -
  let ?b = "[0xC3, 0x05, 0x81, 0x80] :: bytes" and ?x = "Lst [Str [5], Str [0x80]]"
  have e: "?b = enc_item ?x"
    by (simp add: enc_string_def enc_list_def enc_head_def string_kind_def puthead_def)
  have l: "length ?b < 2 ^ 64" "4 * length ?b + 1 \<le> 30" by simp_all
  have "DecodeBytes 30 TInterface ?b = Some (Inr (iface_of ?x))"
    using DecodeBytes_interface_spec [OF l, of "iface_of ?x"] e by blast
  then show ?thesis by simp
qed

text \<open>
  C23: What \<open>EncodeToBytes\<close> makes of a value that stands for one item, \<open>DecodeBytes\<close> reads back as
  that item.
\<close>

theorem Encode_Decode_roundtrip:
  assumes "items_of v = Some [x]" "length (enc_item x) < 2 ^ 64" "4 * length (enc_item x) + 1 \<le> fuel"
  shows "\<exists>b. EncodeToBytes v eb = Inr b \<and> DecodeBytes fuel TInterface b = Some (Inr (iface_of x))"
proof -
  have "enc_gval v = Inr (enc_item x)" using enc_gval_items(1) [OF assms(1)] by simp
  with assms(2) have "EncodeToBytes v eb = Inr (enc_item x)"
    using EncodeToBytes_enc_gval [of v eb] by simp
  with DecodeBytes_iface_iff [OF assms(2,3)] show ?thesis by blast
qed

theorem Encode_Decode_roundtrip_witness:
  "\<exists>b. EncodeToBytes (GStruct [GUint 7, GString []]) \<lparr>str = [], lheads = [], lhsize = 0\<rparr> = Inr b \<and>
     DecodeBytes 13 TInterface b =
       Some (Inr (GInterface (GSlice False [GInterface (GBytes [7]), GInterface (GBytes [])])))"
  using Encode_Decode_roundtrip [of "GStruct [GUint 7, GString []]" "Lst [Str [7], Str []]" 13
      "\<lparr>str = [], lheads = [], lhsize = 0\<rparr>"]
  by (simp add: enc_string_def enc_list_def enc_head_def string_kind_def puthead_def putint_small)

end
