(* ===== verification/RLP_Typed.thy ===== *)
theory RLP_Typed
  imports RLP_Decode
begin

text \<open>
  Decoding into Go types: the relation \<open>has_type\<close> between the types and the values that they hold, and
  the round trip through \<open>EncodeToBytes\<close> and \<open>DecodeBytes\<close> for all of them. Two kinds of values are
  left out, since the source does not give them back: raw values that are long strings, where
  \<open>Stream.Raw\<close> writes a wrong header, and byte arrays that hold the single byte zero, after which
  \<open>decodeByteArray\<close> leaves the byte unread.
\<close>

section \<open>Integers\<close>

lemma s_Kind_single:
  assumes "sinv s" "kind_ahead s = None" "inp s = b # r" "b < 0x80" "0 < room s"
  shows "s_Kind s = (Inr (KByte, 0),
    (adv 1 s)\<lparr>kinderr := None, byteval := b, kind_ahead := Some KByte, sz_ahead := 0\<rparr>)"
  using s_Kind_byte [OF assms(1,2,5)] assms(3,4) by (simp add: kind_result_def)

lemma length_putint_bits:
  assumes "unat i < 2 ^ bits" "8 dvd bits" "128 \<le> unat i"
  shows "length (putint i) \<le> bits div 8"
proof -
  obtain k where k: "bits = 8 * k" using assms(2) by blast
  have "i \<noteq> 0" using assms(3) by auto
  then have "hd (putint i) \<noteq> 0" by (rule hd_putint)
  then have "256 ^ (length (putint i) - 1) \<le> be_nat (putint i)"
    by (intro be_nat_lower) simp_all
  also have "\<dots> = unat i" by (rule be_nat_putint)
  also have "\<dots> < 256 ^ k" using assms(1) by (simp add: k power_mult)
  finally have "length (putint i) - 1 < k" by (simp add: power_strict_increasing_iff)
  with k show ?thesis by simp
qed

lemma s_uint_ok:
  assumes s: "sinv s" "kind_ahead s = None"
    and i: "inp s = enc_string (if i = 0 then [] else putint i) @ r"
    and fit: "length (enc_string (if i = 0 then [] else putint i)) \<le> room s"
    and bits: "unat i < 2 ^ bits" "8 dvd bits" "bits \<le> 64"
  shows "\<exists>s'. s_uint bits s = (Inr i, s') \<and>
    after (length (enc_string (if i = 0 then [] else putint i))) s s'"
proof -
  consider "i = 0" | "i \<noteq> 0" "i < 128" | "i \<noteq> 0" "\<not> i < 128" by blast
  then show ?thesis
  proof cases
    case 1
    then have h: "inp s = hdr KString 0 @ r" "length (hdr KString 0) = 1"
      using i by (simp_all add: hdr_def puthead_def small_tag_def)
    let ?s1 = "(adv 1 s)\<lparr>kinderr := None, byteval := 0, kind_ahead := Some KString, sz_ahead := 0\<rparr>"
    have "s_Kind s = (Inr (KString, 0), ?s1)"
      using s_Kind_hdr [OF s _ h(1)] h(2) fit 1 by simp
    then have "s_uint bits s = (Inr i, ?s1\<lparr>kind_ahead := None\<rparr>)"
      using 1 by (simp add: s_uint_def readUint_def)
    moreover have "after 1 s (?s1\<lparr>kind_ahead := None\<rparr>)"
      using sinv_adv [OF s(1), of 1] fit 1 by (simp add: after_def)
    ultimately show ?thesis using 1 by auto
  next
    case 2
    let ?b = "ucast i :: byte"
    have "i < 256" using 2(2) by (simp add: word_less_nat_alt)
    then have p: "putint i = [?b]" by (rule putint_small)
    have ub: "unat ?b = unat i" using 2(2) by (simp add: unat_ucast_byte word_less_nat_alt)
    then have b: "?b < 0x80" "?b \<noteq> 0" using 2 by (auto simp: word_less_nat_alt word_unat_eq_iff)
    then have e: "enc_string (putint i) = [?b]"
      by (simp add: p enc_string_def string_kind_def enc_head_def)
    let ?s1 = "(adv 1 s)\<lparr>kinderr := None, byteval := ?b, kind_ahead := Some KByte, sz_ahead := 0\<rparr>"
    have "s_Kind s = (Inr (KByte, 0), ?s1)"
      using s_Kind_single [OF s, of ?b r] i e 2(1) b fit by simp
    moreover have "ucast ?b = i" using ub by (simp add: word_unat_eq_iff unat_ucast_u64)
    ultimately have "s_uint bits s = (Inr i, ?s1\<lparr>kind_ahead := None\<rparr>)"
      using b by (simp add: s_uint_def)
    moreover have "after 1 s (?s1\<lparr>kind_ahead := None\<rparr>)"
      using sinv_adv [OF s(1), of 1] fit 2 e by (simp add: after_def)
    ultimately show ?thesis using 2 e by auto
  next
    case 3
    let ?p = "putint i" and ?z = "word_of_nat (length (putint i)) :: u64"
    have ge: "128 \<le> unat i" using 3(2) by (simp add: word_less_nat_alt)
    have l8: "length ?p \<le> 8" "1 \<le> length ?p"
      using length_putint_le [of i] length_putint_pos [of i] by (simp_all only: Suc_le_eq One_nat_def)
    then have z: "unat ?z = length ?p" by (simp add: unat_of_nat_u64)
    have "string_kind ?p = KString"
    proof (cases "i < 256")
      case True
      then have "unat (ucast i :: byte) = unat i" by (simp add: unat_ucast_byte word_less_nat_alt)
      with True ge show ?thesis by (simp add: string_kind_def putint_small word_less_nat_alt)
    next
      case False
      then show ?thesis by (simp add: string_kind_def putint_def push_bit_eq_mult)
    qed
    then have e: "enc_string ?p = hdr KString ?z @ ?p" by (simp add: enc_string_def enc_head_hdr)
    let ?n = "length (hdr KString ?z)"
    let ?s1 = "(adv ?n s)\<lparr>kinderr := None, byteval := 0, kind_ahead := Some KString, sz_ahead := ?z\<rparr>"
    have k: "s_Kind s = (Inr (KString, ?z), ?s1)"
      using s_Kind_hdr [OF s, of KString ?z "?p @ r"] i fit e z 3 by simp
    have s1: "sinv ?s1" "room ?s1 = room s - ?n" "inp ?s1 = ?p @ r"
      using sinv_adv [OF s(1), of ?n] fit e i 3 by simp_all
    have uz: "unat (ucast ?z :: byte) = length ?p" using z l8 by (simp add: unat_ucast_byte)
    have "hd ?p \<noteq> 0" using 3(1) by (rule hd_putint)
    then have "inp ?s1 ! 0 \<noteq> 0" using s1(3) by (simp add: nth_append hd_conv_nth)
    then have ru: "readUint (ucast ?z) ?s1 = (Inr i, adv (length ?p) ?s1)"
      using readUint_ok [OF s1(1), of "ucast ?z"] uz l8 s1 fit e 3 by simp
    have "length ?p \<le> bits div 8" by (rule length_putint_bits [OF bits(1,2) ge])
    then have "\<not> ?z > word_of_nat (bits div 8)"
      using z bits(3) by (simp add: word_less_nat_alt unat_of_nat_u64)
    then have "s_uint bits s = (Inr i, adv (length ?p) ?s1)"
      using k ru 3(2) by (simp add: s_uint_def)
    moreover have "moved (?n + length ?p) s (adv (length ?p) ?s1)"
      by (rule moved_trans [OF _ moved_adv]) (simp add: moved_def)
    then have "after (?n + length ?p) s (adv (length ?p) ?s1)"
      using fit e 3 by (intro moved_after s) simp_all
    ultimately show ?thesis using 3 e by auto
  qed
qed

section \<open>Values of a type\<close>

fun elem_type :: "gtype \<Rightarrow> bool" where
  "elem_type (TTail t) \<longleftrightarrow> False"
| "elem_type (TPtr t) \<longleftrightarrow> elem_type t"
| "elem_type t \<longleftrightarrow> True"

definition long_string :: "item \<Rightarrow> bool" where
  "long_string x = (case x of Str b \<Rightarrow> 56 \<le> length b | Lst _ \<Rightarrow> False)"

text \<open>
  A tail field is the last of its struct and holds all further elements. A pointer field tagged
  \<open>"nil"\<close> holds nil where the nil pointer is encoded as an empty string or list, and otherwise a
  value with another encoding.
\<close>

inductive has_type :: "gtype \<Rightarrow> gval \<Rightarrow> bool" and has_types :: "gtype list \<Rightarrow> gval list \<Rightarrow> bool" where
  "\<not> long_string x \<Longrightarrow> has_type TRawValue (GRawValue (enc_item x))"
| "0 \<le> i \<Longrightarrow> has_type TBigInt (GBigInt i)"
| "unat i < 2 ^ bits \<Longrightarrow> 8 dvd bits \<Longrightarrow> bits \<le> 64 \<Longrightarrow> has_type (TUint bits) (GUint i)"
| "has_type TBool (GBool b)"
| "has_type TString (GString b)"
| "has_type TByteSlice (GBytes b)"
| "length b = n \<Longrightarrow> b \<noteq> [0] \<Longrightarrow> has_type (TByteArray n) (GByteArray b)"
| "elem_type t \<Longrightarrow> (\<And>v. v \<in> set vs \<Longrightarrow> has_type t v) \<Longrightarrow> has_type (TSlice t) (GSlice False vs)"
| "elem_type t \<Longrightarrow> (\<And>v. v \<in> set vs \<Longrightarrow> has_type t v) \<Longrightarrow> length vs = n \<Longrightarrow>
     has_type (TArray n t) (GSlice False vs)"
| "has_types ts vs \<Longrightarrow> has_type (TStruct ts) (GStruct vs)"
| "elem_type t \<Longrightarrow> has_type t v \<Longrightarrow> has_type (TPtr t) (GPtr v)"
| "elem_type t \<Longrightarrow> has_type t v \<Longrightarrow> enc_gval v \<noteq> Inr [0x80] \<Longrightarrow> enc_gval v \<noteq> Inr [0xC0] \<Longrightarrow>
     has_type (TNilPtr t) (GPtr v)"
| "enc_gval (nil_ptr t) \<in> {Inr [0x80], Inr [0xC0]} \<Longrightarrow> has_type (TNilPtr t) (nil_ptr t)"
| "has_type TInterface (iface_of x)"
| "has_types [] []"
| "elem_type t \<Longrightarrow> has_type t v \<Longrightarrow> has_types ts vs \<Longrightarrow> has_types (t # ts) (v # vs)"
| "elem_type t \<Longrightarrow> (\<And>v. v \<in> set vs \<Longrightarrow> has_type t v) \<Longrightarrow> has_types [TTail t] [GSlice True vs]"

text \<open>\<open>decodes t v e\<close>: with enough fuel, the decoder of \<open>t\<close> reads \<open>v\<close> from the bytes \<open>e\<close>.\<close>

definition decodes_in :: "nat \<Rightarrow> gtype \<Rightarrow> gval \<Rightarrow> bytes \<Rightarrow> bool" where
  "decodes_in fuel t v e \<longleftrightarrow>
     (\<forall>s r. sinv s \<longrightarrow> kind_ahead s = None \<longrightarrow> inp s = e @ r \<longrightarrow> length e \<le> room s \<longrightarrow>
       (\<exists>s'. decode_val fuel t s = Some (Inr v, s') \<and> after (length e) s s'))"

definition decodes :: "gtype \<Rightarrow> gval \<Rightarrow> bytes \<Rightarrow> bool" where
  "decodes t v e \<longleftrightarrow> (\<exists>n. \<forall>fuel\<ge>n. decodes_in fuel t v e)"

lemma decodes_leaf:
  assumes "\<And>fuel s. decode_val (Suc fuel) t s = Some (f s)"
    and "\<And>s r. sinv s \<Longrightarrow> kind_ahead s = None \<Longrightarrow> inp s = e @ r \<Longrightarrow> length e \<le> room s \<Longrightarrow>
      \<exists>s'. f s = (Inr v, s') \<and> after (length e) s s'"
  shows "decodes t v e"
proof -
  have "decodes_in fuel t v e" if fuel: "1 \<le> fuel" for fuel
    using fuel assms by (cases fuel) (auto simp: decodes_in_def)
  then show ?thesis unfolding decodes_def by blast
qed

definition ends_in :: "nat \<Rightarrow> gtype \<Rightarrow> bool" where
  "ends_in fuel t \<longleftrightarrow>
     (\<forall>s. sinv s \<longrightarrow> kind_ahead s = None \<longrightarrow> at_end s \<longrightarrow>
       (\<exists>s'. decode_val fuel t s = Some (Inl EOL, s') \<and> after 0 s s'))"

lemma wrap_EOL [simp]: "wrapStreamError EOL = EOL"
  by (simp add: wrapStreamError_def)

lemma ends_leaf:
  assumes "\<And>fuel s s0. s_Kind s = (Inl EOL, s0) \<Longrightarrow> kind_ahead s0 = None \<Longrightarrow>
    decode_val (Suc (Suc fuel)) t s = Some (Inl EOL, s0)"
  shows "\<exists>n. \<forall>fuel\<ge>n. ends_in fuel t"
proof (intro exI allI impI)
  fix fuel :: nat
  assume "2 \<le> fuel"
  then have f: "fuel = Suc (Suc (fuel - 2))" by simp
  show "ends_in fuel t"
    unfolding ends_in_def
  proof (intro allI impI)
    fix s
    assume s: "sinv s" "kind_ahead s = None" "at_end s"
    then have k: "s_Kind s = (Inl EOL, s\<lparr>kinderr := None\<rparr>)"
      by (auto simp: s_Kind_def at_end_def)
    have "decode_val fuel t s = Some (Inl EOL, s\<lparr>kinderr := None\<rparr>)"
      using assms [OF k, of "fuel - 2"] s(2) f by simp
    moreover have "after 0 s (s\<lparr>kinderr := None\<rparr>)" using s by (simp add: after_def)
    ultimately show "\<exists>s'. decode_val fuel t s = Some (Inl EOL, s') \<and> after 0 s s'" by blast
  qed
qed

lemma elem_type_ends: "elem_type t \<Longrightarrow> \<exists>n. \<forall>fuel\<ge>n. ends_in fuel t"
proof (induction t rule: elem_type.induct)
  case (2 t)
  then obtain n where n: "\<forall>fuel\<ge>n. ends_in fuel t" by auto
  have "ends_in fuel (TPtr t)" if fuel: "Suc n \<le> fuel" for fuel
  proof -
    obtain f where f: "fuel = Suc f" "n \<le> f" using fuel by (cases fuel) auto
    with n have "ends_in f t" by blast
    with f show ?thesis unfolding ends_in_def by (fastforce simp: result_simps)
  qed
  then show ?case by blast
qed (simp, (rule ends_leaf; simp add: result_simps decodeRawValue_def decodeBigInt_def decodeUint_def
    decodeBool_def decodeString_def decodeByteSlice_def decodeByteArray_def s_Raw_def s_Bytes_def
    s_uint_def s_Bool_def s_List_def)+)

section \<open>Looking at an item\<close>

definition item_size :: "item \<Rightarrow> u64" where
  "item_size x = (if item_kind x = KByte then 0 else word_of_nat (length (item_content x)))"

lemma item_byte:
  "item_kind x = KByte \<Longrightarrow> \<exists>b. x = Str [b] \<and> b < 0x80 \<and> enc_item x = [b] \<and> item_content x = [b]"
  by (cases x) (auto simp: item_kind_def item_content_def string_kind_def enc_string_def enc_head_def
      length_Suc_conv split: if_splits)

lemma enc_item_hdr:
  "item_kind x \<noteq> KByte \<Longrightarrow> enc_item x = hdr (item_kind x) (item_size x) @ item_content x"
  by (simp add: enc_item_head enc_head_hdr item_size_def)

lemma item_at:
  assumes s: "sinv s" "kind_ahead s = None" and i: "inp s = enc_item x @ r"
    and fit: "length (enc_item x) \<le> room s"
  shows "\<exists>s0. s_Kind s = (Inr (item_kind x, item_size x), s0) \<and> kind_ahead s0 = Some (item_kind x) \<and>
    (if item_kind x = KByte then byteval s0 = hd (enc_item x) \<and> moved 1 s s0
     else moved (length (hdr (item_kind x) (item_size x))) s s0 \<and>
       unat (item_size x) = length (item_content x))"
proof (cases "item_kind x = KByte")
  case True
  then obtain b where b: "b < 0x80" "enc_item x = [b]" using item_byte by blast
  with s_Kind_single [OF s, of b r] i fit True show ?thesis
    by (simp add: item_size_def moved_def)
next
  case False
  note e = enc_item_hdr [OF False]
  have "length (item_content x) < 2 ^ 64"
    using fit e room_le [OF s(1)] length_inp_u64 [OF s(1)] by simp
  then have z: "unat (item_size x) = length (item_content x)"
    using False by (simp add: item_size_def unat_of_nat_u64)
  with s_Kind_hdr [OF s False, of "item_size x" "item_content x @ r"] i fit e False show ?thesis
    by (simp add: moved_def)
qed

lemma decode_cached:
  "elem_type t \<Longrightarrow> s_Kind s = (Inr kz, s0) \<Longrightarrow> decode_val fuel t s0 = decode_val fuel t s"
proof (induction t arbitrary: fuel rule: elem_type.induct)
  case (2 t)
  then show ?case by (cases fuel) simp_all
qed (simp, (case_tac fuel; simp add: cached_ops s_Kind_cached decodeListSlice_cached decodeRawValue_def
    decodeBigInt_def decodeUint_def decodeBool_def decodeString_def decodeByteSlice_def s_Bool_def)+)

section \<open>Raw values\<close>

text \<open>
  What \<open>Stream.Raw\<close> returns at an item. The header of a long string is one too large, because the
  source passes 0xB8 where \<open>puthead\<close> expects 0xB7.
\<close>

definition raw_result :: "item \<Rightarrow> bytes" where
  "raw_result x =
     (if long_string x then (hd (enc_item x) + 1) # tl (enc_item x) else enc_item x)"

lemma raw_header:
  assumes "item_kind x = KString" "unat (item_size x) = length (item_content x)"
  shows "puthead 0x80 0xB8 (item_size x) @ item_content x = raw_result x"
proof -
  obtain b where x: "x = Str b" using assms(1) by (cases x) (auto simp: item_kind_def)
  then have c: "item_content x = b" by (simp add: item_content_def)
  have e: "enc_item x = puthead 0x80 0xB7 (item_size x) @ b"
    using enc_item_hdr [of x] assms(1) c by (simp add: hdr_def small_tag_def large_tag_def)
  have l: "long_string x \<longleftrightarrow> \<not> item_size x < 56"
    using assms(2) x c by (simp add: long_string_def word_less_nat_alt not_less)
  show ?thesis
    using e l c by (auto simp: raw_result_def puthead_def Let_def)
qed

lemma s_Raw_ok:
  assumes s: "sinv s" "kind_ahead s = None" and i: "inp s = enc_item x @ r"
    and fit: "length (enc_item x) \<le> room s"
  shows "\<exists>s'. s_Raw s = (Inr (raw_result x), s') \<and> after (length (enc_item x)) s s'"
proof -
  obtain s0 where k: "s_Kind s = (Inr (item_kind x, item_size x), s0)"
    and d: "if item_kind x = KByte then byteval s0 = hd (enc_item x) \<and> moved 1 s s0
     else moved (length (hdr (item_kind x) (item_size x))) s s0 \<and>
       unat (item_size x) = length (item_content x)"
    using item_at [OF assms] by blast
  show ?thesis
  proof (cases "item_kind x = KByte")
    case True
    then obtain b where b: "x = Str [b]" "enc_item x = [b]" using item_byte by blast
    then have "raw_result x = [b]" by (simp add: raw_result_def long_string_def)
    moreover have "after 1 s (s0\<lparr>kind_ahead := None\<rparr>)"
      using d True fit b by (intro moved_after s) (auto simp: moved_def)
    ultimately show ?thesis using k d True b by (simp add: s_Raw_def)
  next
    case False
    let ?n = "length (hdr (item_kind x) (item_size x))" and ?c = "item_content x"
    note e = enc_item_hdr [OF False]
    have m: "moved ?n s s0" and z: "unat (item_size x) = length ?c" using d False by simp_all
    have s0: "sinv s0" "room s0 = room s - ?n" "inp s0 = ?c @ r"
      using moved_sinv [OF m s(1)] m fit e i by (simp_all add: moved_def)
    have "readFull (item_size x) s0 = (Inr ?c, adv (length ?c) s0)"
      using readFull_ok [OF s0(1), of "item_size x"] s0 z fit e by simp
    moreover have "(if item_kind x = KString then puthead 0x80 0xB8 (item_size x) @ ?c
      else puthead 0xC0 0xF7 (item_size x) @ ?c) = raw_result x"
      using raw_header [OF _ z] False e
      by (cases x) (auto simp: raw_result_def long_string_def item_kind_def hdr_def small_tag_def
          large_tag_def string_kind_def simp del: enc_item.simps)
    ultimately have "s_Raw s = (Inr (raw_result x), adv (length ?c) s0)"
      using k False by (auto simp: s_Raw_def)
    moreover have "after (?n + length ?c) s (adv (length ?c) s0)"
      using moved_trans [OF m moved_adv] fit e by (intro moved_after s) simp_all
    ultimately show ?thesis using e by simp
  qed
qed

section \<open>Byte arrays\<close>

lemma decodeByteArray_ok:
  assumes s: "sinv s" "kind_ahead s = None" and i: "inp s = enc_string b @ r"
    and fit: "length (enc_string b) \<le> room s" and b: "length b = n" "b \<noteq> [0]"
  shows "\<exists>s'. decodeByteArray n s = (Inr (GByteArray b), s') \<and> after (length (enc_string b)) s s'"
proof -
  let ?x = "Str b"
  have i': "inp s = enc_item ?x @ r" and fit': "length (enc_item ?x) \<le> room s" using i fit by simp_all
  obtain s0 where k: "s_Kind s = (Inr (item_kind ?x, item_size ?x), s0)"
    and d: "if item_kind ?x = KByte then byteval s0 = hd (enc_item ?x) \<and> moved 1 s s0
     else moved (length (hdr (item_kind ?x) (item_size ?x))) s s0 \<and>
       unat (item_size ?x) = length (item_content ?x)"
    using item_at [OF s i' fit'] by blast
  show ?thesis
  proof (cases "item_kind ?x = KByte")
    case True
    then obtain c where c: "b = [c]" "c < 0x80" "enc_item ?x = [c]" using item_byte by blast
    have "ucast (ucast c :: u64) = c"
      using unat_byte_less [of c] by (simp add: word_unat_eq_iff unat_ucast_byte unat_ucast_u64)
    then have "decodeByteArray n s = (Inr (GByteArray b), s0\<lparr>kind_ahead := None\<rparr>)"
      using k True d c b s_Kind_cached [OF k] by (simp add: decodeByteArray_def s_Uint_def s_uint_def)
    moreover have "after 1 s (s0\<lparr>kind_ahead := None\<rparr>)"
      using d True fit' c by (intro moved_after s) (auto simp: moved_def)
    ultimately show ?thesis using c by simp
  next
    case False
    then have ks: "item_kind ?x = KString" by (auto simp: item_kind_def string_kind_def)
    let ?n = "length (hdr KString (item_size ?x))"
    have e: "enc_string b = hdr KString (item_size ?x) @ b"
      using enc_item_hdr [OF False] ks by (simp add: item_content_def)
    have m: "moved ?n s s0" and z: "unat (item_size ?x) = length b"
      using d False ks by (simp_all add: item_content_def)
    have wz: "word_of_nat n = item_size ?x" by (simp flip: b(1) z)
    have s0: "sinv s0" "room s0 = room s - ?n" "inp s0 = b @ r"
      using moved_sinv [OF m s(1)] m fit e i by (simp_all add: moved_def)
    have "readFull (item_size ?x) s0 = (Inr b, adv (length b) s0)"
      using readFull_ok [OF s0(1), of "item_size ?x"] s0 z fit e by simp
    moreover have "\<not> (item_size ?x = 1 \<and> b ! 0 < 128)"
      using z ks by (auto simp: item_kind_def string_kind_def)
    ultimately have "decodeByteArray n s = (Inr (GByteArray b), adv (length b) s0)"
      using k ks wz by (simp add: decodeByteArray_def)
    moreover have "after (?n + length b) s (adv (length b) s0)"
      using moved_trans [OF m moved_adv] fit e by (intro moved_after s) simp_all
    ultimately show ?thesis using e by simp
  qed
qed

section \<open>Lists of elements\<close>

definition enc_of :: "gval \<Rightarrow> bytes" where
  "enc_of v = (case enc_gval v of Inr e \<Rightarrow> e | Inl _ \<Rightarrow> [])"

definition encs_of :: "gval list \<Rightarrow> bytes" where
  "encs_of vs = concat (map enc_of vs)"

text \<open>A value that encodes to one item and is read back by the decoder of \<open>t\<close>.\<close>

definition good :: "gtype \<Rightarrow> gval \<Rightarrow> bool" where
  "good t v \<longleftrightarrow> (\<exists>x. enc_gval v = Inr (enc_item x)) \<and> decodes t v (enc_of v)"

lemma good_enc: "good t v \<Longrightarrow> enc_gval v = Inr (enc_of v)"
  by (auto simp: good_def enc_of_def)

lemma good_pos: "good t v \<Longrightarrow> 0 < length (enc_of v)"
  using enc_item_not_Nil by (auto simp: good_def enc_of_def)

lemma goods_enc: "(\<And>v. v \<in> set vs \<Longrightarrow> good t v) \<Longrightarrow> enc_gvals vs = Inr (encs_of vs)"
  by (induction vs) (simp_all add: encs_of_def good_enc [of t])

lemma encs_of_simps [simp]: "encs_of [] = []" "encs_of (v # vs) = enc_of v @ encs_of vs"
  by (simp_all add: encs_of_def)

lemma goods_fuel:
  assumes "\<And>v. v \<in> set vs \<Longrightarrow> good t v"
  shows "\<exists>n. \<forall>fuel\<ge>n. \<forall>v\<in>set vs. decodes_in fuel t v (enc_of v)"
  using assms
proof (induction vs)
  case (Cons v vs)
  obtain n where n: "\<forall>fuel\<ge>n. \<forall>v\<in>set vs. decodes_in fuel t v (enc_of v)" using Cons by auto
  obtain m where m: "\<forall>fuel\<ge>m. decodes_in fuel t v (enc_of v)"
    using Cons.prems [of v] by (auto simp: good_def decodes_def)
  show ?case using n m by (intro exI [of _ "max n m"]) simp
qed simp

text \<open>A list whose elements fill it exactly, read by the loop of \<open>decodeSliceElems\<close>.\<close>

definition fills :: "stream \<Rightarrow> bytes \<Rightarrow> bytes \<Rightarrow> bool" where
  "fills s c r \<longleftrightarrow> sinv s \<and> kind_ahead s = None \<and> inp s = c @ r \<and> lstack s \<noteq> [] \<and> room s = length c"

lemma fills_Nil: "fills s [] r \<Longrightarrow> at_end s"
  by (auto simp: fills_def room_def at_end_def sinv_def word_unat_eq_iff split: list.splits)

lemma fills_step:
  assumes "fills s (e @ c) r" "decodes_in fuel t v e"
  shows "\<exists>s'. decode_val fuel t s = Some (Inr v, s') \<and> fills s' c r \<and> after (length e) s s'"
proof -
  obtain s' where s': "decode_val fuel t s = Some (Inr v, s')" "after (length e) s s'"
    using assms by (fastforce simp: fills_def decodes_in_def)
  moreover have "room s' = length c"
    using after_room [OF s'(2)] assms(1) by (simp add: fills_def)
  moreover have "lstack s' \<noteq> []"
    using s'(2) assms(1) by (cases "lstack s") (auto simp: after_def fills_def)
  ultimately show ?thesis using assms(1) by (auto simp: after_def fills_def)
qed

lemma slice_elems:
  assumes "\<forall>f\<ge>n. ends_in f t" "\<forall>f\<ge>n. \<forall>v\<in>set vs. decodes_in f t v (enc_of v)"
    and "n + length vs < fuel" "fills s (encs_of vs) r"
  shows "\<exists>s'. decodeSliceElems fuel t s = Some (Inr vs, s') \<and> after (length (encs_of vs)) s s' \<and>
    at_end s'"
  using assms(2,3,4)
proof (induction vs arbitrary: fuel s)
  case Nil
  then obtain f where f: "fuel = Suc f" "n \<le> f" by (cases fuel) auto
  have "at_end s" using Nil.prems(3) fills_Nil by simp
  then obtain s' where "decode_val f t s = Some (Inl EOL, s')" "after 0 s s'"
    using assms(1) f Nil.prems(3) by (auto simp: ends_in_def fills_def)
  then show ?case using f \<open>at_end s\<close> by (auto simp: result_simps after_def at_end_def)
next
  case (Cons v vs)
  then obtain f where f: "fuel = Suc f" "n + length vs < f" by (cases fuel) auto
  have "decodes_in f t v (enc_of v)" using Cons.prems(1) f(2) by simp
  then obtain s1 where s1: "decode_val f t s = Some (Inr v, s1)" "fills s1 (encs_of vs) r"
    "after (length (enc_of v)) s s1"
    using fills_step [of s "enc_of v" "encs_of vs" r f t v] Cons.prems(3) by auto
  obtain s2 where "decodeSliceElems f t s1 = Some (Inr vs, s2)" "after (length (encs_of vs)) s1 s2"
    "at_end s2"
    using Cons.IH [of f s1] Cons.prems(1) f(2) s1(2) by auto
  then show ?case using f s1 after_trans [OF s1(3)] by (auto simp: result_simps)
qed

lemma array_elems:
  assumes "\<forall>f\<ge>n. \<forall>v\<in>set vs. decodes_in f t v (enc_of v)"
    and "n + length vs < fuel" "fills s (encs_of vs) r"
  shows "\<exists>s'. decodeArrayElems fuel (length vs) t s = Some (Inr vs, s') \<and>
    after (length (encs_of vs)) s s' \<and> at_end s'"
  using assms
proof (induction vs arbitrary: fuel s)
  case Nil
  then obtain f where f: "fuel = Suc f" by (cases fuel) auto
  then show ?case using Nil.prems(3) fills_Nil [of s r] by (auto simp: result_simps fills_def after_refl)
next
  case (Cons v vs)
  then obtain f where f: "fuel = Suc f" "n + length vs < f" by (cases fuel) auto
  have "decodes_in f t v (enc_of v)" using Cons.prems(1) f(2) by simp
  then obtain s1 where s1: "decode_val f t s = Some (Inr v, s1)" "fills s1 (encs_of vs) r"
    "after (length (enc_of v)) s s1"
    using fills_step [of s "enc_of v" "encs_of vs" r f t v] Cons.prems(3) by auto
  obtain s2 where "decodeArrayElems f (length vs) t s1 = Some (Inr vs, s2)"
    "after (length (encs_of vs)) s1 s2" "at_end s2"
    using Cons.IH [of f s1] Cons.prems(1) f(2) s1(2) by auto
  then show ?case using f s1 after_trans [OF s1(3)] by (auto simp: result_simps)
qed

text \<open>Opening and closing the list around its elements.\<close>

lemma list_frame:
  assumes s: "sinv s" "kind_ahead s = None" and i: "inp s = enc_list c @ r"
    and fit: "length (enc_list c) \<le> room s"
  shows "\<exists>z s1. s_List s = (Inr z, s1) \<and> fills s1 c r \<and> (z = 0 \<longleftrightarrow> c = []) \<and>
    (\<forall>s2. after (length c) s1 s2 \<longrightarrow>
       (\<exists>s3. s_ListEnd s2 = (Inr (), s3) \<and> after (length (enc_list c)) s s3))"
proof -
  let ?z = "word_of_nat (length c) :: u64"
  have e: "enc_list c = hdr KList ?z @ c" by (simp add: enc_list_def enc_head_hdr)
  have "length c < 2 ^ 64" using fit e room_le [OF s(1)] length_inp_u64 [OF s(1)] by simp
  then have z: "unat ?z = length c" by (simp add: unat_of_nat_u64)
  obtain s1 where l: "s_List s = (Inr ?z, s1)"
    using s_List_ok [OF s, of ?z "c @ r"] i fit e z by auto
  note O = s_List_opened [OF s l]
  have "fills s1 c r" using O i e z by (simp add: fills_def)
  moreover have "?z = 0 \<longleftrightarrow> c = []" using z by (metis length_0_conv unat_eq_0)
  moreover have "\<exists>s3. s_ListEnd s2 = (Inr (), s3) \<and> after (length (enc_list c)) s s3"
    if "after (length c) s1 s2" for s2
    using s_ListEnd_after [OF s l, of s2] that z e by simp
  ultimately show ?thesis using l by blast
qed

section \<open>The round trip\<close>

text \<open>The fields of a struct, from which the last may be a tail.\<close>

definition fields_good :: "gtype list \<Rightarrow> gval list \<Rightarrow> bool" where
  "fields_good ts vs \<longleftrightarrow>
     (\<exists>xs n. enc_gvals vs = Inr (enc_items xs) \<and>
       (\<forall>fuel\<ge>n. \<forall>s r. fills s (enc_items xs) r \<longrightarrow>
          (\<exists>s'. decodeFields fuel ts s = Some (Inr vs, s') \<and> after (length (enc_items xs)) s s')))"

lemma goods_items:
  "(\<And>v. v \<in> set vs \<Longrightarrow> good t v) \<Longrightarrow> \<exists>xs. encs_of vs = enc_items xs"
proof (induction vs)
  case Nil
  show ?case by (intro exI [of _ "[]"]) simp
next
  case (Cons v vs)
  then obtain xs x where "encs_of vs = enc_items xs" "enc_of v = enc_item x"
    by (fastforce simp: good_def enc_of_def)
  then show ?case by (intro exI [of _ "x # xs"]) simp
qed

lemma good_list:
  assumes "enc_gval v = Inr (enc_list c)" "\<exists>xs. c = enc_items xs"
    and "\<And>fuel s r. n \<le> fuel \<Longrightarrow> sinv s \<Longrightarrow> kind_ahead s = None \<Longrightarrow> inp s = enc_list c @ r \<Longrightarrow>
      length (enc_list c) \<le> room s \<Longrightarrow>
      \<exists>s'. decode_val fuel t s = Some (Inr v, s') \<and> after (length (enc_list c)) s s'"
  shows "good t v"
proof -
  have "decodes t v (enc_list c)" unfolding decodes_def decodes_in_def using assms(3) by blast
  moreover obtain xs where "c = enc_items xs" using assms(2) by blast
  then have "enc_list c = enc_item (Lst xs)" by (simp add: enc_item_Lst del: enc_item.simps)
  ultimately show ?thesis using assms(1) by (auto simp: good_def enc_of_def simp del: enc_item.simps)
qed

lemma good_slice:
  assumes t: "elem_type t" and vs: "\<And>v. v \<in> set vs \<Longrightarrow> good t v"
  shows "good (TSlice t) (GSlice False vs)"
proof -
  obtain n where n: "\<forall>f\<ge>n. \<forall>v\<in>set vs. decodes_in f t v (enc_of v)" using goods_fuel [OF vs] by blast
  obtain m where m: "\<forall>f\<ge>m. ends_in f t" using elem_type_ends [OF t] by blast
  let ?k = "max n m"
  have ends: "\<forall>f\<ge>?k. ends_in f t" and dec: "\<forall>f\<ge>?k. \<forall>v\<in>set vs. decodes_in f t v (enc_of v)"
    using n m by simp_all
  show ?thesis
  proof (rule good_list [where c = "encs_of vs" and n = "?k + length vs + 3"])
    show "enc_gval (GSlice False vs) = Inr (enc_list (encs_of vs))" using goods_enc [OF vs] by simp
    show "\<exists>xs. encs_of vs = enc_items xs" by (rule goods_items [OF vs])
    fix fuel s r
    assume f: "?k + length vs + 3 \<le> fuel" and s: "sinv s" "kind_ahead s = None"
      and i: "inp s = enc_list (encs_of vs) @ r" "length (enc_list (encs_of vs)) \<le> room s"
    have fu: "fuel = Suc (Suc (fuel - 2))" using f by simp
    have g: "?k + length vs < fuel - 2" using f by linarith
    obtain z s1 where l: "s_List s = (Inr z, s1)" "fills s1 (encs_of vs) r" "z = 0 \<longleftrightarrow> encs_of vs = []"
      and e: "\<And>s2. after (length (encs_of vs)) s1 s2 \<Longrightarrow>
         \<exists>s3. s_ListEnd s2 = (Inr (), s3) \<and> after (length (enc_list (encs_of vs))) s s3"
      using list_frame [OF s i] by blast
    show "\<exists>s'. decode_val fuel (TSlice t) s = Some (Inr (GSlice False vs), s') \<and>
      after (length (enc_list (encs_of vs))) s s'"
    proof (cases "z = 0")
      case True
      then have v0: "encs_of vs = []" using l(3) by simp
      then have "vs = []" using good_pos [OF vs] by (cases vs) auto
      moreover have "after 0 s1 s1" using l(2) by (simp add: fills_def after_refl)
      then obtain s3 where "s_ListEnd s1 = (Inr (), s3)" "after (length (enc_list (encs_of vs))) s s3"
        using e [of s1] v0 by auto
      ultimately show ?thesis using l(1) True by (subst fu) (simp add: result_simps)
    next
      case False
      obtain s2 where s2: "decodeSliceElems (fuel - 2) t s1 = Some (Inr vs, s2)"
        "after (length (encs_of vs)) s1 s2"
        using slice_elems [OF ends dec g l(2)] by blast
      obtain s3 where "s_ListEnd s2 = (Inr (), s3)" "after (length (enc_list (encs_of vs))) s s3"
        using e [OF s2(2)] by blast
      then show ?thesis using l(1) False s2(1) by (subst fu) (simp add: result_simps)
    qed
  qed
qed

lemma good_array:
  assumes vs: "\<And>v. v \<in> set vs \<Longrightarrow> good t v"
  shows "good (TArray (length vs) t) (GSlice False vs)"
proof -
  obtain n where n: "\<forall>f\<ge>n. \<forall>v\<in>set vs. decodes_in f t v (enc_of v)" using goods_fuel [OF vs] by blast
  show ?thesis
  proof (rule good_list [where c = "encs_of vs" and n = "n + length vs + 2"])
    show "enc_gval (GSlice False vs) = Inr (enc_list (encs_of vs))" using goods_enc [OF vs] by simp
    show "\<exists>xs. encs_of vs = enc_items xs" by (rule goods_items [OF vs])
    fix fuel s r
    assume f: "n + length vs + 2 \<le> fuel" and s: "sinv s" "kind_ahead s = None"
      and i: "inp s = enc_list (encs_of vs) @ r" "length (enc_list (encs_of vs)) \<le> room s"
    have fu: "fuel = Suc (fuel - 1)" and g: "n + length vs < fuel - 1" using f by linarith+
    obtain z s1 where l: "s_List s = (Inr z, s1)" "fills s1 (encs_of vs) r"
      and e: "\<And>s2. after (length (encs_of vs)) s1 s2 \<Longrightarrow>
         \<exists>s3. s_ListEnd s2 = (Inr (), s3) \<and> after (length (enc_list (encs_of vs))) s s3"
      using list_frame [OF s i] by blast
    obtain s2 where s2: "decodeArrayElems (fuel - 1) (length vs) t s1 = Some (Inr vs, s2)"
      "after (length (encs_of vs)) s1 s2"
      using array_elems [OF n g l(2)] by blast
    obtain s3 where "s_ListEnd s2 = (Inr (), s3)" "after (length (enc_list (encs_of vs))) s s3"
      using e [OF s2(2)] by blast
    then show "\<exists>s'. decode_val fuel (TArray (length vs) t) s = Some (Inr (GSlice False vs), s') \<and>
      after (length (enc_list (encs_of vs))) s s'"
      using l(1) s2(1) by (subst fu) (simp add: result_simps)
  qed
qed

lemma good_struct:
  assumes "fields_good ts vs"
  shows "good (TStruct ts) (GStruct vs)"
proof -
  obtain c n where c: "enc_gvals vs = Inr c" "\<exists>xs. c = enc_items xs"
    and n: "\<forall>fuel\<ge>n. \<forall>s r. fills s c r \<longrightarrow>
      (\<exists>s'. decodeFields fuel ts s = Some (Inr vs, s') \<and> after (length c) s s')"
    using assms unfolding fields_good_def by blast
  show ?thesis
  proof (rule good_list [where c = c and n = "Suc n"])
    show "enc_gval (GStruct vs) = Inr (enc_list c)" using c by simp
    show "\<exists>xs. c = enc_items xs" by (rule c(2))
    fix fuel s r
    assume f: "Suc n \<le> fuel" and s: "sinv s" "kind_ahead s = None"
      and i: "inp s = enc_list c @ r" "length (enc_list c) \<le> room s"
    obtain g where g: "fuel = Suc g" "n \<le> g" using f by (cases fuel) auto
    obtain z s1 where l: "s_List s = (Inr z, s1)" "fills s1 c r"
      and e: "\<And>s2. after (length c) s1 s2 \<Longrightarrow>
         \<exists>s3. s_ListEnd s2 = (Inr (), s3) \<and> after (length (enc_list c)) s s3"
      using list_frame [OF s i] by blast
    obtain s2 where s2: "decodeFields g ts s1 = Some (Inr vs, s2)" "after (length c) s1 s2"
      using n g(2) l(2) by blast
    obtain s3 where "s_ListEnd s2 = (Inr (), s3)" "after (length (enc_list c)) s s3"
      using e [OF s2(2)] by blast
    then show "\<exists>s'. decode_val fuel (TStruct ts) s = Some (Inr (GStruct vs), s') \<and>
      after (length (enc_list c)) s s'"
      using l(1) s2(1) g by (simp add: result_simps)
  qed
qed

lemma good_ptr:
  assumes "good t v"
  shows "good (TPtr t) (GPtr v)"
proof -
  obtain n where n: "\<forall>f\<ge>n. decodes_in f t v (enc_of v)" using assms by (auto simp: good_def decodes_def)
  have "decodes_in fuel (TPtr t) (GPtr v) (enc_of v)" if "Suc n \<le> fuel" for fuel
  proof -
    obtain f where f: "fuel = Suc f" "n \<le> f" using \<open>Suc n \<le> fuel\<close> by (cases fuel) auto
    with n have "decodes_in f t v (enc_of v)" by blast
    with f show ?thesis unfolding decodes_in_def by (fastforce simp: result_simps)
  qed
  then have "decodes (TPtr t) (GPtr v) (enc_of v)" unfolding decodes_def by blast
  with assms show ?thesis by (auto simp: good_def enc_of_def)
qed

lemma empty_item: "item_kind x \<noteq> KByte \<Longrightarrow> item_content x = [] \<Longrightarrow> enc_item x = [0x80] \<or> enc_item x = [0xC0]"
  using enc_item_hdr [of x]
  by (auto simp: item_size_def hdr_def puthead_def small_tag_def)

lemma good_nil_ptr:
  assumes t: "elem_type t" "good t v" and ne: "enc_gval v \<noteq> Inr [0x80]" "enc_gval v \<noteq> Inr [0xC0]"
  shows "good (TNilPtr t) (GPtr v)"
proof -
  obtain n where n: "\<forall>f\<ge>n. decodes_in f t v (enc_of v)" using t by (auto simp: good_def decodes_def)
  obtain x where x: "enc_gval v = Inr (enc_item x)" "enc_of v = enc_item x"
    using t by (auto simp: good_def enc_of_def)
  have "decodes_in fuel (TNilPtr t) (GPtr v) (enc_item x)" if "Suc n \<le> fuel" for fuel
    unfolding decodes_in_def
  proof (intro allI impI)
    fix s r
    assume s: "sinv s" "kind_ahead s = None" "inp s = enc_item x @ r" "length (enc_item x) \<le> room s"
    obtain f where f: "fuel = Suc f" "n \<le> f" using \<open>Suc n \<le> fuel\<close> by (cases fuel) auto
    with n x have "decodes_in f t v (enc_item x)" by auto
    then obtain s' where s': "decode_val f t s = Some (Inr v, s')" "after (length (enc_item x)) s s'"
      using s unfolding decodes_in_def by blast
    obtain s0 where k: "s_Kind s = (Inr (item_kind x, item_size x), s0)"
      and z: "item_kind x \<noteq> KByte \<Longrightarrow> unat (item_size x) = length (item_content x)"
      using item_at [OF s] by (auto split: if_splits)
    have "\<not> (item_size x = 0 \<and> item_kind x \<noteq> KByte)"
    proof
      assume a: "item_size x = 0 \<and> item_kind x \<noteq> KByte"
      then have "item_content x = []" using z by simp
      with a ne x(1) empty_item [of x] show False by auto
    qed
    with k s' f decode_cached [OF t(1) k]
    show "\<exists>s'. decode_val fuel (TNilPtr t) s = Some (Inr (GPtr v), s') \<and> after (length (enc_item x)) s s'"
      by (auto simp: result_simps)
  qed
  then have "decodes (TNilPtr t) (GPtr v) (enc_of (GPtr v))"
    using x by (auto simp: decodes_def enc_of_def)
  with x show ?thesis by (auto simp: good_def)
qed

lemma good_nil:
  assumes "enc_gval (nil_ptr t) \<in> {Inr [0x80], Inr [0xC0]}"
  shows "good (TNilPtr t) (nil_ptr t)"
proof -
  obtain x where x: "enc_gval (nil_ptr t) = Inr (enc_item x)" "x = Str [] \<or> x = Lst []"
    using assms by (auto intro: that [of "Str []"] that [of "Lst []"])
  then have k: "item_kind x \<noteq> KByte" "item_size x = 0" "length (enc_item x) = 1"
    "length (hdr (item_kind x) 0) = 1"
    by (auto simp: item_kind_def item_size_def item_content_def string_kind_def hdr_def puthead_def)
  have "decodes_in fuel (TNilPtr t) (nil_ptr t) (enc_item x)" if "1 \<le> fuel" for fuel
    unfolding decodes_in_def
  proof (intro allI impI)
    fix s r
    assume s: "sinv s" "kind_ahead s = None" "inp s = enc_item x @ r" "length (enc_item x) \<le> room s"
    obtain f where f: "fuel = Suc f" using \<open>1 \<le> fuel\<close> by (cases fuel) auto
    obtain s0 where k0: "s_Kind s = (Inr (item_kind x, 0), s0)" "moved 1 s s0"
      using item_at [OF s] k by auto
    then have "after 1 s (s0\<lparr>kind_ahead := None\<rparr>)"
      using s k by (intro moved_after) (auto simp: moved_def)
    with k0 k f show "\<exists>s'. decode_val fuel (TNilPtr t) s = Some (Inr (nil_ptr t), s') \<and>
      after (length (enc_item x)) s s'"
      by (simp add: result_simps del: nil_ptr.simps)
  qed
  then have "decodes (TNilPtr t) (nil_ptr t) (enc_of (nil_ptr t))"
    using x unfolding decodes_def enc_of_def by auto
  with x show ?thesis by (auto simp: good_def simp del: nil_ptr.simps)
qed

lemma good_leaf:
  assumes "enc_gval v = Inr (enc_item x)" "\<And>fuel s. decode_val (Suc fuel) t s = Some (f s)"
    and "\<And>s r. sinv s \<Longrightarrow> kind_ahead s = None \<Longrightarrow> inp s = enc_item x @ r \<Longrightarrow>
      length (enc_item x) \<le> room s \<Longrightarrow> \<exists>s'. f s = (Inr v, s') \<and> after (length (enc_item x)) s s'"
  shows "good t v"
  using decodes_leaf [OF assms(2,3)] assms(1) by (auto simp: good_def enc_of_def)

lemma good_string:
  assumes "enc_gval v = Inr (enc_string b)" "\<And>fuel s. decode_val (Suc fuel) t s = Some (f s)"
    and "\<And>s s'. s_Bytes s = (Inr b, s') \<Longrightarrow> f s = (Inr v, s')"
  shows "good t v"
  using assms s_Bytes_after [of _ b] by (intro good_leaf [of v "Str b"]) force+

lemma good_interface: "good TInterface (iface_of x)"
proof -
  have "enc_gval (iface_of x) = Inr (enc_item x)"
  proof (induction x)
    case (Lst xs)
    then have "enc_gvals (map iface_of xs) = Inr (enc_items xs)" by (induction xs) simp_all
    then show ?case by (simp add: enc_item_Lst del: enc_item.simps)
  qed simp
  moreover have "decodes TInterface (iface_of x) (enc_item x)"
    unfolding decodes_def decodes_in_def using iface_complete [of x] unfolding complete_at_def by blast
  ultimately show ?thesis by (auto simp: good_def enc_of_def)
qed

lemma fields_good_Nil: "fields_good [] []"
  unfolding fields_good_def
proof (intro exI [of _ "[]"] exI [of _ 1] conjI allI impI)
  fix fuel :: nat and s r
  assume f: "1 \<le> fuel" and s: "fills s (enc_items []) r"
  then show "\<exists>s'. decodeFields fuel [] s = Some (Inr [], s') \<and> after (length (enc_items [])) s s'"
    by (cases fuel) (auto simp: result_simps fills_def after_refl)
qed simp

lemma fields_good_Cons:
  assumes "good t v" "fields_good ts vs"
  shows "fields_good (t # ts) (v # vs)"
proof -
  obtain x where x: "enc_gval v = Inr (enc_item x)" "enc_of v = enc_item x"
    using assms(1) by (auto simp: good_def enc_of_def)
  obtain n where n: "\<forall>f\<ge>n. decodes_in f t v (enc_item x)"
    using assms(1) x by (auto simp: good_def decodes_def)
  obtain xs m where xs: "enc_gvals vs = Inr (enc_items xs)"
    and m: "\<forall>fuel\<ge>m. \<forall>s r. fills s (enc_items xs) r \<longrightarrow>
      (\<exists>s'. decodeFields fuel ts s = Some (Inr vs, s') \<and> after (length (enc_items xs)) s s')"
    using assms(2) unfolding fields_good_def by blast
  have "\<exists>s'. decodeFields fuel (t # ts) s = Some (Inr (v # vs), s') \<and>
    after (length (enc_items (x # xs))) s s'"
    if f: "Suc (max n m) \<le> fuel" and s: "fills s (enc_items (x # xs)) r" for fuel s r
  proof -
    obtain g where g: "fuel = Suc g" "n \<le> g" "m \<le> g" using f by (cases fuel) auto
    obtain s1 where s1: "decode_val g t s = Some (Inr v, s1)" "fills s1 (enc_items xs) r"
      "after (length (enc_item x)) s s1"
      using fills_step [of s "enc_item x" "enc_items xs" r g t v] s n g(2) by auto
    obtain s2 where "decodeFields g ts s1 = Some (Inr vs, s2)" "after (length (enc_items xs)) s1 s2"
      using m g(3) s1(2) by blast
    with s1 g(1) after_trans [OF s1(3)] show ?thesis by (auto simp: result_simps)
  qed
  moreover have "enc_gvals (v # vs) = Inr (enc_items (x # xs))" using x xs by simp
  ultimately show ?thesis unfolding fields_good_def by blast
qed

lemma fields_good_tail:
  assumes t: "elem_type t" and vs: "\<And>v. v \<in> set vs \<Longrightarrow> good t v"
  shows "fields_good [TTail t] [GSlice True vs]"
proof -
  obtain n where n: "\<forall>f\<ge>n. \<forall>v\<in>set vs. decodes_in f t v (enc_of v)" using goods_fuel [OF vs] by blast
  obtain m where m: "\<forall>f\<ge>m. ends_in f t" using elem_type_ends [OF t] by blast
  let ?k = "max n m"
  have ends: "\<forall>f\<ge>?k. ends_in f t" and dec: "\<forall>f\<ge>?k. \<forall>v\<in>set vs. decodes_in f t v (enc_of v)"
    using n m by simp_all
  obtain xs where xs: "encs_of vs = enc_items xs" using goods_items [OF vs] by blast
  have "\<exists>s'. decodeFields fuel [TTail t] s = Some (Inr [GSlice True vs], s') \<and>
    after (length (enc_items xs)) s s'"
    if f: "?k + length vs + 3 \<le> fuel" and s: "fills s (enc_items xs) r" for fuel s r
  proof -
    have fu: "fuel = Suc (Suc (fuel - 2))" "\<exists>h. fuel - 2 = Suc h" using f by presburger+
    have g: "?k + length vs < fuel - 2" using f by linarith
    obtain s2 where s2: "decodeSliceElems (fuel - 2) t s = Some (Inr vs, s2)"
      "after (length (enc_items xs)) s s2"
      using slice_elems [OF ends dec g] s xs by fastforce
    obtain h where "fuel - 2 = Suc h" using fu(2) by blast
    with s2 show ?thesis by (subst fu(1)) (auto simp: result_simps)
  qed
  moreover have "enc_gvals [GSlice True vs] = Inr (enc_items xs)" using goods_enc [OF vs] xs by simp
  ultimately show ?thesis unfolding fields_good_def by blast
qed

lemma has_type_good: "has_type t v \<Longrightarrow> good t v" "has_types ts vs \<Longrightarrow> fields_good ts vs"
proof (induction rule: has_type_has_types.inducts)
  case (1 x)
  show ?case
  proof (rule good_leaf [of _ x])
    fix s r
    assume s: "sinv s" "kind_ahead s = None" "inp s = enc_item x @ r" "length (enc_item x) \<le> room s"
    show "\<exists>s'. decodeRawValue s = (Inr (GRawValue (enc_item x)), s') \<and> after (length (enc_item x)) s s'"
      using s_Raw_ok [OF s] 1 by (auto simp: decodeRawValue_def raw_result_def)
  qed simp_all
next
  case (2 i)
  show ?case
  proof (rule good_string [of _ "bigBytes (nat i)"])
    fix s s'
    assume "s_Bytes s = (Inr (bigBytes (nat i)), s')"
    then show "decodeBigInt s = (Inr (GBigInt i), s')"
      using 2 hd_bigBytes [of "nat i"]
      by (cases "nat i = 0") (auto simp: decodeBigInt_def be_nat_bigBytes bigBytes.simps [of 0])
  qed (use 2 in simp_all)
next
  case (3 i bits)
  show ?case
  proof (rule good_leaf [of _ "Str (if i = 0 then [] else putint i)"])
    fix s r
    assume "sinv s" "kind_ahead s = None" "inp s = enc_item (Str (if i = 0 then [] else putint i)) @ r"
      "length (enc_item (Str (if i = 0 then [] else putint i))) \<le> room s"
    then show "\<exists>s'. decodeUint bits s = (Inr (GUint i), s') \<and>
      after (length (enc_item (Str (if i = 0 then [] else putint i)))) s s'"
      using s_uint_ok [of s i r bits] 3 by (auto simp: decodeUint_def)
  qed simp_all
next
  case (4 b)
  let ?i = "if b then 1 else 0 :: u64"
  have e: "(if ?i = 0 then [] else putint ?i) = (if b then [1] else [])" by (simp add: putint_small)
  have u: "unat ?i < 2 ^ 8" "8 dvd (8 :: nat)" "(8 :: nat) \<le> 64" by simp_all
  show ?case
  proof (rule good_leaf [of _ "Str (if b then [1] else [])"])
    fix s r
    assume s: "sinv s" "kind_ahead s = None" "inp s = enc_item (Str (if b then [1] else [])) @ r"
      "length (enc_item (Str (if b then [1] else []))) \<le> room s"
    obtain s' where "s_uint 8 s = (Inr ?i, s')" "after (length (enc_string (if b then [1] else []))) s s'"
      using s_uint_ok [OF s(1,2), of ?i r 8, unfolded e] s(3,4) u by auto
    then show "\<exists>s'. decodeBool s = (Inr (GBool b), s') \<and>
      after (length (enc_item (Str (if b then [1] else [])))) s s'"
      by (auto simp: decodeBool_def s_Bool_def)
  qed simp_all
next
  case (5 b)
  show ?case by (rule good_string [of _ b _ decodeString]) (simp_all add: decodeString_def)
next
  case (6 b)
  show ?case by (rule good_string [of _ b _ decodeByteSlice]) (simp_all add: decodeByteSlice_def)
next
  case (7 b n)
  show ?case
  proof (rule good_leaf [of _ "Str b" _ "decodeByteArray n"])
    fix s r
    assume "sinv s" "kind_ahead s = None" "inp s = enc_item (Str b) @ r"
      "length (enc_item (Str b)) \<le> room s"
    then show "\<exists>s'. decodeByteArray n s = (Inr (GByteArray b), s') \<and> after (length (enc_item (Str b))) s s'"
      using decodeByteArray_ok [of s b r n] 7 by simp
  qed simp_all
qed (use good_slice good_array good_struct good_ptr good_nil_ptr good_nil good_interface
      fields_good_Nil fields_good_Cons fields_good_tail in blast)+

section \<open>Properties\<close>



text \<open>
  C30: \<open>DecodeBytes\<close> into a raw value gives back the bytes of any item but a long string; there the
  first byte of the result is one too large, so that the raw value is not the input.
\<close>

theorem raw_value_spec:
  assumes "length (enc_item x) < 2 ^ 64"
  shows "DecodeBytes (Suc fuel) TRawValue (enc_item x) =
    Some (Inr (GRawValue
      (if long_string x then (hd (enc_item x) + 1) # tl (enc_item x) else enc_item x)))"
proof -
  let ?e = "enc_item x"
  let ?s = "NewStream ?e (word_of_nat (length ?e))"
  note N = sinv_NewStream [OF assms]
  obtain s' where "s_Raw ?s = (Inr (raw_result x), s')" "after (length ?e) ?s s'"
    using s_Raw_ok [OF N(1,2), of x "[]"] N(3,4) by auto
  then show ?thesis
    using N(3) by (simp add: DecodeBytes_def decodeRawValue_def after_def raw_result_def)
qed

theorem raw_value_spec_witness:
  "DecodeBytes 1 TRawValue (0xB8 # 56 # replicate 56 7) = Some (Inr (GRawValue (0xB9 # 56 # replicate 56 7)))"
proof -
  have e: "enc_item (Str (replicate 56 7)) = 0xB8 # 56 # replicate 56 7"
    by (simp add: enc_string_def string_kind_def enc_head_def puthead_def putint_small)
  have l: "length (enc_item (Str (replicate 56 7))) < 2 ^ 64" "long_string (Str (replicate 56 7))"
    by (simp_all add: e long_string_def del: enc_item.simps)
  show ?thesis using raw_value_spec [OF l(1), of 0] l(2) unfolding e by simp
qed

lemma byte_array_stuck:
  assumes "kind_ahead s = Some KByte" "kinderr s = None" "byteval s = 0"
  shows "decodeSliceElems fuel (TByteArray 1) s = None"
proof (induction fuel)
  case (Suc fuel)
  have "decodeByteArray 1 s = (Inr (GByteArray [0]), s)"
    using assms by (simp add: decodeByteArray_def s_Kind_def s_Uint_def s_uint_def)
  then show ?case using Suc by (cases fuel) simp_all
qed simp

text \<open>
  C33: A slice that holds the one-byte array zero is encoded as the bytes 0xC1 and 0x00. Decoding
  these bytes into the slice type never returns: whatever the fuel, it runs out.
\<close>

theorem byte_array_decode_diverges:
  "EncodeToBytes (GSlice False [GByteArray [0]]) \<lparr>str = [], lheads = [], lhsize = 0\<rparr> = Inr [0xC1, 0x00] \<and>
   DecodeBytes fuel (TSlice (TByteArray 1)) [0xC1, 0x00] = None"
proof
  show "EncodeToBytes (GSlice False [GByteArray [0]]) \<lparr>str = [], lheads = [], lhsize = 0\<rparr> =
    Inr [0xC1, 0x00]"
    using EncodeToBytes_enc_gval [of "GSlice False [GByteArray [0]]"]
    by (simp add: enc_list_def enc_string_def string_kind_def enc_head_def puthead_def)
  let ?s1 = "\<lparr>inp = [0], remaining = 1, limited = True, kind_ahead = None, sz_ahead = 0, byteval = 0,
    kinderr = None, lstack = [(0, 1)]\<rparr>"
  let ?s2 = "\<lparr>inp = [], remaining = 0, limited = True, kind_ahead = Some KByte, sz_ahead = 0, byteval = 0,
    kinderr = None, lstack = [(1, 1)]\<rparr>"
  have l: "s_List (NewStream [0xC1, 0x00] 2) = (Inr 1, ?s1)"
    by (simp add: NewStream_def s_List_def s_Kind_def s_readKind_def readByte_def willRead_def)
  have a: "decodeByteArray 1 ?s1 = (Inr (GByteArray [0]), ?s2)"
    by (simp add: decodeByteArray_def s_Kind_def s_readKind_def readByte_def willRead_def s_Uint_def
        s_uint_def)
  have "decodeSliceElems f (TByteArray 1) ?s1 = None" for f
  proof (cases f)
    case (Suc g)
    then show ?thesis using a byte_array_stuck [of ?s2 g] by (cases g) simp_all
  qed simp
  then have "decodeListSlice f (TByteArray 1) (NewStream [0xC1, 0x00] 2) = None" for f
    using l by (cases f) simp_all
  then have "decode_val fuel (TSlice (TByteArray 1)) (NewStream [0xC1, 0x00] 2) = None"
    by (cases fuel) simp_all
  then show "DecodeBytes fuel (TSlice (TByteArray 1)) [0xC1, 0x00] = None"
    by (simp add: DecodeBytes_def)
qed

end
