(* ===== verification/Trie_Encoding.thy ===== *)
theory Trie_Encoding
  imports GoBase
begin

text \<open>
  The key encodings of \<open>trie/encoding.go\<close>. A key of the trie is a list of nibbles, one to a byte, that
  ends with the terminator 16 when it belongs to a value; the compact form packs two nibbles to a
  byte behind a flag nibble. A slice index out of range is \<open>None\<close>.
\<close>

section \<open>The source functions\<close>

text \<open>
  The loop of \<open>compactEncode\<close>: \<open>bi\<close> is the index into the buffer, \<open>hs\<close> the shift that flips between 0
  and 4, and the list holds the nibbles from \<open>hi\<close> on.
\<close>

fun compactEncode_loop :: "bytes \<Rightarrow> nat \<Rightarrow> nat \<Rightarrow> bytes \<Rightarrow> bytes" where
  "compactEncode_loop buf bi hs [] = buf"
| "compactEncode_loop buf bi hs (h # hexs) =
     (if bi < length buf then
        compactEncode_loop (buf[bi := buf ! bi OR push_bit hs h]) (if hs = 0 then bi + 1 else bi)
          (if hs = 0 then 4 else 0) hexs
      else buf)"

definition compactEncode :: "bytes \<Rightarrow> bytes option" where
  "compactEncode hexSlice =
     (if hexSlice = [] then None
      else
        (let (terminator, hexSlice) =
               (if last hexSlice = 16 then (1, butlast hexSlice) else (0 :: byte, hexSlice));
             odd = word_of_nat (length hexSlice mod 2) :: byte;
             buflen = length hexSlice div 2 + 1;
             (bi, hs) = (if odd = 0 then (1, 4) else (0, 0));
             buf = (push_bit 5 terminator OR push_bit 4 odd) # replicate (buflen - 1) 0
         in Some (compactEncode_loop buf bi hs hexSlice)))"

definition compactHexDecode :: "bytes \<Rightarrow> bytes" where
  "compactHexDecode str = concat (map (\<lambda>b. [b div 16, b mod 16]) str) @ [16]"

definition compactDecode :: "bytes \<Rightarrow> bytes option" where
  "compactDecode str =
     (let base = butlast (compactHexDecode str) in
      case base of
        [] \<Rightarrow> None
      | b # _ \<Rightarrow>
          (let base = (if b \<ge> 2 then base @ [16] else base) in
           Some (if b mod 2 = 1 then drop 1 base else drop 2 base)))"

text \<open>
  \<open>compactHexEncode\<close> drops a terminator from the count \<open>nl\<close> only, and adds the second nibble of a pair
  whenever the first is within the count.
\<close>

definition compactHexEncode :: "bytes \<Rightarrow> bytes option" where
  "compactHexEncode nibbles =
     (if nibbles = [] then Some []
      else
        (let nl = (if last nibbles = 16 then length nibbles - 1 else length nibbles);
             l = (nl + 1) div 2;
             in_range = (\<lambda>i. i * 2 < length nibbles \<and> (i * 2 < nl \<longrightarrow> i * 2 + 1 < length nibbles))
         in if list_all in_range [0..<l]
            then Some (map (\<lambda>i. if i * 2 < nl then nibbles ! (i * 2) * 16 + nibbles ! (i * 2 + 1)
                                else nibbles ! (i * 2) * 16) [0..<l])
            else None))"

definition decodeCompact :: "bytes \<Rightarrow> bytes" where
  "decodeCompact key = map (\<lambda>i. key ! (2 * i) * 16 + key ! (2 * i + 1)) [0..<length key div 2]"

fun prefixLen :: "bytes \<Rightarrow> bytes \<Rightarrow> nat" where
  "prefixLen (a # as) (b # bs) = (if a \<noteq> b then 0 else Suc (prefixLen as bs))"
| "prefixLen _ _ = 0"

definition hasTerm :: "bytes \<Rightarrow> bool option" where
  "hasTerm s = (if s = [] then None else Some (last s = 16))"

definition remTerm :: "bytes \<Rightarrow> bytes option" where
  "remTerm s = (case hasTerm s of None \<Rightarrow> None | Some t \<Rightarrow> Some (if t then butlast s else s))"

section \<open>Nibbles\<close>

definition nibbles :: "bytes \<Rightarrow> bool" where
  "nibbles ns \<longleftrightarrow> (\<forall>n\<in>set ns. n < 16)"

text \<open>A key with terminator, and one without.\<close>

definition term_key :: "bytes \<Rightarrow> bool" where
  "term_key k \<longleftrightarrow> k \<noteq> [] \<and> last k = 16 \<and> nibbles (butlast k)"

definition hex_key :: "bytes \<Rightarrow> bool" where
  "hex_key k \<longleftrightarrow> k \<noteq> [] \<and> (nibbles k \<or> term_key k)"

fun pack :: "bytes \<Rightarrow> bytes" where
  "pack (a # b # ns) = (push_bit 4 a OR b) # pack ns"
| "pack ns = []"

lemma nibbles_simps [simp]:
  "nibbles []" "nibbles (n # ns) \<longleftrightarrow> n < 16 \<and> nibbles ns"
  "nibbles (ns @ ms) \<longleftrightarrow> nibbles ns \<and> nibbles ms"
  by (auto simp: nibbles_def)

lemma div_byte_less: "(b :: byte) div 16 < 16" "(b :: byte) mod 16 < 16"
proof -
  have "unat b div 16 < 16" using unat_byte_less [of b] by (simp add: div_less_iff_less_mult del: unat_byte_less)
  then show "b div 16 < 16" by (simp add: word_less_nat_alt unat_div)
  show "b mod 16 < 16" by (simp add: word_less_nat_alt unat_mod)
qed

lemma push_4_or:
  assumes "(a :: byte) < 16" "b < 16"
  shows "unat (push_bit 4 a OR b) = unat a * 16 + unat b" "unat a * 16 + unat b < 256"
proof -
  have t: "take_bit 4 b = b" using assms(2) by (simp add: take_bit_eq_mod word_unat_eq_iff unat_mod word_less_nat_alt)
  have disj: "push_bit 4 a AND b = 0"
  proof (rule bit_eqI)
    fix n assume "possible_bit TYPE(8 word) n"
    show "bit (push_bit 4 a AND b) n = bit (0 :: byte) n"
      by (subst t [symmetric]) (auto simp: bit_simps)
  qed
  have u: "unat a < 16" "unat b < 16" using assms by (simp_all add: word_less_nat_alt)
  then show lt: "unat a * 16 + unat b < 256" by linarith
  have "push_bit 4 a OR b = push_bit 4 a + b" using disj by (simp add: disjunctive_add_eq_or)
  with lt show "unat (push_bit 4 a OR b) = unat a * 16 + unat b"
    by (simp add: push_bit_eq_mult unat_word_ariths)
qed

lemma nibble_split:
  assumes "(a :: byte) < 16" "b < 16"
  shows "(push_bit 4 a OR b) div 16 = a" "(push_bit 4 a OR b) mod 16 = b"
proof -
  have "unat b < 16" using assms(2) by (simp add: word_less_nat_alt)
  then show "(push_bit 4 a OR b) div 16 = a" "(push_bit 4 a OR b) mod 16 = b"
    using push_4_or(1) [OF assms] by (simp_all add: word_unat_eq_iff unat_div unat_mod)
qed

section \<open>Compact encoding\<close>

lemma compactEncode_loop_even:
  "length hexs = 2 * (length buf - bi) \<Longrightarrow> bi \<le> length buf \<Longrightarrow>
   (\<forall>i. bi \<le> i \<longrightarrow> i < length buf \<longrightarrow> buf ! i = 0) \<Longrightarrow>
   compactEncode_loop buf bi 4 hexs = take bi buf @ pack hexs"
proof (induction hexs arbitrary: buf bi rule: pack.induct)
  case (1 a b ns)
  let ?buf = "buf[bi := push_bit 4 a OR b]"
  have bi: "bi < length buf" using "1.prems"(1) by simp
  then have z: "buf ! bi = 0" using "1.prems"(3) by simp
  have "compactEncode_loop buf bi 4 (a # b # ns) = compactEncode_loop ?buf (bi + 1) 4 ns"
    using bi z by simp
  also have "\<dots> = take (bi + 1) ?buf @ pack ns"
    using "1.prems" bi by (intro "1.IH") auto
  also have "\<dots> = take bi buf @ pack (a # b # ns)"
    using bi by (simp add: take_Suc_conv_app_nth take_update_cancel)
  finally show ?case .
qed auto

text \<open>The compact form of a key: the flag nibble, a padding nibble or the first nibble, the rest.\<close>

definition compact :: "bytes \<Rightarrow> bytes" where
  "compact k =
     (let t = (if last k = 16 then 2 else 0 :: byte); ns = (if last k = 16 then butlast k else k) in
      if even (length ns) then pack (t # 0 # ns) else pack ((t + 1) # ns))"

lemma compactEncode_compact:
  assumes "k \<noteq> []"
  shows "compactEncode k = Some (compact k)"
proof -
  define t where "t = (if last k = 16 then 1 else 0 :: byte)"
  define ns where "ns = (if last k = 16 then butlast k else k)"
  have t2: "push_bit 5 t = push_bit 4 (if last k = 16 then 2 else 0 :: byte)"
    "push_bit 5 t OR push_bit 4 1 = push_bit 4 ((if last k = 16 then 2 else 0) + 1 :: byte)"
    by (simp_all add: t_def push_bit_eq_mult)
  show ?thesis
  proof (cases "even (length ns)")
    case True
    then obtain m where m: "length ns = 2 * m" by blast
    let ?buf = "push_bit 5 t # replicate m 0 :: bytes"
    have "compactEncode_loop ?buf 1 4 ns = take 1 ?buf @ pack ns"
      using m by (intro compactEncode_loop_even) (auto simp: nth_Cons')
    then have "compactEncode k = Some (push_bit 5 t # pack ns)"
      using assms m True by (simp add: compactEncode_def Let_def t_def ns_def split: if_splits)
    then show ?thesis using True t2(1) by (simp add: compact_def ns_def Let_def)
  next
    case False
    then obtain m where m: "length ns = Suc (2 * m)" by (metis oddE Suc_eq_plus1)
    then obtain n ms where ns: "ns = n # ms" by (cases ns) auto
    let ?h = "push_bit 5 t OR push_bit 4 1 :: byte"
    let ?buf = "(?h OR n) # replicate m 0 :: bytes"
    have "compactEncode_loop (?h # replicate m 0) 0 0 ns = compactEncode_loop ?buf 1 4 ms"
      using ns by simp
    also have "\<dots> = take 1 ?buf @ pack ms"
      using m ns by (intro compactEncode_loop_even) (auto simp: nth_Cons')
    finally have "compactEncode k = Some ((?h OR n) # pack ms)"
      using assms m by (simp add: compactEncode_def Let_def t_def ns_def mod_Suc split: if_splits)
    then show ?thesis using False t2(2) ns by (simp add: compact_def ns_def Let_def)
  qed
qed

section \<open>Decoding\<close>

definition unpack :: "bytes \<Rightarrow> bytes" where
  "unpack str = concat (map (\<lambda>b. [b div 16, b mod 16]) str)"

lemma unpack_simps [simp]: "unpack [] = []" "unpack (b # str) = b div 16 # b mod 16 # unpack str"
  by (simp_all add: unpack_def)

lemma nibbles_unpack [simp]: "nibbles (unpack str)"
  by (induction str) (simp_all add: div_byte_less)

lemma length_unpack [simp]: "length (unpack str) = 2 * length str"
  by (induction str) simp_all

lemma unpack_pack: "nibbles ns \<Longrightarrow> even (length ns) \<Longrightarrow> unpack (pack ns) = ns"
  by (induction ns rule: pack.induct) (simp_all add: nibble_split)

lemma unpack_inj: "unpack xs = unpack ys \<Longrightarrow> xs = ys"
proof (induction xs arbitrary: ys)
  case Nil
  then show ?case by (cases ys) simp_all
next
  case (Cons x xs)
  then obtain y ys' where ys: "ys = y # ys'" by (cases ys) auto
  with Cons.prems have "x div 16 = y div 16" "x mod 16 = y mod 16" "unpack xs = unpack ys'" by simp_all
  then have "x = y" by (metis div_mult_mod_eq)
  with Cons.IH ys \<open>unpack xs = unpack ys'\<close> show ?case by simp
qed

lemma compactHexDecode_unpack: "compactHexDecode str = unpack str @ [16]"
  by (simp add: compactHexDecode_def unpack_def)

lemma compactHexDecode_inj: "compactHexDecode xs = compactHexDecode ys \<longleftrightarrow> xs = ys"
  using unpack_inj by (auto simp: compactHexDecode_unpack)

lemma term_key_compactHexDecode [simp]: "term_key (compactHexDecode str)"
  by (simp add: term_key_def compactHexDecode_unpack)

lemma compactDecode_unpack:
  "compactDecode (b # str) =
     Some (drop (if b div 16 mod 2 = 1 then 1 else 2)
       (unpack (b # str) @ (if b div 16 \<ge> 2 then [16] else [])))"
  by (simp add: compactDecode_def compactHexDecode_unpack Let_def)

lemma compactDecode_compact:
  assumes "hex_key k"
  shows "compactDecode (compact k) = Some k"
proof -
  define t where "t = (if last k = 16 then 2 else 0 :: byte)"
  define ns where "ns = (if last k = 16 then butlast k else k)"
  have l16: "\<not> nibbles k" if "last k = 16"
    using that assms last_in_set [of k] by (auto simp: nibbles_def hex_key_def)
  then have ns: "nibbles ns" and k: "k = ns @ (if t \<ge> 2 then [16] else [])"
    using assms by (auto simp: ns_def t_def hex_key_def term_key_def word_le_nat_alt
        dest: append_butlast_last_id)
  have t: "t < 16" "t + 1 < 16" "t mod 2 = 0" "(t + 1) mod 2 = 1" "t + 1 \<ge> 2 \<longleftrightarrow> t \<ge> 2"
    by (auto simp: t_def word_le_nat_alt)
  show ?thesis
  proof (cases "even (length ns)")
    case True
    then have c: "compact k = pack (t # 0 # ns)" by (simp add: compact_def t_def ns_def Let_def)
    have u: "unpack (pack (t # 0 # ns)) = t # 0 # ns" using True ns t by (intro unpack_pack) simp_all
    have "compactDecode (pack (t # 0 # ns)) = Some (ns @ (if t \<ge> 2 then [16] else []))"
      using u t by (simp add: compactDecode_unpack)
    then show ?thesis unfolding c k [symmetric] .
  next
    case False
    then obtain n ms where nm: "ns = n # ms" by (cases ns) auto
    have c: "compact k = pack ((t + 1) # ns)"
      using False by (simp add: compact_def t_def ns_def Let_def)
    have u: "unpack (pack ((t + 1) # ns)) = (t + 1) # ns"
      using False ns t by (intro unpack_pack) simp_all
    have "compactDecode (pack ((t + 1) # ns)) = Some (ns @ (if t \<ge> 2 then [16] else []))"
      using u t nm by (simp add: compactDecode_unpack)
    then show ?thesis unfolding c k [symmetric] .
  qed
qed

section \<open>Keys in error messages\<close>

lemma compactHexEncode_None_iff:
  "compactHexEncode ns = None \<longleftrightarrow> odd (length ns) \<and> last ns \<noteq> 16"
proof (cases "ns = []")
  case True
  then show ?thesis by (simp add: compactHexEncode_def)
next
  case False
  define nl where "nl = (if last ns = 16 then length ns - 1 else length ns)"
  have nl: "nl \<le> length ns" "last ns = 16 \<Longrightarrow> nl < length ns" using False by (auto simp: nl_def)
  have "list_all (\<lambda>i. i * 2 < length ns \<and> (i * 2 < nl \<longrightarrow> i * 2 + 1 < length ns)) [0..<(nl + 1) div 2] \<longleftrightarrow>
    \<not> (odd (length ns) \<and> last ns \<noteq> 16)"
  proof (cases "odd (length ns) \<and> last ns \<noteq> 16")
    case True
    then have "nl = length ns" by (simp add: nl_def)
    moreover obtain m where m: "length ns = 2 * m + 1" using True by (blast elim: oddE)
    ultimately have "m \<in> set [0..<(nl + 1) div 2]" "m * 2 < nl" "\<not> m * 2 + 1 < length ns" by auto
    then show ?thesis using True by (auto simp: list_all_iff)
  next
    case f: False
    have "i * 2 < length ns \<and> (i * 2 < nl \<longrightarrow> i * 2 + 1 < length ns)" if "i < (nl + 1) div 2" for i
    proof (cases "last ns = 16")
      case True
      then show ?thesis using nl that by simp
    next
      case False
      then have "even (length ns)" "nl = length ns" using f by (auto simp: nl_def)
      then show ?thesis using that by (auto elim!: evenE)
    qed
    then show ?thesis using f by (auto simp: list_all_iff)
  qed
  then show ?thesis using False by (simp add: compactHexEncode_def nl_def Let_def)
qed

lemma nth_unpack:
  "i < length str \<Longrightarrow> unpack str ! (i * 2) = str ! i div 16 \<and> unpack str ! (i * 2 + 1) = str ! i mod 16"
proof (induction str arbitrary: i)
  case (Cons b str)
  then show ?case by (cases i) simp_all
qed simp

lemma compactHexEncode_compactHexDecode: "compactHexEncode (compactHexDecode str) = Some str"
proof -
  have "compactHexEncode (compactHexDecode str) \<noteq> None"
    by (simp add: compactHexEncode_None_iff compactHexDecode_unpack)
  then have "compactHexEncode (compactHexDecode str) =
    Some (map (\<lambda>i. (unpack str @ [16]) ! (i * 2) * 16 + (unpack str @ [16]) ! (i * 2 + 1)) [0..<length str])"
    by (auto simp: compactHexEncode_def compactHexDecode_unpack Let_def split: if_splits)
  also have "map (\<lambda>i. (unpack str @ [16]) ! (i * 2) * 16 + (unpack str @ [16]) ! (i * 2 + 1)) [0..<length str] = str"
  proof (rule nth_equalityI)
    fix i
    assume "i < length (map (\<lambda>i. (unpack str @ [16]) ! (i * 2) * 16 + (unpack str @ [16]) ! (i * 2 + 1)) [0..<length str])"
    then have i: "i < length str" by simp
    then show "map (\<lambda>i. (unpack str @ [16]) ! (i * 2) * 16 + (unpack str @ [16]) ! (i * 2 + 1)) [0..<length str] ! i = str ! i"
      using nth_unpack [OF i] div_mult_mod_eq [of "str ! i" 16] by (simp add: nth_append)
  qed simp
  finally show ?thesis .
qed

section \<open>Common prefixes\<close>

lemma prefixLen_le: "prefixLen a b \<le> length a" "prefixLen a b \<le> length b"
  by (induction a b rule: prefixLen.induct) auto

lemma prefixLen_take: "take (prefixLen a b) a = take (prefixLen a b) b"
  by (induction a b rule: prefixLen.induct) auto

lemma prefixLen_full: "prefixLen a b = length b \<longleftrightarrow> take (length b) a = b"
proof (induction a b rule: prefixLen.induct)
  case (1 a as b bs)
  then show ?case using prefixLen_le(1) [of as bs] by auto
qed auto

lemma prefixLen_differ:
  "prefixLen a b < length a \<Longrightarrow> prefixLen a b < length b \<Longrightarrow> a ! prefixLen a b \<noteq> b ! prefixLen a b"
  by (induction a b rule: prefixLen.induct) auto

section \<open>Properties\<close>

text \<open>
  C29: The compact form of a key decodes to the key, for every key with or without terminator.
\<close>

theorem compact_roundtrip:
  assumes "hex_key k"
  shows "\<exists>c. compactEncode k = Some c \<and> compactDecode c = Some k"
  using assms compactEncode_compact [of k] compactDecode_compact [OF assms] by (auto simp: hex_key_def)

theorem compact_roundtrip_witness:
  "\<exists>c. compactEncode [1, 2, 3, 16] = Some c \<and> compactDecode c = Some [1, 2, 3, 16]"
  using compact_roundtrip [of "[1, 2, 3, 16]"] by (simp add: hex_key_def term_key_def)

text \<open>
  C34: \<open>compactHexEncode\<close> gives back the bytes of a key that was made by \<open>compactHexDecode\<close>, and it
  indexes out of range exactly on the nibble lists of odd length without terminator.
\<close>

theorem compactHexEncode_spec:
  "compactHexEncode (compactHexDecode str) = Some str \<and>
   (compactHexEncode ns = None \<longleftrightarrow> odd (length ns) \<and> last ns \<noteq> 16)"
  by (simp add: compactHexEncode_compactHexDecode compactHexEncode_None_iff)

end
