(* ===== verification/Trie_Node.thy ===== *)
theory Trie_Node
  imports RLP_Decode Trie_Encoding
begin

text \<open>
  The nodes of the Merkle Patricia trie and their serialised form: \<open>trie/node.go\<close> and \<open>trie/errors.go\<close>.
  The interface \<open>node\<close> is a datatype with its nil value as \<open>NilN\<close>; the 17 children of a full node are
  a list. The context strings that \<open>wrapError\<close> adds to an error are left out.
\<close>

record nodeFlag =
  fl_hash :: "bytes option"
  fl_gen :: u16
  fl_dirty :: bool

datatype node =
    NilN
  | FullN "node list" nodeFlag
  | ShortN bytes node nodeFlag
  | HashN bytes
  | ValueN bytes

record missing_node =
  mn_root :: bytes
  mn_node :: bytes
  mn_key :: bytes
  mn_prefixLen :: nat
  mn_suffixLen :: nat

datatype trie_err =
    NodeEOF
  | NodeRlp rlp_err
  | NodeCount nat
  | NodeValue rlp_err
  | NodeOversized nat
  | NodeStringSize nat
  | MissingNode missing_node
  | TriePanic

section \<open>Flags\<close>

text \<open>\<open>nodeFlag.canUnload\<close> subtracts generations as \<open>uint16\<close>.\<close>

definition canUnload_flag :: "nodeFlag \<Rightarrow> u16 \<Rightarrow> u16 \<Rightarrow> bool" where
  "canUnload_flag fl cachegen cachelimit \<longleftrightarrow> \<not> fl_dirty fl \<and> cachegen - fl_gen fl \<ge> cachelimit"

fun canUnload :: "node \<Rightarrow> u16 \<Rightarrow> u16 \<Rightarrow> bool" where
  "canUnload (FullN _ fl) gen limit \<longleftrightarrow> canUnload_flag fl gen limit"
| "canUnload (ShortN _ _ fl) gen limit \<longleftrightarrow> canUnload_flag fl gen limit"
| "canUnload _ gen limit \<longleftrightarrow> False"

fun node_cache :: "node \<Rightarrow> bytes option \<times> bool" where
  "node_cache (FullN _ fl) = (fl_hash fl, fl_dirty fl)"
| "node_cache (ShortN _ _ fl) = (fl_hash fl, fl_dirty fl)"
| "node_cache _ = (None, True)"

section \<open>Decoding\<close>

text \<open>
  \<open>rlp_result\<close> turns an error of the RLP package into one of the trie; a panic stays a panic.
\<close>

definition rlp_error :: "rlp_err \<Rightarrow> trie_err" where
  "rlp_error e = (if e = RlpPanic then TriePanic else NodeRlp e)"

lemma SplitList_shorter:
  assumes "SplitList buf = Inr (elems, rest)"
  shows "length elems < length buf"
proof -
  obtain ts cs where rk: "readKind buf = Inr (KList, ts, cs)" and e: "elems = take (unat cs) (drop (unat ts) buf)"
    using assms by (auto simp: SplitList_def Split_def split: sum.splits if_splits)
  have ne: "buf \<noteq> []" using rk by (auto simp: readKind_def)
  have "ts \<noteq> 0" using rk ucast_byte_Suc
    by (auto simp: readKind_def Let_def split: list.splits sum.splits if_splits)
  then have "0 < unat ts" by (simp add: unat_gt_0)
  with ne e show ?thesis by (auto simp: min_def)
qed

lemma SplitString_rest: "SplitString buf = Inr (val, rest) \<Longrightarrow> length rest \<le> length buf"
  by (auto simp: SplitString_def Split_def split: sum.splits if_splits)

lemma Split_rest: "Split buf = Inr (k, val, rest) \<Longrightarrow> length rest \<le> length buf"
  by (auto simp: Split_def split: sum.splits)

text \<open>
  \<open>decodeRef\<close> is a split of the buffer followed by a choice on the result; the choice is
  \<open>decodeRef_val\<close>, which is given the buffer, the kind, the value and the size of the element.
  The argument \<open>n\<close> of \<open>decodeChildren\<close> counts the children that \<open>decodeFull\<close> still has to read.
\<close>

function decodeNode :: "bytes option \<Rightarrow> bytes \<Rightarrow> u16 \<Rightarrow> trie_err + node"
  and decodeShort :: "bytes option \<Rightarrow> bytes \<Rightarrow> u16 \<Rightarrow> trie_err + node"
  and decodeFull :: "bytes option \<Rightarrow> bytes \<Rightarrow> u16 \<Rightarrow> trie_err + node"
  and decodeChildren :: "nat \<Rightarrow> bytes \<Rightarrow> u16 \<Rightarrow> trie_err + node list \<times> bytes"
  and decodeRef_val :: "bytes \<Rightarrow> kind \<Rightarrow> bytes \<Rightarrow> nat \<Rightarrow> u16 \<Rightarrow> trie_err + node" where
  "decodeNode hash buf cachegen =
     (if length buf = 0 then Inl NodeEOF
      else
        (case SplitList buf of
           Inl e \<Rightarrow> Inl (rlp_error e)
         | Inr (elems, _) \<Rightarrow>
             (if CountValues elems = Inl RlpPanic then Inl TriePanic
              else
                (let c = (case CountValues elems of Inl _ \<Rightarrow> 0 | Inr c \<Rightarrow> c) in
                 if c = 2 then decodeShort hash elems cachegen
                 else if c = 17 then decodeFull hash elems cachegen
                 else Inl (NodeCount c)))))"
| "decodeShort hash elems cachegen =
     (case SplitString elems of
        Inl e \<Rightarrow> Inl (rlp_error e)
      | Inr (kbuf, rest) \<Rightarrow>
          (let flag = \<lparr>fl_hash = hash, fl_gen = cachegen, fl_dirty = False\<rparr> in
           case compactDecode kbuf of
             None \<Rightarrow> Inl TriePanic
           | Some key \<Rightarrow>
               (if key = [] then Inl TriePanic
                else if last key = 16 then
                  (case SplitString rest of
                     Inl e \<Rightarrow> Inl (if e = RlpPanic then TriePanic else NodeValue e)
                   | Inr (val, _) \<Rightarrow> Inr (ShortN key (ValueN val) flag))
                else
                  (case Split rest of
                     Inl e \<Rightarrow> Inl (rlp_error e)
                   | Inr (k, val, rest') \<Rightarrow>
                       (case decodeRef_val rest k val (length rest - length rest') cachegen of
                          Inl e \<Rightarrow> Inl e
                        | Inr r \<Rightarrow> Inr (ShortN key r flag))))))"
| "decodeFull hash elems cachegen =
     (case decodeChildren 16 elems cachegen of
        Inl e \<Rightarrow> Inl e
      | Inr (children, elems) \<Rightarrow>
          (case SplitString elems of
             Inl e \<Rightarrow> Inl (rlp_error e)
           | Inr (val, _) \<Rightarrow>
               Inr (FullN (children @ [if length val > 0 then ValueN val else NilN])
                 \<lparr>fl_hash = hash, fl_gen = cachegen, fl_dirty = False\<rparr>)))"
| "decodeChildren n elems cachegen =
     (if n = 0 then Inr ([], elems)
      else
        (case Split elems of
           Inl e \<Rightarrow> Inl (rlp_error e)
         | Inr (k, val, rest) \<Rightarrow>
             (case decodeRef_val elems k val (length elems - length rest) cachegen of
                Inl e \<Rightarrow> Inl e
              | Inr cld \<Rightarrow>
                  (case decodeChildren (n - 1) rest cachegen of
                     Inl e \<Rightarrow> Inl e
                   | Inr (clds, rest') \<Rightarrow> Inr (cld # clds, rest')))))"
| "decodeRef_val buf k val sz cachegen =
     (if k = KList then
        (if sz > 32 then Inl (NodeOversized sz) else decodeNode None buf cachegen)
      else if k = KString \<and> length val = 0 then Inr NilN
      else if k = KString \<and> length val = 32 then Inr (HashN val)
      else Inl (NodeStringSize (length val)))"
  by pat_completeness auto
termination
  by (relation "inv_image (less_than <*lex*> less_than)
      (\<lambda>x. case x of
         Inl (Inl (_, buf, _)) \<Rightarrow> (5 * length buf, 0)
       | Inl (Inr (_, elems, _)) \<Rightarrow> (5 * length elems + 4, 0)
       | Inr (Inl (_, elems, _)) \<Rightarrow> (5 * length elems + 4, 0)
       | Inr (Inr (Inl (n, elems, _))) \<Rightarrow> (5 * length elems + 3, n)
       | Inr (Inr (Inr (buf, _, _, _, _))) \<Rightarrow> (5 * length buf + 1, 0 :: nat))")
    (auto dest!: SplitList_shorter SplitString_rest Split_rest)

definition decodeRef :: "bytes \<Rightarrow> u16 \<Rightarrow> trie_err + node \<times> bytes" where
  "decodeRef buf cachegen =
     (case Split buf of
        Inl e \<Rightarrow> Inl (rlp_error e)
      | Inr (k, val, rest) \<Rightarrow>
          (case decodeRef_val buf k val (length buf - length rest) cachegen of
             Inl e \<Rightarrow> Inl e
           | Inr n \<Rightarrow> Inr (n, rest)))"

text \<open>\<open>mustDecodeNode\<close> panics on every error.\<close>

definition mustDecodeNode :: "bytes \<Rightarrow> bytes \<Rightarrow> u16 \<Rightarrow> trie_err + node" where
  "mustDecodeNode hash buf cachegen =
     (case decodeNode (Some hash) buf cachegen of Inl _ \<Rightarrow> Inl TriePanic | Inr n \<Rightarrow> Inr n)"

declare decodeNode.simps [simp del] decodeShort.simps [simp del] decodeFull.simps [simp del]
  decodeChildren.simps [simp del] decodeRef_val.simps [simp del]

text \<open>A node that was decoded is a short or a full node, and the key of a short node is not empty.\<close>

lemma decodeShort_shape: "decodeShort hash elems gen = Inr n \<Longrightarrow> \<exists>k v fl. n = ShortN k v fl \<and> k \<noteq> []"
  by (auto simp: decodeShort.simps [of hash] Let_def split: sum.splits option.splits if_splits)

lemma decodeFull_shape: "decodeFull hash elems gen = Inr n \<Longrightarrow> \<exists>cs fl. n = FullN cs fl"
  by (auto simp: decodeFull.simps [of hash] split: sum.splits)

lemma decodeNode_shape:
  "decodeNode hash buf gen = Inr n \<Longrightarrow> (\<exists>k v fl. n = ShortN k v fl \<and> k \<noteq> []) \<or> (\<exists>cs fl. n = FullN cs fl)"
  by (auto simp: decodeNode.simps [of hash] Let_def split: sum.splits if_splits
      dest!: decodeShort_shape decodeFull_shape)

section \<open>Encoding\<close>

text \<open>
  The value that \<open>rlp.Encode\<close> sees for a node: a short node is a struct of key and child, a full node
  has its own encoder, which writes the array of children; the child of a node is an interface.
\<close>

fun node_gval :: "node \<Rightarrow> gval" where
  "node_gval NilN = GNilInterface"
| "node_gval (FullN cs fl) = GInterface (GEncoder (GSlice False (map node_gval cs)))"
| "node_gval (ShortN k v fl) = GInterface (GPtr (GStruct [GBytes k, node_gval v]))"
| "node_gval (HashN h) = GInterface (GBytes h)"
| "node_gval (ValueN v) = GInterface (GBytes v)"

fun node_item :: "node \<Rightarrow> item" where
  "node_item NilN = Lst []"
| "node_item (FullN cs fl) = Lst (map node_item cs)"
| "node_item (ShortN k v fl) = Lst [Str k, node_item v]"
| "node_item (HashN h) = Str h"
| "node_item (ValueN v) = Str v"

definition node_enc :: "node \<Rightarrow> bytes" where
  "node_enc n = enc_item (node_item n)"

lemma items_of_node: "items_of (node_gval n) = Some [node_item n]"
proof (induction n)
  case (FullN cs fl)
  then have "items_ofs (map node_gval cs) = Some (map node_item cs)" by (induction cs) simp_all
  then show ?case by simp
qed simp_all

lemma EncodeToBytes_node:
  "length (node_enc n) < 2 ^ 64 \<Longrightarrow> EncodeToBytes (node_gval n) eb = Inr (node_enc n)"
  using enc_gval_items(1) [OF items_of_node, of n] EncodeToBytes_enc_gval [of "node_gval n" eb]
  by (simp add: node_enc_def)

end
