(* ===== verification/Common.thy ===== *)
theory Common
  imports GoBase
begin

text \<open>
  The shared helpers of the package \<open>common\<close>: hashes and addresses made from bytes and from big
  integers (\<open>common/types.go\<close>), padding (\<open>common/bytes.go\<close>), 256-bit reductions of big integers
  (\<open>common/big.go\<close>) and modular exponentiation (\<open>common/math/exp.go\<close>). A \<open>big.Int\<close> is an \<open>int\<close>, a hash
  is a list of 32 bytes, an address one of 20 bytes.
\<close>

type_synonym hash = bytes
type_synonym address = bytes

section \<open>Big integers\<close>

definition BytesToBig :: "bytes \<Rightarrow> int" where
  "BytesToBig data = int (be_nat data)"

text \<open>The methods \<open>Bytes\<close>, \<open>Uint64\<close>, \<open>Int64\<close> and \<open>BitLen\<close> of a big integer.\<close>

definition big_Bytes :: "int \<Rightarrow> bytes" where
  "big_Bytes x = bigBytes (nat (abs x))"

definition big_Uint64 :: "int \<Rightarrow> u64" where
  "big_Uint64 x = word_of_int (abs x)"

definition big_Int64 :: "int \<Rightarrow> int" where
  "big_Int64 x = sint (word_of_int x :: u64)"

function bit_len :: "nat \<Rightarrow> nat" where
  "bit_len n = (if n = 0 then 0 else Suc (bit_len (n div 2)))"
  by pat_completeness auto
termination by (relation "measure id") auto

declare bit_len.simps [simp del]

definition big_BitLen :: "int \<Rightarrow> nat" where
  "big_BitLen x = bit_len (nat (abs x))"

definition tt256 :: int where
  "tt256 = push_bit 256 1"

definition tt255 :: int where
  "tt255 = push_bit 255 1"

definition U256 :: "int \<Rightarrow> int" where
  "U256 x = x AND (tt256 - 1)"

definition S256 :: "int \<Rightarrow> int" where
  "S256 x = (if x < tt255 then x else x - tt256)"

definition BigMax :: "int \<Rightarrow> int \<Rightarrow> int" where
  "BigMax x y = (if x < y then y else x)"

definition BigMin :: "int \<Rightarrow> int \<Rightarrow> int" where
  "BigMin x y = (if x > y then y else x)"

definition BigToBytes :: "int \<Rightarrow> nat \<Rightarrow> bytes" where
  "BigToBytes num base =
     (if length (big_Bytes num) > base div 8 then big_Bytes num
      else replicate (base div 8 - length (big_Bytes num)) 0 @ big_Bytes num)"

section \<open>Padding\<close>

text \<open>The length argument is a Go \<open>int\<close>, and so it may be negative.\<close>

definition RightPadBytes :: "bytes \<Rightarrow> int \<Rightarrow> bytes" where
  "RightPadBytes sl l =
     (if l < int (length sl) then sl else sl @ replicate (nat l - length sl) 0)"

definition LeftPadBytes :: "bytes \<Rightarrow> int \<Rightarrow> bytes" where
  "LeftPadBytes sl l =
     (if l < int (length sl) then sl else replicate (nat l - length sl) 0 @ sl)"

section \<open>Hashes and addresses\<close>

definition BytesToHash :: "bytes \<Rightarrow> bytes" where
  "BytesToHash b =
     (let b = (if length b > 32 then drop (length b - 32) b else b)
      in replicate (32 - length b) 0 @ b)"

definition BytesToAddress :: "bytes \<Rightarrow> address" where
  "BytesToAddress b =
     (let b = (if length b > 20 then drop (length b - 20) b else b)
      in replicate (20 - length b) 0 @ b)"

definition BigToHash :: "int \<Rightarrow> hash" where
  "BigToHash b = BytesToHash (big_Bytes b)"

definition BigToAddress :: "int \<Rightarrow> address" where
  "BigToAddress b = BytesToAddress (big_Bytes b)"

definition EmptyHash :: "hash \<Rightarrow> bool" where
  "EmptyHash h \<longleftrightarrow> h = replicate 32 0"

section \<open>Exponentiation\<close>

text \<open>
  \<open>Exp\<close> runs over the 64-bit words of the exponent, the least significant first, and over the bits of
  each word. \<open>big_Bits\<close> is the method \<open>Bits\<close> of a big integer.
\<close>

function big_Bits :: "nat \<Rightarrow> u64 list" where
  "big_Bits n = (if n = 0 then [] else word_of_nat n # big_Bits (n div 2 ^ 64))"
  by pat_completeness auto
termination by (relation "measure id") auto

declare big_Bits.simps [simp del]

fun Exp_word :: "nat \<Rightarrow> u64 \<Rightarrow> int \<Rightarrow> int \<Rightarrow> int \<times> int" where
  "Exp_word 0 w result base = (result, base)"
| "Exp_word (Suc i) w result base =
     Exp_word i (drop_bit 1 w) (if w AND 1 = 1 then U256 (result * base) else result) (U256 (base * base))"

fun Exp_words :: "u64 list \<Rightarrow> int \<Rightarrow> int \<Rightarrow> int" where
  "Exp_words [] result base = result"
| "Exp_words (w # ws) result base =
     (case Exp_word 64 w result base of (result, base) \<Rightarrow> Exp_words ws result base)"

definition Exp :: "int \<Rightarrow> int \<Rightarrow> int" where
  "Exp base exponent = Exp_words (big_Bits (nat (abs exponent))) 1 base"

section \<open>Lemmas\<close>

lemma tt256_eq: "tt256 = 2 ^ 256"
  by (simp add: tt256_def push_bit_eq_mult)

lemma tt255_eq: "tt256 = 2 * tt255" "tt255 = 2 ^ 255"
  by (simp_all add: tt255_def tt256_def push_bit_eq_mult)

lemma tt256_pos [simp]: "0 < tt256" "0 \<le> tt256" "1 < tt256" "0 < tt255" "tt255 < tt256" "tt256 \<noteq> 0"
  by (simp_all add: tt255_eq)

lemma U256_mod: "U256 x = x mod tt256"
  using take_bit_eq_mask [of 256 x] by (simp add: U256_def tt256_eq take_bit_eq_mod mask_eq_exp_minus_1)

lemma U256_bounds [simp]: "0 \<le> U256 x" "U256 x < tt256"
  by (simp_all add: U256_mod)

lemma U256_id: "0 \<le> x \<Longrightarrow> x < tt256 \<Longrightarrow> U256 x = x"
  by (simp add: U256_mod)

lemma length_BytesToHash [simp]: "length (BytesToHash b) = 32"
  by (simp add: BytesToHash_def Let_def)

lemma length_BytesToAddress [simp]: "length (BytesToAddress b) = 20"
  by (simp add: BytesToAddress_def Let_def)

lemma BytesToHash_id: "length h = 32 \<Longrightarrow> BytesToHash h = h"
  by (simp add: BytesToHash_def)

lemma be_nat_replicate_0: "be_nat (replicate n 0 @ b) = be_nat b"
  by (induction n) (simp_all add: be_nat_Cons)

lemma length_bigBytes: "length (bigBytes n) \<le> k \<longleftrightarrow> n < 256 ^ k"
proof
  assume "length (bigBytes n) \<le> k"
  then have "(256 :: nat) ^ length (bigBytes n) \<le> 256 ^ k" by (intro power_increasing) simp_all
  moreover have "n < 256 ^ length (bigBytes n)" using be_nat_bound [of "bigBytes n"] by (simp add: be_nat_bigBytes)
  ultimately show "n < 256 ^ k" by linarith
next
  show "n < 256 ^ k \<Longrightarrow> length (bigBytes n) \<le> k"
  proof (induction k arbitrary: n)
    case (Suc k)
    show ?case
    proof (cases "n = 0")
      case False
      have "n div 256 < 256 ^ k" using Suc.prems by (simp add: div_less_iff_less_mult mult.commute)
      then show ?thesis using Suc.IH False by (simp add: bigBytes.simps [of n])
    qed (simp add: bigBytes.simps)
  qed (simp add: bigBytes.simps)
qed

lemma length_big_Bytes: "0 \<le> x \<Longrightarrow> x < tt256 \<Longrightarrow> length (big_Bytes x) \<le> 32"
  by (simp add: big_Bytes_def length_bigBytes nat_less_iff tt256_eq)

lemma unat_big_Uint64: "unat (big_Uint64 x) = nat x" if "0 \<le> x" "x < 2 ^ 64"
  using that by (simp add: big_Uint64_def unat_eq_nat_uint uint_word_of_int)

lemma big_Int64_id: "big_Int64 x = x" if "0 \<le> x" "x < 2 ^ 63"
  using that by (simp add: big_Int64_def sint_uint uint_word_of_int signed_take_bit_int_eq_self)

text \<open>A hash made of a 256-bit integer denotes that integer.\<close>

lemma BytesToBig_BigToHash:
  assumes "0 \<le> x" "x < tt256"
  shows "BytesToBig (BigToHash x) = x"
  using length_big_Bytes [OF assms] assms
  by (simp add: BigToHash_def BytesToHash_def BytesToBig_def be_nat_replicate_0 Let_def)
    (simp add: big_Bytes_def be_nat_bigBytes)

lemma BigToBytes_256:
  assumes "0 \<le> x" "x < tt256"
  shows "length (BigToBytes x 256) = 32" "BytesToBig (BigToBytes x 256) = x"
  using length_big_Bytes [OF assms] assms
  by (simp_all add: BigToBytes_def BytesToBig_def be_nat_replicate_0) (simp add: big_Bytes_def be_nat_bigBytes)

text \<open>Exponentiation by squaring computes the power.\<close>

lemma U256_mult: "U256 (U256 a * U256 b) = U256 (a * b)" "U256 (U256 a * b) = U256 (a * b)" "U256 (U256 a) = U256 a"
  by (simp_all add: U256_mod mod_simps)

lemma U256_power: "U256 (U256 a ^ n) = U256 (a ^ n)"
  by (simp add: U256_mod power_mod)

lemma U256_mult_power: "U256 (a * U256 b ^ n) = U256 (a * b ^ n)" "U256 (U256 a * U256 b ^ n) = U256 (a * b ^ n)"
proof -
  show *: "U256 (a * U256 b ^ n) = U256 (a * b ^ n)" for a
    unfolding U256_mod by (metis mod_mult_right_eq power_mod)
  show "U256 (U256 a * U256 b ^ n) = U256 (a * b ^ n)"
    unfolding * U256_mult(2) ..
qed

lemma Exp_word_eq:
  "Exp_word i w result base = (r, b) \<Longrightarrow>
   U256 r = U256 (result * base ^ (unat w mod 2 ^ i)) \<and> U256 b = U256 (base ^ (2 ^ i))"
proof (induction i arbitrary: w result base)
  case (Suc i)
  let ?r = "if w AND 1 = 1 then U256 (result * base) else result" and ?b = "U256 (base * base)"
  have IH: "U256 r = U256 (?r * ?b ^ (unat (drop_bit 1 w) mod 2 ^ i))" "U256 b = U256 (?b ^ (2 ^ i))"
    using Suc.IH [of "drop_bit 1 w" ?r ?b] Suc.prems by simp_all
  have sq: "(base * base) ^ n = base ^ (2 * n)" for n by (simp add: power_mult power2_eq_square)
  have w: "unat w mod 2 ^ Suc i = unat w mod 2 + 2 * (unat (drop_bit 1 w) mod 2 ^ i)"
    by (simp add: unat_drop_bit_eq drop_bit_eq_div unat_div mod_mult2_eq mult.commute add.commute flip: One_nat_def)
  have odd: "w AND 1 = 1 \<longleftrightarrow> unat w mod 2 = 1"
    by (simp add: and_one_eq word_unat_eq_iff unat_mod)
  have "U256 (?r * ?b ^ n) = U256 (?r * (base * base) ^ n)" for n
    by (rule U256_mult_power(1))
  then have "U256 r = U256 (?r * base ^ (2 * (unat (drop_bit 1 w) mod 2 ^ i)))" using IH(1) sq by simp
  also have "\<dots> = U256 (result * base ^ (unat w mod 2 ^ Suc i))"
    unfolding w using odd by (cases "w AND 1 = 1") (auto simp: U256_mult power_add mult.assoc)
  finally have "U256 r = U256 (result * base ^ (unat w mod 2 ^ Suc i))" .
  moreover have "U256 b = U256 (base ^ (2 ^ Suc i))" using IH(2) sq [of "2 ^ i"] by (simp add: U256_power)
  ultimately show ?case by simp
qed simp

fun words_nat :: "u64 list \<Rightarrow> nat" where
  "words_nat [] = 0"
| "words_nat (w # ws) = unat w + 2 ^ 64 * words_nat ws"

lemma words_nat_big_Bits: "words_nat (big_Bits n) = n"
proof (induction n rule: big_Bits.induct)
  case (1 n)
  then show ?case by (cases "n = 0") (simp_all add: big_Bits.simps [of n] unat_of_nat big_Bits.simps [of 0])
qed

lemma unat_u64_mod: "unat (w :: u64) mod 2 ^ 64 = unat w"
proof -
  have "unat w < 2 ^ 64" using unsigned_less [of w] by simp
  then show ?thesis by simp
qed

lemma Exp_words_eq: "U256 (Exp_words ws result base) = U256 (result * base ^ words_nat ws)"
proof (induction ws arbitrary: result base)
  case (Cons w ws)
  obtain r b where rb: "Exp_word 64 w result base = (r, b)" by (cases "Exp_word 64 w result base")
  have e: "U256 r = U256 (result * base ^ unat w)" "U256 b = U256 (base ^ (2 ^ 64))"
    using Exp_word_eq [OF rb] unat_u64_mod [of w] by simp_all
  have "U256 (Exp_words (w # ws) result base) = U256 (U256 r * U256 b ^ words_nat ws)"
    using Cons.IH [of r b] rb by (simp add: U256_mult_power U256_mult del: Exp_word.simps)
  also have "\<dots> = U256 (result * base ^ unat w * (base ^ (2 ^ 64)) ^ words_nat ws)"
    unfolding e by (rule U256_mult_power(2))
  also have "\<dots> = U256 (result * base ^ words_nat (w # ws))"
    by (simp only: words_nat.simps power_add power_mult mult.assoc)
  finally show ?case .
qed simp

lemma Exp_words_bounds: "0 \<le> result \<Longrightarrow> result < tt256 \<Longrightarrow> 0 \<le> Exp_words ws result base \<and> Exp_words ws result base < tt256"
proof (induction ws arbitrary: result base)
  case (Cons w ws)
  have "0 \<le> fst (Exp_word i w r b) \<and> fst (Exp_word i w r b) < tt256" if "0 \<le> r" "r < tt256" for i w r b
    using that by (induction i arbitrary: w r b) auto
  from this [OF Cons.prems, of 64 w base] show ?case
    using Cons.IH by (cases "Exp_word 64 w result base") (simp del: Exp_word.simps)
qed simp

lemma Exp_eq: "0 \<le> exponent \<Longrightarrow> Exp base exponent = base ^ nat exponent mod tt256"
  using Exp_words_eq [of "big_Bits (nat exponent)" 1 base] Exp_words_bounds [of 1 "big_Bits (nat exponent)" base]
  by (simp add: Exp_def words_nat_big_Bits U256_mod)

end
