(* ===== verification/Trie_Ops.thy ===== *)
theory Trie_Ops
  imports Trie_Node Common
begin

text \<open>
  The operations of \<open>trie/trie.go\<close> on a trie whose nodes are partly in memory and partly behind hash
  nodes in a database: \<open>New\<close>, \<open>TryGet\<close>, \<open>TryUpdate\<close>, \<open>TryDelete\<close> and the recursive functions below them.

  The database is an argument of the trie: \<open>db.Get\<close> is a partial function from keys to values, a nil
  database is \<open>None\<close>. A run time panic (an index out of range, the failed type assertion, the
  undecodable node) is the error \<open>TriePanic\<close>. The metrics counters and the log lines are left out.
\<close>

record Trie =
  t_root :: node
  t_db :: "(bytes \<Rightarrow> bytes option) option"
  t_originalRoot :: bytes
  t_cachegen :: u16
  t_cachelimit :: u16

definition emptyRoot :: bytes where
  "emptyRoot =
     [0x56, 0xe8, 0x1f, 0x17, 0x1b, 0xcc, 0x55, 0xa6, 0xff, 0x83, 0x45, 0xe6, 0x92, 0xc0, 0xf8, 0x6e,
      0x5b, 0x48, 0xe0, 0x1b, 0x99, 0x6c, 0xad, 0xc0, 0x01, 0x62, 0x2f, 0xb5, 0xe3, 0x63, 0xb4, 0x21]"

definition SetCacheLimit :: "Trie \<Rightarrow> u16 \<Rightarrow> Trie" where
  "SetCacheLimit t l = t\<lparr>t_cachelimit := l\<rparr>"

definition newFlag :: "Trie \<Rightarrow> nodeFlag" where
  "newFlag t = \<lparr>fl_hash = None, fl_gen = t_cachegen t, fl_dirty = True\<rparr>"

definition resolveHash :: "Trie \<Rightarrow> bytes \<Rightarrow> bytes \<Rightarrow> bytes \<Rightarrow> trie_err + node" where
  "resolveHash t n prefix suffix =
     (case t_db t of
        None \<Rightarrow> Inl TriePanic
      | Some get \<Rightarrow>
          (case get n of
             None \<Rightarrow>
               (case compactHexEncode (prefix @ suffix) of
                  None \<Rightarrow> Inl TriePanic
                | Some key \<Rightarrow>
                    Inl (MissingNode \<lparr>mn_root = t_originalRoot t, mn_node = BytesToHash n, mn_key = key,
                      mn_prefixLen = length prefix, mn_suffixLen = length suffix\<rparr>))
           | Some enc \<Rightarrow> mustDecodeNode n enc (t_cachegen t)))"

definition resolve :: "Trie \<Rightarrow> node \<Rightarrow> bytes \<Rightarrow> bytes \<Rightarrow> trie_err + node" where
  "resolve t n prefix suffix = (case n of HashN h \<Rightarrow> resolveHash t h prefix suffix | _ \<Rightarrow> Inr n)"

definition New :: "bytes \<Rightarrow> (bytes \<Rightarrow> bytes option) option \<Rightarrow> trie_err + Trie" where
  "New root db =
     (let trie = \<lparr>t_root = NilN, t_db = db, t_originalRoot = root, t_cachegen = 0, t_cachelimit = 0\<rparr> in
      if root \<noteq> replicate 32 0 \<and> root \<noteq> emptyRoot then
        (if db = None then Inl TriePanic
         else
           (case resolveHash trie root [] [] of
              Inl e \<Rightarrow> Inl e
            | Inr rootnode \<Rightarrow> Inr (trie\<lparr>t_root := rootnode\<rparr>)))
      else Inr trie)"

section \<open>Termination\<close>

text \<open>
  The recursive functions descend along the key. They stay at the same key when they load a hash node,
  and below a short node with an empty key; \<open>weight\<close> counts these steps. A node that was loaded has
  weight zero, so no chain of database entries keeps them at the same key.
\<close>

fun weight :: "node \<Rightarrow> nat" where
  "weight (ShortN k v _) = (if k = [] then Suc (weight v) else 0)"
| "weight (HashN _) = 1"
| "weight _ = 0"

lemma resolveHash_shape:
  assumes "resolveHash t h prefix suffix = Inr n"
  shows "(\<exists>k v fl. n = ShortN k v fl \<and> k \<noteq> []) \<or> (\<exists>cs fl. n = FullN cs fl)"
proof -
  obtain enc where "decodeNode (Some h) enc (t_cachegen t) = Inr n"
    using assms by (auto simp: resolveHash_def mustDecodeNode_def split: option.splits sum.splits)
  then show ?thesis by (rule decodeNode_shape)
qed

lemma resolveHash_weight: "resolveHash t h prefix suffix = Inr n \<Longrightarrow> weight n = 0"
  using resolveHash_shape by fastforce

lemma resolveHash_not_Nil: "resolveHash t h prefix suffix = Inr n \<Longrightarrow> n \<noteq> NilN"
  using resolveHash_shape by blast

lemma length_shrinks: "xs \<noteq> [] \<Longrightarrow> length ys \<le> length xs - pos \<Longrightarrow> ys \<noteq> [] \<Longrightarrow> length xs - (pos + length ys) < length xs - pos"
  by (cases ys) auto

lemma length_prefixLen: "length b = prefixLen a b \<Longrightarrow> b \<noteq> [] \<Longrightarrow> length a - prefixLen a b < length a"
  using prefixLen_le(1) [of a b] by (cases b) auto

lemma delete_progress: "\<not> prefixLen a b < length b \<Longrightarrow> b \<noteq> [] \<Longrightarrow> length a - length b < length a"
  using length_prefixLen [of b a] prefixLen_le(2) [of a b] by fastforce

section \<open>Get\<close>

function tryGet :: "Trie \<Rightarrow> node \<Rightarrow> bytes \<Rightarrow> nat \<Rightarrow> trie_err + bytes option \<times> node \<times> bool" where
  "tryGet t NilN key pos = Inr (None, NilN, False)"
| "tryGet t (ValueN v) key pos = Inr (Some v, ValueN v, False)"
| "tryGet t (ShortN k v fl) key pos =
     (if length key < pos + length k \<or> take (length k) (drop pos key) \<noteq> k then
        Inr (None, ShortN k v fl, False)
      else
        (case tryGet t v key (pos + length k) of
           Inl e \<Rightarrow> Inl e
         | Inr (val, newnode, didResolve) \<Rightarrow>
             Inr (val, if didResolve then ShortN k newnode (fl\<lparr>fl_gen := t_cachegen t\<rparr>) else ShortN k v fl,
               didResolve)))"
| "tryGet t (FullN cs fl) key pos =
     (if \<not> pos < length key \<or> \<not> unat (key ! pos) < length cs then Inl TriePanic
      else
        (case tryGet t (cs ! unat (key ! pos)) key (pos + 1) of
           Inl e \<Rightarrow> Inl e
         | Inr (val, newnode, didResolve) \<Rightarrow>
             Inr (val,
               if didResolve then FullN (cs[unat (key ! pos) := newnode]) (fl\<lparr>fl_gen := t_cachegen t\<rparr>)
               else FullN cs fl, didResolve)))"
| "tryGet t (HashN h) key pos =
     (case resolveHash t h (take pos key) (drop pos key) of
        Inl e \<Rightarrow> Inl e
      | Inr child \<Rightarrow>
          (case tryGet t child key pos of
             Inl e \<Rightarrow> Inl e
           | Inr (val, newnode, _) \<Rightarrow> Inr (val, newnode, True)))"
  by pat_completeness auto
termination
  by (relation "measures [\<lambda>(t, n, key, pos). length key - pos, \<lambda>(t, n, key, pos). weight n]")
    (auto dest: resolveHash_weight intro!: length_shrinks)

definition TryGet :: "Trie \<Rightarrow> bytes \<Rightarrow> (trie_err + bytes option) \<times> Trie" where
  "TryGet t key =
     (let key = compactHexDecode key in
      case tryGet t (t_root t) key 0 of
        Inl e \<Rightarrow> (Inl e, t)
      | Inr (val, newroot, didResolve) \<Rightarrow> (Inr val, if didResolve then t\<lparr>t_root := newroot\<rparr> else t))"

section \<open>Insert\<close>

text \<open>
  \<open>insert\<close> returns whether the node changed, and the node that replaces it. The error branches of the
  source return a node as well, which no caller uses.
\<close>

function insert_node :: "Trie \<Rightarrow> node \<Rightarrow> bytes \<Rightarrow> bytes \<Rightarrow> node \<Rightarrow> trie_err + bool \<times> node" where
  "insert_node t n prefix key val =
     (if key = [] then
        (case n of
           ValueN v \<Rightarrow> (case val of ValueN w \<Rightarrow> Inr (v \<noteq> w, val) | _ \<Rightarrow> Inl TriePanic)
         | _ \<Rightarrow> Inr (True, val))
      else
        (case n of
           ShortN nk nv fl \<Rightarrow>
             (let matchlen = prefixLen key nk in
              if matchlen = length nk then
                (case insert_node t nv (prefix @ take matchlen key) (drop matchlen key) val of
                   Inl e \<Rightarrow> Inl e
                 | Inr (dirty, nn) \<Rightarrow>
                     if dirty then Inr (True, ShortN nk nn (newFlag t)) else Inr (False, ShortN nk nv fl))
              else if \<not> unat (nk ! matchlen) < 17 then Inl TriePanic
              else
                (case insert_node t NilN (prefix @ take (matchlen + 1) nk) (drop (matchlen + 1) nk) nv of
                   Inl e \<Rightarrow> Inl e
                 | Inr (_, c1) \<Rightarrow>
                     if \<not> matchlen < length key \<or> \<not> unat (key ! matchlen) < 17 then Inl TriePanic
                     else
                       (case insert_node t NilN (prefix @ take (matchlen + 1) key) (drop (matchlen + 1) key) val of
                          Inl e \<Rightarrow> Inl e
                        | Inr (_, c2) \<Rightarrow>
                            (let branch = FullN ((replicate 17 NilN)
                                   [unat (nk ! matchlen) := c1, unat (key ! matchlen) := c2]) (newFlag t)
                             in if matchlen = 0 then Inr (True, branch)
                                else Inr (True, ShortN (take matchlen key) branch (newFlag t))))))
         | FullN cs fl \<Rightarrow>
             (if \<not> unat (hd key) < length cs then Inl TriePanic
              else
                (case insert_node t (cs ! unat (hd key)) (prefix @ [hd key]) (tl key) val of
                   Inl e \<Rightarrow> Inl e
                 | Inr (dirty, nn) \<Rightarrow>
                     if dirty then Inr (True, FullN (cs[unat (hd key) := nn]) (newFlag t))
                     else Inr (False, FullN cs fl)))
         | NilN \<Rightarrow> Inr (True, ShortN key val (newFlag t))
         | HashN h \<Rightarrow>
             (case resolveHash t h prefix key of
                Inl e \<Rightarrow> Inl e
              | Inr rn \<Rightarrow>
                  (case insert_node t rn prefix key val of
                     Inl e \<Rightarrow> Inl e
                   | Inr (dirty, nn) \<Rightarrow> if dirty then Inr (True, nn) else Inr (False, rn)))
         | ValueN v \<Rightarrow> Inl TriePanic))"
  by pat_completeness auto
termination
  by (relation "measures [\<lambda>(t, n, prefix, key, val). if n = NilN then 0 else 1,
      \<lambda>(t, n, prefix, key, val). length key, \<lambda>(t, n, prefix, key, val). weight n]")
    (auto dest: resolveHash_weight resolveHash_not_Nil intro: length_prefixLen)

declare insert_node.simps [simp del]

section \<open>Delete\<close>

text \<open>
  The loop of \<open>delete\<close> over the children: -1 when all are nil, the index of the single one that is not,
  -2 when there are at least two.
\<close>

fun delete_scan :: "int \<Rightarrow> int \<Rightarrow> node list \<Rightarrow> int" where
  "delete_scan i pos [] = pos"
| "delete_scan i pos (cld # cs) =
     (if cld \<noteq> NilN then (if pos = -1 then delete_scan (i + 1) i cs else -2)
      else delete_scan (i + 1) pos cs)"

definition delete_reduce :: "Trie \<Rightarrow> node list \<Rightarrow> bytes \<Rightarrow> trie_err + bool \<times> node" where
  "delete_reduce t cs prefix =
     (let pos = delete_scan 0 (-1) cs; short = ShortN [word_of_int pos] (cs ! nat pos) (newFlag t) in
      if pos \<ge> 0 then
        (if pos \<noteq> 16 then
           (case resolve t (cs ! nat pos) prefix [word_of_int pos] of
              Inl e \<Rightarrow> Inl e
            | Inr cnode \<Rightarrow>
                (case cnode of
                   ShortN ck cv _ \<Rightarrow> Inr (True, ShortN (word_of_int pos # ck) cv (newFlag t))
                 | _ \<Rightarrow> Inr (True, short)))
         else Inr (True, short))
      else Inr (True, FullN cs (newFlag t)))"

function delete :: "Trie \<Rightarrow> node \<Rightarrow> bytes \<Rightarrow> bytes \<Rightarrow> trie_err + bool \<times> node" where
  "delete t (ShortN nk nv fl) prefix key =
     (let matchlen = prefixLen key nk in
      if matchlen < length nk then Inr (False, ShortN nk nv fl)
      else if matchlen = length key then Inr (True, NilN)
      else
        (case delete t nv (prefix @ take (length nk) key) (drop (length nk) key) of
           Inl e \<Rightarrow> Inl e
         | Inr (dirty, child) \<Rightarrow>
             if \<not> dirty then Inr (False, ShortN nk nv fl)
             else
               (case child of
                  ShortN ck cv _ \<Rightarrow> Inr (True, ShortN (nk @ ck) cv (newFlag t))
                | _ \<Rightarrow> Inr (True, ShortN nk child (newFlag t)))))"
| "delete t (FullN cs fl) prefix key =
     (if key = [] \<or> \<not> unat (hd key) < length cs then Inl TriePanic
      else
        (case delete t (cs ! unat (hd key)) (prefix @ [hd key]) (tl key) of
           Inl e \<Rightarrow> Inl e
         | Inr (dirty, nn) \<Rightarrow>
             if \<not> dirty then Inr (False, FullN cs fl)
             else delete_reduce t (cs[unat (hd key) := nn]) prefix))"
| "delete t (ValueN v) prefix key = Inr (True, NilN)"
| "delete t NilN prefix key = Inr (False, NilN)"
| "delete t (HashN h) prefix key =
     (case resolveHash t h prefix key of
        Inl e \<Rightarrow> Inl e
      | Inr rn \<Rightarrow>
          (case delete t rn prefix key of
             Inl e \<Rightarrow> Inl e
           | Inr (dirty, nn) \<Rightarrow> if dirty then Inr (True, nn) else Inr (False, rn)))"
  by pat_completeness auto
termination
  by (relation "measures [\<lambda>(t, n, prefix, key). length key, \<lambda>(t, n, prefix, key). weight n]")
    (auto dest: resolveHash_weight dest!: delete_progress)

definition TryDelete :: "Trie \<Rightarrow> bytes \<Rightarrow> trie_err option \<times> Trie" where
  "TryDelete t key =
     (let k = compactHexDecode key in
      case delete t (t_root t) [] k of
        Inl e \<Rightarrow> (Some e, t)
      | Inr (_, n) \<Rightarrow> (None, t\<lparr>t_root := n\<rparr>))"

definition TryUpdate :: "Trie \<Rightarrow> bytes \<Rightarrow> bytes \<Rightarrow> trie_err option \<times> Trie" where
  "TryUpdate t key val =
     (let k = compactHexDecode key in
      if length val \<noteq> 0 then
        (case insert_node t (t_root t) [] k (ValueN val) of
           Inl e \<Rightarrow> (Some e, t)
         | Inr (_, n) \<Rightarrow> (None, t\<lparr>t_root := n\<rparr>))
      else
        (case delete t (t_root t) [] k of
           Inl e \<Rightarrow> (Some e, t)
         | Inr (_, n) \<Rightarrow> (None, t\<lparr>t_root := n\<rparr>)))"

text \<open>\<open>Get\<close>, \<open>Update\<close> and \<open>Delete\<close> only log an error; a panic is not caught.\<close>

definition Get :: "Trie \<Rightarrow> bytes \<Rightarrow> (trie_err + bytes option) \<times> Trie" where
  "Get t key =
     (case TryGet t key of
        (Inl e, t') \<Rightarrow> (if e = TriePanic then Inl e else Inr None, t')
      | (Inr res, t') \<Rightarrow> (Inr res, t'))"

definition Update :: "Trie \<Rightarrow> bytes \<Rightarrow> bytes \<Rightarrow> trie_err option \<times> Trie" where
  "Update t key val =
     (case TryUpdate t key val of (e, t') \<Rightarrow> (if e = Some TriePanic then e else None, t'))"

definition Delete :: "Trie \<Rightarrow> bytes \<Rightarrow> trie_err option \<times> Trie" where
  "Delete t key =
     (case TryDelete t key of (e, t') \<Rightarrow> (if e = Some TriePanic then e else None, t'))"

section \<open>Typed nodes\<close>

text \<open>
  A node is \<open>inner\<close> when values are exactly at the ends of the keys: below a key that ends with the
  terminator, and in the last child of a full node. No other assumption on the shape is made here, so
  that every node that the decoder accepts is one.
\<close>

fun is_value :: "node \<Rightarrow> bool" where
  "is_value (ValueN _) = True"
| "is_value _ = False"

lemma size_take_child [termination_simp]: "c \<in> set (take k cs) \<Longrightarrow> size c < Suc (size_list size (cs :: node list))"
  using size_list_estimation' [of c cs "size c" size] by (auto dest: in_set_takeD)

fun inner :: "node \<Rightarrow> bool" where
  "inner NilN = True"
| "inner (HashN h) = True"
| "inner (ValueN v) = False"
| "inner (ShortN k v fl) \<longleftrightarrow> (term_key k \<and> is_value v) \<or> (k \<noteq> [] \<and> nibbles k \<and> inner v)"
| "inner (FullN cs fl) \<longleftrightarrow>
     length cs = 17 \<and> (\<forall>c\<in>set (take 16 cs). inner c) \<and> (cs ! 16 = NilN \<or> is_value (cs ! 16))"

lemma inner_Full:
  "inner (FullN cs fl) \<longleftrightarrow> length cs = 17 \<and> (\<forall>i<16. inner (cs ! i)) \<and> (cs ! 16 = NilN \<or> is_value (cs ! 16))"
proof (cases "length cs = 17")
  case True
  then have "(\<forall>c\<in>set (take 16 cs). inner c) \<longleftrightarrow> (\<forall>i<16. inner (cs ! i))"
    by (simp add: all_set_conv_all_nth)
  then show ?thesis by simp
qed simp

declare inner.simps(5) [simp del]

definition fits :: "node \<Rightarrow> bytes \<Rightarrow> bool" where
  "fits n key \<longleftrightarrow> (if key = [] then n = NilN \<or> is_value n else term_key key \<and> inner n)"

lemma is_value_iff: "is_value n \<longleftrightarrow> (\<exists>v. n = ValueN v)"
  by (cases n) simp_all

lemma compactDecode_key:
  assumes "compactDecode kbuf = Some key" "key \<noteq> []"
  shows "last key = 16 \<Longrightarrow> term_key key" and "last key \<noteq> 16 \<Longrightarrow> nibbles key"
proof -
  obtain b str where k: "kbuf = b # str"
    using assms(1) by (cases kbuf) (auto simp: compactDecode_def compactHexDecode_unpack)
  obtain j where j: "key = drop j (unpack kbuf @ (if b div 16 \<ge> 2 then [16] else []))" "j \<le> 2"
    using assms(1) that [of 1] that [of 2] unfolding k compactDecode_unpack by (simp split: if_splits)
  have len: "2 \<le> length (unpack kbuf)" by (simp add: k)
  have "nibbles (drop j (unpack kbuf))"
    using nibbles_unpack [of kbuf] by (auto simp: nibbles_def dest: in_set_dropD)
  moreover have "key = drop j (unpack kbuf) @ (if b div 16 \<ge> 2 then [16] else [])"
    using j len by simp
  ultimately show "last key = 16 \<Longrightarrow> term_key key" "last key \<noteq> 16 \<Longrightarrow> nibbles key"
    using assms(2) last_in_set [of key] by (auto simp: term_key_def nibbles_def split: if_splits)
qed

lemma decode_inner:
  "decodeNode hash buf gen = Inr n \<Longrightarrow> inner n"
  "decodeShort hash elems gen = Inr n \<Longrightarrow> inner n"
  "decodeFull hash elems gen = Inr n \<Longrightarrow> inner n"
  "decodeChildren m elems gen = Inr (cs, rest) \<Longrightarrow> length cs = m \<and> (\<forall>c\<in>set cs. inner c)"
  "decodeRef_val buf k val sz gen = Inr n \<Longrightarrow> inner n"
proof (induction hash buf gen and hash elems gen and hash elems gen and m elems gen and buf k val sz gen
    arbitrary: n and n and n and cs rest and n
    rule: decodeNode_decodeShort_decodeFull_decodeChildren_decodeRef_val.induct)
  case (1 hash buf gen)
  from 1(3) obtain elems r where "length buf \<noteq> 0" "SplitList buf = Inr (elems, r)" "CountValues elems \<noteq> Inl RlpPanic"
    "CountValues elems = Inr 2 \<and> decodeShort hash elems gen = Inr n \<or>
     CountValues elems = Inr 17 \<and> decodeFull hash elems gen = Inr n"
    by (auto simp: decodeNode.simps [of hash buf gen] Let_def split: sum.splits if_splits)
  then show ?case using 1(1,2) [OF _ _ refl, of elems r] by auto
next
  case (2 hash elems gen)
  from 2(2) obtain kbuf rest key v fl where kb: "SplitString elems = Inr (kbuf, rest)"
    "compactDecode kbuf = Some key" "key \<noteq> []" and n: "n = ShortN key v fl" and
    v: "last key = 16 \<and> is_value v \<or> last key \<noteq> 16 \<and> (\<exists>k val r. Split rest = Inr (k, val, r) \<and>
         decodeRef_val rest k val (length rest - length r) gen = Inr v)"
    unfolding decodeShort.simps [of hash elems gen] Let_def
    by (auto split: sum.splits option.splits if_splits)
  from v show ?case
  proof
    assume "last key = 16 \<and> is_value v"
    then show ?case using n compactDecode_key(1) [OF kb(2,3)] by simp
  next
    assume r: "last key \<noteq> 16 \<and> (\<exists>k val r. Split rest = Inr (k, val, r) \<and>
      decodeRef_val rest k val (length rest - length r) gen = Inr v)"
    then have "inner v" using 2(1) [OF kb(1) refl refl kb(2,3)] by blast
    then show ?case using n r kb(3) compactDecode_key(2) [OF kb(2,3)] by simp
  qed
next
  case (3 hash elems gen)
  from 3(2) obtain cs elems' val where
    "decodeChildren 16 elems gen = Inr (cs, elems')"
    "n = FullN (cs @ [if length val > 0 then ValueN val else NilN]) \<lparr>fl_hash = hash, fl_gen = gen, fl_dirty = False\<rparr>"
    by (auto simp: decodeFull.simps [of hash elems gen] split: sum.splits)
  then show ?case using 3(1) by (auto simp: inner_Full nth_append)
next
  case (4 m elems gen)
  show ?case
  proof (cases "m = 0")
    case True
    with 4(3) show ?thesis by (auto simp: decodeChildren.simps [of 0 elems gen])
  next
    case False
    with 4(3) obtain k val r c clds where s: "Split elems = Inr (k, val, r)"
      "decodeRef_val elems k val (length elems - length r) gen = Inr c"
      "decodeChildren (m - 1) r gen = Inr (clds, rest)" "cs = c # clds"
      by (auto simp: decodeChildren.simps [of m elems gen] split: sum.splits)
    have "inner c" using 4(1) [OF False s(1) refl refl s(2)] .
    moreover have "length clds = m - 1 \<and> (\<forall>c\<in>set clds. inner c)" using 4(2) [OF False s(1) refl refl s(2,3)] .
    ultimately show ?thesis using s(4) False by simp
  qed
next
  case (5 buf k val sz gen)
  from 5(2) show ?case
    unfolding decodeRef_val.simps [of buf k val sz gen] by (auto split: if_splits intro: 5(1))
qed

lemma resolveHash_inner: "resolveHash t h prefix suffix = Inr n \<Longrightarrow> inner n"
  by (auto simp: resolveHash_def mustDecodeNode_def split: option.splits sum.splits dest: decode_inner(1))

lemma resolveHash_indep: "resolveHash t h p s = Inr n \<Longrightarrow> resolveHash t h p' s' = Inr n"
  by (auto simp: resolveHash_def split: option.splits)

end
