(* ===== verification/Trie_Lookup.thy ===== *)
theory Trie_Lookup
  imports Trie_Ops
begin

text \<open>
  The reference semantics of a trie node as a lookup along the key, that \<open>tryGet\<close> computes it, and what
  it gives after an \<open>insert\<close> (\<open>trie/trie.go\<close>), errors included.
\<close>

section \<open>Lookups\<close>

text \<open>
  The reference semantics of a node: the value, or the error, for the rest \<open>key\<close> of a key below the
  prefix \<open>pre\<close>.
\<close>

function lk :: "Trie \<Rightarrow> bytes \<Rightarrow> node \<Rightarrow> bytes \<Rightarrow> trie_err + bytes option" where
  "lk t pre NilN key = Inr None"
| "lk t pre (ValueN v) key = Inr (Some v)"
| "lk t pre (ShortN k v fl) key =
     (if take (length k) key = k then lk t (pre @ k) v (drop (length k) key) else Inr None)"
| "lk t pre (FullN cs fl) key =
     (if key = [] \<or> \<not> unat (hd key) < length cs then Inl TriePanic
      else lk t (pre @ [hd key]) (cs ! unat (hd key)) (tl key))"
| "lk t pre (HashN h) key =
     (case resolveHash t h pre key of Inl e \<Rightarrow> Inl e | Inr child \<Rightarrow> lk t pre child key)"
  by pat_completeness auto
termination
  by (relation "measures [\<lambda>(t, pre, n, key). length key, \<lambda>(t, pre, n, key). weight n]")
    (auto dest: resolveHash_weight simp: prefixLen_full [symmetric] intro!: delete_progress)

declare lk.simps(3) [simp del]

lemma lk_Short_Nil [simp]: "lk t pre (ShortN [] v fl) key = lk t pre v key"
  by (simp add: lk.simps(3))

lemma lk_Short_Cons [simp]:
  "lk t pre (ShortN (x # k) v fl) [] = Inr None"
  "lk t pre (ShortN (x # k) v fl) (c # key) =
     (if x = c then lk t (pre @ [c]) (ShortN k v fl) key else Inr None)"
  by (auto simp: lk.simps(3))

lemma lk_Short_append: "lk t pre (ShortN (a @ b) v fl) key = lk t pre (ShortN a (ShortN b v fl1) fl2) key"
proof (induction a arbitrary: pre key)
  case Nil
  show ?case by (simp add: lk.simps(3))
next
  case (Cons x a)
  then show ?case by (cases key) simp_all
qed

lemma lk_Short_self: "lk t pre (ShortN k v fl) (k @ key) = lk t (pre @ k) v key"
  by (simp add: lk.simps(3))

lemma lk_Short_cong:
  "(\<And>key'. key = k @ key' \<Longrightarrow> lk t (pre @ k) v key' = lk t (pre @ k) v' key') \<Longrightarrow>
   lk t pre (ShortN k v fl) key = lk t pre (ShortN k v' fl') key"
  by (metis lk.simps(3) append_take_drop_id)

lemma resolveHash_root [simp]: "resolveHash (t\<lparr>t_root := r\<rparr>) = resolveHash t"
  by (intro ext) (simp add: resolveHash_def split: option.splits)

lemma lk_root [simp]: "lk (t\<lparr>t_root := r\<rparr>) pre n key = lk t pre n key"
  by (induction t pre n key rule: lk.induct) (auto simp: lk.simps(3) split: sum.splits)

text \<open>A trie that keeps its values at the ends of keys, and what it holds for a key.\<close>

definition trie_ok :: "Trie \<Rightarrow> bool" where
  "trie_ok t \<longleftrightarrow> inner (t_root t)"

definition lookup :: "Trie \<Rightarrow> bytes \<Rightarrow> trie_err + bytes option" where
  "lookup t key = lk t [] (t_root t) (compactHexDecode key)"

lemma inner_update:
  assumes "inner (FullN cs fl)" "i < 16 \<Longrightarrow> inner n" "i = 16 \<Longrightarrow> n = NilN \<or> is_value n"
  shows "inner (FullN (cs[i := n]) fl')"
  using assms by (cases "i < length cs") (auto simp: inner_Full nth_list_update)

lemma lk_Full_update:
  "i < length cs \<Longrightarrow>
   lk t pre (FullN (cs[i := n]) fl) key =
     (if key \<noteq> [] \<and> unat (hd key) = i then lk t (pre @ [hd key]) n (tl key) else lk t pre (FullN cs fl') key)"
  by auto

lemma tryGet_lk:
  "pos \<le> length key \<Longrightarrow>
   (case tryGet t n key pos of
      Inl e \<Rightarrow> lk t (take pos key) n (drop pos key) = Inl e
    | Inr (v, n', d) \<Rightarrow>
        lk t (take pos key) n (drop pos key) = Inr v \<and> (\<not> d \<longrightarrow> n' = n) \<and>
        (inner n \<longrightarrow> inner n') \<and> (is_value n \<longrightarrow> n' = n) \<and> (n = NilN \<longrightarrow> n' = n) \<and>
        (\<forall>key'. lk t (take pos key) n' key' = lk t (take pos key) n key'))"
proof (induction t n key pos rule: tryGet.induct)
  case (3 t k v fl key pos)
  show ?case
  proof (cases "length key < pos + length k \<or> take (length k) (drop pos key) \<noteq> k")
    case True
    then show ?thesis using "3.prems" by (auto simp: lk.simps(3))
  next
    case False
    then have k: "take pos key @ k = take (pos + length k) key" "drop (length k) (drop pos key) = drop (pos + length k) key"
      by (auto simp: take_add add.commute)
    have IH: "case tryGet t v key (pos + length k) of
        Inl e \<Rightarrow> lk t (take pos key @ k) v (drop (length k) (drop pos key)) = Inl e
      | Inr (w, v', d) \<Rightarrow>
          lk t (take pos key @ k) v (drop (length k) (drop pos key)) = Inr w \<and> (\<not> d \<longrightarrow> v' = v) \<and>
          (inner v \<longrightarrow> inner v') \<and> (is_value v \<longrightarrow> v' = v) \<and> (v = NilN \<longrightarrow> v' = v) \<and>
          (\<forall>key'. lk t (take pos key @ k) v' key' = lk t (take pos key @ k) v key')"
      using "3.IH" [OF False] False unfolding k by simp
    show ?thesis
    proof (cases "tryGet t v key (pos + length k)")
      case (Inl e)
      with IH False show ?thesis by (simp add: lk.simps(3))
    next
      case (Inr r)
      obtain w v' d where r: "r = (w, v', d)" by (cases r)
      with IH Inr False show ?thesis by (auto simp: lk.simps(3))
    qed
  qed
next
  case (4 t cs fl key pos)
  show ?case
  proof (cases "\<not> pos < length key \<or> \<not> unat (key ! pos) < length cs")
    case True
    then show ?thesis using "4.prems" by (auto simp: hd_drop_conv_nth)
  next
    case False
    then have k: "take pos key @ [key ! pos] = take (pos + 1) key" "tl (drop pos key) = drop (pos + 1) key"
      "hd (drop pos key) = key ! pos" "drop pos key \<noteq> []"
      by (auto simp: take_Suc_conv_app_nth hd_drop_conv_nth drop_Suc tl_drop)
    let ?c = "cs ! unat (key ! pos)"
    have IH: "case tryGet t ?c key (pos + 1) of
        Inl e \<Rightarrow> lk t (take pos key @ [key ! pos]) ?c (tl (drop pos key)) = Inl e
      | Inr (w, v', d) \<Rightarrow>
          lk t (take pos key @ [key ! pos]) ?c (tl (drop pos key)) = Inr w \<and> (\<not> d \<longrightarrow> v' = ?c) \<and>
          (inner ?c \<longrightarrow> inner v') \<and> (is_value ?c \<longrightarrow> v' = ?c) \<and> (?c = NilN \<longrightarrow> v' = ?c) \<and>
          (\<forall>key'. lk t (take pos key @ [key ! pos]) v' key' = lk t (take pos key @ [key ! pos]) ?c key')"
      using "4.IH" [OF False] False unfolding k by simp
    show ?thesis
    proof (cases "tryGet t ?c key (pos + 1)")
      case (Inl e)
      with IH False k(3,4) show ?thesis by simp
    next
      case (Inr r)
      obtain w v' d where r: "r = (w, v', d)" by (cases r)
      have "inner (FullN (cs[unat (key ! pos) := v']) (fl\<lparr>fl_gen := t_cachegen t\<rparr>))" if i: "inner (FullN cs fl)"
        using IH Inr r i by (intro inner_update [OF i]) (auto simp: inner_Full)
      moreover have "lk t (take pos key) (FullN (cs[unat (key ! pos) := v']) (fl\<lparr>fl_gen := t_cachegen t\<rparr>)) key' =
          lk t (take pos key) (FullN cs fl) key'" for key'
        using IH Inr r False by (subst lk_Full_update [where fl' = fl]) (auto simp: word_unat_eq_iff [symmetric])
      ultimately show ?thesis using IH Inr r False k(3,4) by simp
    qed
  qed
next
  case (5 t h key pos)
  show ?case
  proof (cases "resolveHash t h (take pos key) (drop pos key)")
    case (Inl e)
    then show ?thesis by simp
  next
    case (Inr c)
    then have r: "resolveHash t h p s = Inr c" for p s by (rule resolveHash_indep)
    show ?thesis using "5.IH" [OF Inr "5.prems"] resolveHash_inner [OF Inr]
      by (auto simp: r split: sum.splits)
  qed
qed auto

section \<open>Keys\<close>

lemma term_key_not_Nil [simp]: "\<not> term_key []"
  by (simp add: term_key_def)

lemma term_key_Cons: "term_key (c # key) \<longleftrightarrow> c = 16 \<and> key = [] \<or> c < 16 \<and> term_key key"
  by (auto simp: term_key_def)

lemma term_key_append: "b \<noteq> [] \<Longrightarrow> term_key (a @ b) \<longleftrightarrow> nibbles a \<and> term_key b"
  by (auto simp: term_key_def butlast_append)

lemma term_key_no_extension: "term_key a \<Longrightarrow> term_key (a @ b) \<Longrightarrow> b = []"
  by (induction a) (auto simp: term_key_Cons)

lemma term_key_not_nibbles: "term_key k \<Longrightarrow> \<not> nibbles k"
  by (induction k) (auto simp: term_key_Cons)

lemma nibble_less_17: "c < (16 :: byte) \<Longrightarrow> unat c < 16"
  by (simp add: word_less_nat_alt)

lemma term_key_elem: "term_key k \<or> nibbles k \<Longrightarrow> c \<in> set k \<Longrightarrow> unat c < 17"
  by (induction k) (auto simp: term_key_Cons dest!: nibble_less_17)

lemma term_key_drop: "term_key k \<Longrightarrow> drop n k \<noteq> [] \<Longrightarrow> term_key (drop n k)"
  by (metis append_take_drop_id term_key_append)

lemma fits_Nil [simp]: "fits NilN key \<longleftrightarrow> key = [] \<or> term_key key"
  by (simp add: fits_def)

lemma fits_Hash [simp]: "fits (HashN h) key \<longleftrightarrow> term_key key"
  by (auto simp: fits_def)

lemma fits_child:
  assumes "inner (FullN cs fl)" "term_key (c # key)"
  shows "fits (cs ! unat c) key" "unat c < length cs"
proof -
  have "unat c < 17" using term_key_elem assms(2) by fastforce
  then show "unat c < length cs" using assms(1) by (simp add: inner_Full)
  show "fits (cs ! unat c) key" using assms
    by (auto simp: fits_def term_key_Cons inner_Full dest!: nibble_less_17)
qed

lemma fits_short:
  assumes "inner (ShortN k v fl)" "term_key (k @ key)"
  shows "fits v key"
  using assms term_key_no_extension [of k key] term_key_append [of key k] term_key_not_nibbles [of k]
  by (cases "key = []") (auto simp: fits_def)

section \<open>Insert\<close>

text \<open>
  What an insertion of the value \<open>v\<close> at \<open>key\<close> promises: an error is the error of the lookup and
  comes from the database; otherwise the key holds the value, every other key holds what it held,
  and a node that is reported as unchanged held the value already.
\<close>

definition from_db :: "Trie \<Rightarrow> trie_err \<Rightarrow> bool" where
  "from_db t e \<longleftrightarrow> (\<exists>h p s. resolveHash t h p s = Inl e)"

lemma from_dbI [intro]: "resolveHash t h p s = Inl e \<Longrightarrow> from_db t e"
  by (auto simp: from_db_def)

definition same_below :: "Trie \<Rightarrow> bytes \<Rightarrow> bytes \<Rightarrow> node \<Rightarrow> node \<Rightarrow> bool" where
  "same_below t pre key n' n \<longleftrightarrow>
     (\<forall>key'. key \<noteq> [] \<and> term_key key' \<and> key' \<noteq> key \<longrightarrow> lk t pre n' key' = lk t pre n key')"

definition ins_ok :: "Trie \<Rightarrow> bytes \<Rightarrow> node \<Rightarrow> bytes \<Rightarrow> bytes \<Rightarrow> bool \<Rightarrow> node \<Rightarrow> bool" where
  "ins_ok t pre n key v d n' \<longleftrightarrow>
     (if key = [] then is_value n' else inner n') \<and> lk t pre n' key = Inr (Some v) \<and>
     same_below t pre key n' n \<and> (\<not> d \<longrightarrow> lk t pre n key = Inr (Some v))"

lemma same_below_Full:
  assumes "same_below t (pre @ [c]) key n (cs ! unat c)" "inner (FullN cs fl)" "term_key (c # key)"
  shows "same_below t pre (c # key) (FullN (cs[unat c := n]) fl') (FullN cs fl)"
  unfolding same_below_def
proof (intro allI impI, elim conjE)
  fix key' assume k': "term_key key'" "key' \<noteq> c # key"
  then obtain c' key'' where k: "key' = c' # key''" by (cases key') auto
  show "lk t pre (FullN (cs[unat c := n]) fl') key' = lk t pre (FullN cs fl) key'"
  proof (cases "c' = c")
    case True
    then have "key'' \<noteq> key" using k' k by simp
    moreover from this have "key \<noteq> [] \<and> term_key key''"
      using k' k True assms(3) by (auto simp: term_key_Cons)
    ultimately show ?thesis
      using assms(1) fits_child(2) [OF assms(2,3)] k True by (auto simp: same_below_def)
  next
    case False
    then have "unat c' \<noteq> unat c" by (simp add: word_unat_eq_iff)
    then show ?thesis using k by simp
  qed
qed

lemma same_below_Short:
  assumes "same_below t (pre @ k) key n v" "inner (ShortN k v fl)" "term_key (k @ key)"
  shows "same_below t pre (k @ key) (ShortN k n fl') (ShortN k v fl)"
  unfolding same_below_def
proof (intro allI impI lk_Short_cong, elim conjE)
  fix key' key'' assume k': "term_key key'" "key' \<noteq> k @ key" "key' = k @ key''"
  then have "key'' \<noteq> key" by simp
  moreover from this have "key \<noteq> [] \<and> term_key key''"
    using k' assms(3) term_key_no_extension [of k] term_key_append [of key'' k] term_key_append [of key k]
      term_key_not_nibbles by (metis append_Nil2)
  ultimately show "lk t (pre @ k) n key'' = lk t (pre @ k) v key''"
    using assms(1) by (simp add: same_below_def)
qed

lemma ins_ok_Full:
  assumes "ins_ok t (pre @ [c]) (cs ! unat c) key v d n" "inner (FullN cs fl)" "term_key (c # key)"
  shows "ins_ok t pre (FullN cs fl) (c # key) v True (FullN (cs[unat c := n]) fl')"
proof -
  have c: "unat c < length cs" using fits_child(2) [OF assms(2,3)] .
  have "inner (FullN (cs[unat c := n]) fl')"
    using assms by (intro inner_update [OF assms(2)]) (auto simp: ins_ok_def term_key_Cons split: if_splits dest!: nibble_less_17)
  then show ?thesis
    using assms(1) c same_below_Full [OF _ assms(2,3), of t pre n fl'] by (auto simp: ins_ok_def)
qed

lemma ins_ok_Short:
  assumes "ins_ok t (pre @ k) nv key v d n" "inner (ShortN k nv fl)" "term_key (k @ key)"
  shows "ins_ok t pre (ShortN k nv fl) (k @ key) v True (ShortN k n fl')"
proof -
  have "inner (ShortN k n fl')"
    using assms term_key_append [of key k] term_key_not_nibbles [of k] by (auto simp: ins_ok_def split: if_splits)
  then show ?thesis
    using assms(1,2) same_below_Short [OF _ assms(2,3), of t pre n fl']
    by (auto simp: ins_ok_def lk_Short_self)
qed

lemma ins_ok_refl:
  "key \<noteq> [] \<Longrightarrow> inner n \<Longrightarrow> lk t pre n key = Inr (Some v) \<Longrightarrow> ins_ok t pre n key v d n"
  by (simp add: ins_ok_def same_below_def)

lemma ins_ok_unchanged: "ins_ok t pre n key v False n' \<Longrightarrow> lk t pre n key = Inr (Some v)"
  by (simp add: ins_ok_def)

lemma ins_ok_cong:
  "(\<And>key'. lk t pre n key' = lk t pre m key') \<Longrightarrow> ins_ok t pre n key v d n' \<longleftrightarrow> ins_ok t pre m key v d n'"
  by (simp add: ins_ok_def same_below_def)

lemma insert_Nil: "insert_node t NilN pre key val = Inr (True, if key = [] then val else ShortN key val (newFlag t))"
  by (simp add: insert_node.simps)

lemma lk_graft: "lk t pre (if k = [] then v else ShortN k v fl) key = lk t pre (ShortN k v fl') key"
  by (simp add: lk.simps(3))

lemma lk_leaf:
  assumes "kr = [] \<or> term_key kr" "key = [] \<or> term_key key" "kr = [] \<longleftrightarrow> key = []"
  shows "lk t pre (ShortN kr (ValueN v) fl) key = Inr (if key = kr then Some v else None)"
proof -
  have "key = kr" if "take (length kr) key = kr"
  proof -
    have "key = kr @ drop (length kr) key" using that append_take_drop_id [of "length kr" key] by simp
    then show ?thesis using assms term_key_no_extension [of kr "drop (length kr) key"] by auto
  qed
  then have "take (length kr) key = kr \<longleftrightarrow> key = kr" by auto
  then show ?thesis by (simp add: lk.simps(3))
qed

lemma lk_leaf_term:
  "term_key kr \<Longrightarrow> term_key key \<Longrightarrow> lk t pre (ShortN kr (ValueN v) fl) key = Inr (if key = kr then Some v else None)"
  by (rule lk_leaf) auto

lemma branch_ok:
  fixes t pre x nr nv fl y kr v
  defines "branch \<equiv> FullN ((replicate 17 NilN)
    [unat x := (if nr = [] then nv else ShortN nr nv (newFlag t)),
     unat y := (if kr = [] then ValueN v else ShortN kr (ValueN v) (newFlag t))]) (newFlag t)"
  assumes i: "inner (ShortN (x # nr) nv fl)" and k: "term_key (y # kr)" and xy: "x \<noteq> y"
  shows "ins_ok t pre (ShortN (x # nr) nv fl) (y # kr) v True branch"
proof -
  have x17: "unat x < 17" "unat y < 17" "unat x \<noteq> unat y"
    using i k xy term_key_elem [of "x # nr" x] term_key_elem [of "y # kr" y] by (auto simp: word_unat_eq_iff)
  have "inner (FullN (replicate 17 NilN) (newFlag t))" by (simp add: inner_Full)
  then have in_branch: "inner branch" unfolding branch_def using i k
    by (intro inner_update [of "(replicate 17 NilN)[unat x := _]"] inner_update [of "replicate 17 NilN"])
      (auto simp: term_key_Cons split: if_splits dest!: nibble_less_17)
  have at: "lk t pre branch (c # key) =
    (if c = y then lk t (pre @ [c]) (ShortN kr (ValueN v) fl) key
     else if c = x then lk t (pre @ [c]) (ShortN nr nv fl) key else Inr None)" if "term_key (c # key)" for c key
  proof -
    have c: "unat c < 17" using term_key_elem that by fastforce
    consider "c = y" | "c = x" | "c \<noteq> x" "c \<noteq> y" by blast
    then show ?thesis
    proof cases
      case 1
      then show ?thesis using x17 by (simp add: branch_def lk_graft [where fl' = fl])
    next
      case 2
      then show ?thesis using x17 xy by (simp add: branch_def lk_graft [where fl' = fl])
    next
      case 3
      then have "unat c \<noteq> unat x" "unat c \<noteq> unat y" by (simp_all add: word_unat_eq_iff)
      then show ?thesis using 3 c by (simp add: branch_def)
    qed
  qed
  have "lk t pre branch (y # kr) = Inr (Some v)"
    using at [OF k] k by (subst (asm) lk_leaf) (auto simp: term_key_Cons)
  moreover have "lk t pre branch key' = lk t pre (ShortN (x # nr) nv fl) key'"
    if "term_key key'" "key' \<noteq> y # kr" for key'
  proof -
    obtain c key where c: "key' = c # key" using \<open>term_key key'\<close> by (cases key') auto
    have "lk t (pre @ [c]) (ShortN kr (ValueN v) fl) key = Inr None" if "c = y"
      using \<open>term_key key'\<close> \<open>key' \<noteq> y # kr\<close> k c that by (subst lk_leaf) (auto simp: term_key_Cons)
    then show ?thesis using at [of c key] \<open>term_key key'\<close> xy by (auto simp: c)
  qed
  ultimately show ?thesis using in_branch by (simp add: ins_ok_def same_below_def)
qed

lemma branch_split:
  assumes "inner (ShortN nk nv fl)" "term_key key" "prefixLen key nk \<noteq> length nk"
  obtains x nr y kr where "nk = take (prefixLen key nk) key @ x # nr" "key = take (prefixLen key nk) key @ y # kr"
    "x \<noteq> y" "x = nk ! prefixLen key nk" "nr = drop (prefixLen key nk + 1) nk"
    "y = key ! prefixLen key nk" "kr = drop (prefixLen key nk + 1) key" "prefixLen key nk < length key"
proof -
  let ?m = "prefixLen key nk"
  have m: "?m < length nk" using assms(3) prefixLen_le(2) [of key nk] by simp
  have nk: "nk = take ?m key @ drop ?m nk" using prefixLen_take [of key nk] by simp
  have "?m \<noteq> length key"
  proof
    assume "?m = length key"
    with nk m have e: "nk = key @ drop ?m nk" "drop ?m nk \<noteq> []" by simp_all
    then show False using assms(1,2) term_key_no_extension [of key] term_key_not_nibbles [OF assms(2)]
      by (metis inner.simps(4) nibbles_simps(3))
  qed
  then have m': "?m < length key" using prefixLen_le(1) [of key nk] by simp
  show ?thesis
    using that [of "nk ! ?m" "drop (?m + 1) nk" "key ! ?m" "drop (?m + 1) key"] nk m m' prefixLen_differ [OF m' m]
    by (simp add: Cons_nth_drop_Suc)
qed

lemma insert_Short_match:
  assumes "key \<noteq> []" "prefixLen key nk = length nk"
  shows "insert_node t (ShortN nk nv fl) pre key val =
    (case insert_node t nv (pre @ nk) (drop (length nk) key) val of
       Inl e \<Rightarrow> Inl e
     | Inr (d, nn) \<Rightarrow> if d then Inr (True, ShortN nk nn (newFlag t)) else Inr (False, ShortN nk nv fl))"
  using assms prefixLen_take [of key nk] by (simp add: insert_node.simps [of t "ShortN nk nv fl"])

lemma insert_Hash:
  assumes "key \<noteq> []" "resolveHash t h pre key = Inr rn"
  shows "insert_node t (HashN h) pre key val =
    (case insert_node t rn pre key val of
       Inl e \<Rightarrow> Inl e | Inr (d, nn) \<Rightarrow> if d then Inr (True, nn) else Inr (False, rn))"
  using assms by (simp add: insert_node.simps [of t "HashN h"])

lemma insert_Full:
  assumes "unat c < length cs"
  shows "insert_node t (FullN cs fl) pre (c # key) val =
    (case insert_node t (cs ! unat c) (pre @ [c]) key val of
       Inl e \<Rightarrow> Inl e
     | Inr (d, nn) \<Rightarrow> if d then Inr (True, FullN (cs[unat c := nn]) (newFlag t)) else Inr (False, FullN cs fl))"
  using assms by (auto simp: insert_node.simps [of t "FullN cs fl"] split: sum.split)

lemma insert_Short_branch:
  assumes "inner (ShortN nk nv fl)" "term_key key" "prefixLen key nk \<noteq> length nk"
  shows "\<exists>n'. insert_node t (ShortN nk nv fl) pre key (ValueN v) = Inr (True, n') \<and>
    ins_ok t pre (ShortN nk nv fl) key v True n'"
proof -
  let ?m = "prefixLen key nk"
  let ?p = "take ?m key"
  obtain x nr y kr where s: "nk = ?p @ x # nr" "key = ?p @ y # kr" "x \<noteq> y"
    "x = nk ! ?m" "nr = drop (?m + 1) nk" "y = key ! ?m" "kr = drop (?m + 1) key" "?m < length key"
    using branch_split [OF assms] by metis
  let ?branch = "FullN ((replicate 17 NilN)
    [unat x := (if nr = [] then nv else ShortN nr nv (newFlag t)),
     unat y := (if kr = [] then ValueN v else ShortN kr (ValueN v) (newFlag t))]) (newFlag t)"
  have "x \<in> set nk" "y \<in> set key" using s(1,2) by (metis in_set_conv_decomp)+
  then have u: "unat x < 17" "unat y < 17" using assms(1,2) term_key_elem by auto
  have i: "inner (ShortN (x # nr) nv fl)" and k: "term_key (y # kr)" and p: "nibbles ?p"
    using assms(1,2) s(1,2) term_key_append [of "x # nr" ?p] term_key_append [of "y # kr" ?p]
    by (metis inner.simps(4) list.distinct(1) nibbles_simps(3))+
  have r: "insert_node t (ShortN nk nv fl) pre key (ValueN v) =
      Inr (True, if ?m = 0 then ?branch else ShortN ?p ?branch (newFlag t))"
    using s(4-8) u assms(3) by (auto simp: insert_node.simps [of t "ShortN nk nv fl"] insert_Nil Let_def)
  have b: "ins_ok t pre' (ShortN (x # nr) nv fl) (y # kr) v True ?branch" for pre'
    by (rule branch_ok [OF i k s(3)])
  show ?thesis
  proof (cases "?m = 0")
    case True
    then show ?thesis using r b s(1,2) by simp
  next
    case False
    then have "?p \<noteq> []" using s(8) by auto
    then have "ins_ok t pre (ShortN ?p (ShortN (x # nr) nv fl) fl) (?p @ y # kr) v True (ShortN ?p ?branch (newFlag t))"
      using i p s(2) assms(2) by (intro ins_ok_Short [OF b]) simp_all
    then have "ins_ok t pre (ShortN nk nv fl) key v True (ShortN ?p ?branch (newFlag t))"
      unfolding s(2) [symmetric] using lk_Short_append [of t pre ?p "x # nr" nv fl _ fl fl] s(1)
      by (metis (no_types, lifting) ins_ok_cong)
    then show ?thesis using r False by simp
  qed
qed

lemma insert_ok:
  "fits n key \<Longrightarrow> val = ValueN v \<Longrightarrow>
   case insert_node t n pre key val of
     Inl e \<Rightarrow> lk t pre n key = Inl e \<and> from_db t e
   | Inr (d, n') \<Rightarrow> ins_ok t pre n key v d n'"
proof (induction t n pre key val rule: insert_node.induct)
  case (1 t n pre key val)
  show ?case
  proof (cases "key = []")
    case True
    then show ?thesis using "1.prems"
      by (auto simp: insert_node.simps fits_def is_value_iff ins_ok_def same_below_def)
  next
    case key: False
    then have tk: "term_key key" and inn: "inner n" using "1.prems" by (simp_all add: fits_def)
    show ?thesis
    proof (cases n)
      case NilN
      then show ?thesis using "1.prems"(2) key tk
        by (auto simp: insert_Nil ins_ok_def same_below_def lk_leaf_term)
    next
      case (ValueN w)
      then show ?thesis using inn by simp
    next
      case (HashN h)
      show ?thesis
      proof (cases "resolveHash t h pre key")
        case (Inl e)
        then show ?thesis using HashN key by (auto simp: insert_node.simps)
      next
        case (Inr rn)
        have f: "fits rn key" using resolveHash_inner [OF Inr] tk key by (simp add: fits_def)
        have eq: "lk t pre (HashN h) key' = lk t pre rn key'" for key'
          using resolveHash_indep [OF Inr] by simp
        have "case insert_node t rn pre key val of
            Inl e \<Rightarrow> lk t pre rn key = Inl e \<and> from_db t e
          | Inr (d, n') \<Rightarrow> ins_ok t pre rn key v d n'"
          using 1(5) [OF key HashN Inr f "1.prems"(2)] .
        then show ?thesis using HashN key resolveHash_inner [OF Inr]
          by (auto simp: insert_Hash [OF key Inr] eq ins_ok_def same_below_def simp del: lk.simps
              split: sum.splits)
      qed
    next
      case (FullN cs fl)
      obtain c kr where c: "key = c # kr" using key by (cases key) auto
      have u: "unat c < length cs" and f: "fits (cs ! unat c) kr"
        using fits_child [of cs fl c kr] inn tk by (simp_all add: FullN c)
      have "case insert_node t (cs ! unat c) (pre @ [c]) kr val of
          Inl e \<Rightarrow> lk t (pre @ [c]) (cs ! unat c) kr = Inl e \<and> from_db t e
        | Inr (d, n') \<Rightarrow> ins_ok t (pre @ [c]) (cs ! unat c) kr v d n'"
        using 1(1) [OF key FullN] u f "1.prems"(2) unfolding c list.sel by blast
      then show ?thesis using FullN u c inn tk
        by (auto simp: insert_Full [OF u] split: sum.splits intro!: ins_ok_Full ins_ok_refl dest: ins_ok_unchanged)
    next
      case (ShortN nk nv fl)
      let ?m = "prefixLen key nk"
      show ?thesis
      proof (cases "?m = length nk")
        case True
        then have k: "take ?m key = nk" "drop (length nk) key = drop ?m key" using prefixLen_take [of key nk] by simp_all
        then have "key = nk @ drop ?m key" by (metis append_take_drop_id)
        note k = k(1) this k(2)
        have f: "fits nv (drop ?m key)" using fits_short [of nk nv fl "drop ?m key"] inn tk ShortN k(2) by simp
        have self: "lk t pre (ShortN nk nv fl) key = lk t (pre @ nk) nv (drop ?m key)"
          using lk_Short_self [of t pre nk nv fl "drop ?m key"] k(2) by simp
        have eq: "insert_node t (ShortN nk nv fl) pre key val =
            (case insert_node t nv (pre @ nk) (drop ?m key) val of
               Inl e \<Rightarrow> Inl e
             | Inr (d, nn) \<Rightarrow> if d then Inr (True, ShortN nk nn (newFlag t)) else Inr (False, ShortN nk nv fl))"
          using insert_Short_match [OF key True, of t nv fl pre val] unfolding k(3) .
        have IH: "case insert_node t nv (pre @ nk) (drop ?m key) val of
            Inl e \<Rightarrow> lk t (pre @ nk) nv (drop ?m key) = Inl e \<and> from_db t e
          | Inr (d, n') \<Rightarrow> ins_ok t (pre @ nk) nv (drop ?m key) v d n'"
          using 1(2) [OF key ShortN refl True f "1.prems"(2)] unfolding k(1) .
        have "ins_ok t pre (ShortN nk nv fl) key v True (ShortN nk nn (newFlag t))"
          if "ins_ok t (pre @ nk) nv (drop ?m key) v d nn" for d nn
          using ins_ok_Short [OF that, of fl] inn tk k(2) ShortN by metis
        moreover have "ins_ok t pre (ShortN nk nv fl) key v False (ShortN nk nv fl)"
          if "ins_ok t (pre @ nk) nv (drop ?m key) v False nn" for nn
          using ins_ok_unchanged [OF that] inn key ShortN self by (intro ins_ok_refl) simp_all
        ultimately show ?thesis using IH unfolding ShortN eq self
          by (cases "insert_node t nv (pre @ nk) (drop ?m key) val") auto
      next
        case False
        then show ?thesis using insert_Short_branch [of nk nv fl key t pre v] ShortN inn tk "1.prems"(2)
          by (auto simp del: inner.simps)
      qed
    qed
  qed
qed

end
