(* ===== verification/Trie_Map.thy ===== *)
theory Trie_Map
  imports Trie_Lookup
begin

text \<open>
  The trie as a map from keys to values: what a lookup gives after a deletion, and the resulting laws
  of \<open>TryGet\<close>, \<open>TryUpdate\<close> and \<open>TryDelete\<close> of \<open>trie/trie.go\<close>.
\<close>

section \<open>Delete\<close>

text \<open>
  What a deletion promises: every key but the deleted one holds what it held, and the deleted key
  holds nothing. The search for a single child of a full node is \<open>delete_scan\<close>.
\<close>

definition del_ok :: "Trie \<Rightarrow> bytes \<Rightarrow> node \<Rightarrow> bytes \<Rightarrow> bool \<Rightarrow> node \<Rightarrow> bool" where
  "del_ok t pre n key d n' \<longleftrightarrow>
     fits n' key \<and> lk t pre n' key = Inr None \<and> same_below t pre key n' n \<and>
     (if d then \<exists>v. lk t pre n key = Inr (Some v) else lk t pre n key = Inr None)"

lemma delete_scan_found:
  "pos \<ge> 0 \<Longrightarrow> delete_scan i pos cs \<ge> 0 \<Longrightarrow> delete_scan i pos cs = pos \<and> (\<forall>c\<in>set cs. c = NilN)"
  by (induction i pos cs rule: delete_scan.induct) (auto split: if_splits)

lemma delete_scan_single:
  "i \<ge> 0 \<Longrightarrow> pos = -1 \<Longrightarrow> delete_scan i pos cs \<ge> 0 \<Longrightarrow>
   \<exists>j<length cs. delete_scan i pos cs = i + int j \<and> cs ! j \<noteq> NilN \<and> (\<forall>k<length cs. k \<noteq> j \<longrightarrow> cs ! k = NilN)"
proof (induction i pos cs rule: delete_scan.induct)
  case (2 i pos c cs)
  show ?case
  proof (cases "c = NilN")
    case True
    with 2 obtain j where "j < length cs" "delete_scan i pos (c # cs) = i + 1 + int j" "cs ! j \<noteq> NilN"
      "\<forall>k<length cs. k \<noteq> j \<longrightarrow> cs ! k = NilN" by auto
    then show ?thesis using True by (intro exI [of _ "Suc j"]) (auto simp: nth_Cons' less_Suc_eq_0_disj)
  next
    case False
    with 2 delete_scan_found [of i "i + 1" cs] have "delete_scan i pos (c # cs) = i" "\<forall>c\<in>set cs. c = NilN"
      by auto
    then show ?thesis using False by (intro exI [of _ 0]) (auto simp: nth_Cons')
  qed
qed simp

lemma lk_single:
  assumes "inner (FullN cs fl)" "j < 17" "\<forall>k<17. k \<noteq> j \<longrightarrow> cs ! k = NilN" "term_key key"
  shows "lk t pre (FullN cs fl) key = lk t pre (ShortN [word_of_nat j] (cs ! j) fl') key"
proof -
  obtain c key' where key: "key = c # key'" using assms(4) by (cases key) auto
  have c: "unat c < 17" using term_key_elem assms(4) key by fastforce
  have j: "unat (word_of_nat j :: byte) = j" using assms(2) by (simp add: unat_of_nat)
  show ?thesis
  proof (cases "unat c = j")
    case True
    then have "word_of_nat j = c" using j by (simp add: word_unat_eq_iff)
    then show ?thesis using key c assms(1) True by (simp add: inner_Full)
  next
    case False
    then have "word_of_nat j \<noteq> c" using j by auto
    then show ?thesis using key c assms(1,3) False by (simp add: inner_Full)
  qed
qed

lemma lk_resolve: "resolve t n p s = Inr n' \<Longrightarrow> lk t pre n key = lk t pre n' key"
proof (cases n)
  case (HashN h)
  assume "resolve t n p s = Inr n'"
  then have "resolveHash t h pre key = Inr n'" using HashN by (auto simp: resolve_def intro: resolveHash_indep)
  then show ?thesis using HashN by simp
qed (auto simp: resolve_def)

lemma inner_resolve: "resolve t n p s = Inr n' \<Longrightarrow> inner n \<Longrightarrow> inner n'"
  by (cases n) (auto simp: resolve_def simp del: inner.simps dest: resolveHash_inner)

lemma delete_reduce_ok:
  assumes i: "inner (FullN cs fl)"
  shows "case delete_reduce t cs pre of
      Inl e \<Rightarrow> from_db t e
    | Inr (d, n) \<Rightarrow> d \<and> inner n \<and> (\<forall>key. term_key key \<longrightarrow> lk t pre n key = lk t pre (FullN cs fl) key)"
proof (cases "delete_scan 0 (-1) cs \<ge> 0")
  case False
  then show ?thesis using i by (simp add: delete_reduce_def Let_def inner_Full)
next
  case True
  have len: "length cs = 17" using i by (simp add: inner_Full)
  obtain j where j: "j < 17" "delete_scan 0 (-1) cs = int j" "\<forall>k<17. k \<noteq> j \<longrightarrow> cs ! k = NilN"
    using delete_scan_single [of 0 "-1" cs] True len by auto
  let ?w = "word_of_nat j :: byte" and ?fl = "newFlag t"
  have w: "?w < 16" if "j \<noteq> 16" using that j(1) by (simp add: word_less_nat_alt unat_of_nat)
  have w16: "?w = 16" if "j = 16" using that by simp
  have single: "lk t pre (FullN cs fl) key = lk t pre (ShortN [?w] (cs ! j) ?fl) key" if "term_key key" for key
    using lk_single [OF i j(1,3) that] .
  have in_c: "inner (cs ! j)" if "j \<noteq> 16" using i j(1) that by (simp add: inner_Full)
  have short: "inner (ShortN [?w] (cs ! j) ?fl)"
  proof (cases "j = 16")
    case True
    then have "is_value (cs ! 16)" using i j True delete_scan_single [of 0 "-1" cs] len \<open>delete_scan 0 (-1) cs \<ge> 0\<close>
      by (auto simp: inner_Full)
    then show ?thesis using True by (simp add: term_key_Cons)
  next
    case False
    then show ?thesis using in_c w by simp
  qed
  show ?thesis
  proof (cases "j \<noteq> 16 \<and> (\<exists>e. resolve t (cs ! j) pre [?w] = Inl e)")
    case True
    then show ?thesis using j(2)
      by (auto simp: delete_reduce_def Let_def resolve_def split: node.splits)
  next
    case False
    show ?thesis
    proof (cases "j \<noteq> 16 \<and> (\<exists>ck cv cfl. resolve t (cs ! j) pre [?w] = Inr (ShortN ck cv cfl))")
      case True
      then obtain ck cv cfl where j16: "j \<noteq> 16" and r: "resolve t (cs ! j) pre [?w] = Inr (ShortN ck cv cfl)" by blast
      have "inner (ShortN ck cv cfl)" using inner_resolve [OF r in_c [OF j16]] .
      then have "inner (ShortN (?w # ck) cv ?fl)" using w [OF j16] by (auto simp: term_key_Cons)
      moreover have "lk t pre' (cs ! j) key = lk t pre' (ShortN ck cv cfl) key" for pre' key
        using lk_resolve [OF r] .
      then have "lk t pre (ShortN (?w # ck) cv ?fl) key = lk t pre (ShortN [?w] (cs ! j) ?fl) key" for key
        using lk_Short_append [of t pre "[?w]" ck cv ?fl key cfl ?fl] by (cases key) simp_all
      ultimately show ?thesis using j(2) j16 r single by (simp add: delete_reduce_def Let_def)
    next
      case nos: False
      then have "delete_reduce t cs pre = Inr (True, ShortN [?w] (cs ! j) ?fl)"
        using j(2) False
        by (cases "j = 16"; cases "resolve t (cs ! j) pre [?w]") (auto simp: delete_reduce_def Let_def split: node.split)
      then show ?thesis using short single by simp
    qed
  qed
qed

lemma inner_child_update:
  assumes "inner (FullN cs fl)" "term_key (c # key)" "fits n key"
  shows "inner (FullN (cs[unat c := n]) fl')"
  using assms
  by (intro inner_update [OF assms(1)]) (auto simp: fits_def term_key_Cons split: if_splits dest!: nibble_less_17)

lemma del_ok_Full:
  assumes "del_ok t (pre @ [c]) (cs ! unat c) key d n" "inner (FullN cs fl)" "term_key (c # key)"
    "inner n'" "\<And>k. term_key k \<Longrightarrow> lk t pre n' k = lk t pre (FullN (cs[unat c := n]) fl') k"
  shows "del_ok t pre (FullN cs fl) (c # key) d n'"
proof -
  have c: "unat c < length cs" using fits_child(2) [OF assms(2,3)] .
  have "same_below t pre (c # key) (FullN (cs[unat c := n]) fl') (FullN cs fl)"
    using assms by (intro same_below_Full) (simp_all add: del_ok_def)
  then have "same_below t pre (c # key) n' (FullN cs fl)"
    using assms(5) unfolding same_below_def by metis
  moreover have "lk t pre n' (c # key) = lk t (pre @ [c]) n key" using assms(3,5) c by simp
  ultimately show ?thesis using assms(1,3,4) c by (auto simp: del_ok_def fits_def)
qed

lemma del_ok_Short:
  assumes "del_ok t (pre @ k) nv key d n" "inner (ShortN k nv fl)" "term_key (k @ key)"
    "inner n'" "\<And>key'. lk t pre n' key' = lk t pre (ShortN k n fl) key'"
  shows "del_ok t pre (ShortN k nv fl) (k @ key) d n'"
proof -
  have "same_below t pre (k @ key) (ShortN k n fl) (ShortN k nv fl)"
    using assms by (intro same_below_Short) (simp_all add: del_ok_def)
  then show ?thesis using assms by (auto simp: del_ok_def same_below_def fits_def lk_Short_self)
qed

text \<open>The short node that replaces one whose child was reduced to another short node.\<close>

definition merged :: "Trie \<Rightarrow> bytes \<Rightarrow> node \<Rightarrow> node" where
  "merged t nk child =
     (case child of ShortN ck cv _ \<Rightarrow> ShortN (nk @ ck) cv (newFlag t) | _ \<Rightarrow> ShortN nk child (newFlag t))"

lemma merged_ok:
  assumes "inner child" "nibbles nk" "nk \<noteq> []"
  shows "inner (merged t nk child)" "lk t pre (merged t nk child) key = lk t pre (ShortN nk child fl) key"
proof -
  have "inner (merged t nk child) \<and> lk t pre (merged t nk child) key = lk t pre (ShortN nk child fl) key"
  proof (cases child)
    case (ShortN ck cv cfl)
    have "inner (ShortN (nk @ ck) cv (newFlag t))"
      using assms ShortN term_key_append [of ck nk] by (cases "ck = []") auto
    then show ?thesis using ShortN lk_Short_append [of t pre nk ck cv "newFlag t" key cfl fl]
      by (simp add: merged_def)
  qed (use assms in \<open>simp_all add: merged_def lk.simps(3)\<close>)
  then show "inner (merged t nk child)" "lk t pre (merged t nk child) key = lk t pre (ShortN nk child fl) key" by simp_all
qed

lemma del_ok_refl: "fits n key \<Longrightarrow> lk t pre n key = Inr None \<Longrightarrow> del_ok t pre n key False n"
  by (simp add: del_ok_def same_below_def)

lemma delete_ok:
  "fits n key \<Longrightarrow>
   case delete t n pre key of
     Inl e \<Rightarrow> from_db t e \<and> (\<forall>e'. lk t pre n key = Inl e' \<longrightarrow> e' = e)
   | Inr (d, n') \<Rightarrow> del_ok t pre n key d n'"
proof (induction t n pre key rule: delete.induct)
  case (1 t nk nv fl pre key)
  let ?m = "prefixLen key nk" and ?n = "ShortN nk nv fl"
  have i: "inner ?n" and tk: "term_key key" using "1.prems" by (auto simp: fits_def split: if_splits)
  consider (differ) "?m < length nk" | (same) "key = nk" | (longer) "\<not> ?m < length nk" "?m \<noteq> length key"
    using prefixLen_full [of key nk] prefixLen_le [of key nk] by force
  then show ?case
  proof cases
    case differ
    then have "lk t pre ?n key = Inr None" by (simp add: lk.simps(3) flip: prefixLen_full)
    then show ?thesis using differ "1.prems" by (simp add: del_ok_refl)
  next
    case same
    then obtain v where v: "nv = ValueN v" using i tk term_key_not_nibbles by (auto simp: is_value_iff)
    have "prefixLen nk nk = length nk" by (simp add: prefixLen_full)
    then show ?thesis using same v tk by (auto simp: del_ok_def same_below_def lk_leaf_term)
  next
    case longer
    let ?r = "drop (length nk) key"
    have t: "take (length nk) key = nk" using longer(1) prefixLen_full [of key nk] prefixLen_le(2) [of key nk] by simp
    then have k: "nk @ ?r = key" by (metis append_take_drop_id)
    then have r: "?r \<noteq> []" using longer prefixLen_le(2) [of key nk] by (metis append_Nil2 prefixLen_full t take_all_iff le_refl)
    have f: "fits nv ?r" using fits_short [OF i] tk k by simp
    have inv: "nibbles nk" "nk \<noteq> []" using i tk r k term_key_append [of ?r nk] by auto
    have self: "lk t pre ?n key = lk t (pre @ nk) nv ?r" using lk_Short_self [of t pre nk nv fl ?r] k by simp
    have IH: "case delete t nv (pre @ nk) ?r of
        Inl e \<Rightarrow> from_db t e \<and> (\<forall>e'. lk t (pre @ nk) nv ?r = Inl e' \<longrightarrow> e' = e)
      | Inr (d, n') \<Rightarrow> del_ok t (pre @ nk) nv ?r d n'"
      using "1.IH" [OF refl longer] f unfolding t by blast
    have eq: "delete t ?n pre key = (case delete t nv (pre @ nk) ?r of
        Inl e \<Rightarrow> Inl e
      | Inr (d, child) \<Rightarrow>
          if \<not> d then Inr (False, ?n) else Inr (True, merged t nk child))"
      using longer by (auto simp: t merged_def split: sum.split node.split)
    show ?thesis
    proof (cases "delete t nv (pre @ nk) ?r")
      case (Inl e)
      then show ?thesis using IH unfolding eq self by simp
    next
      case (Inr res)
      then obtain d child where res: "delete t nv (pre @ nk) ?r = Inr (d, child)" by (cases res) simp
      with IH have ok: "del_ok t (pre @ nk) nv ?r d child" by simp
      show ?thesis
      proof (cases d)
        case False
        then have "lk t pre ?n key = Inr None" using ok self by (simp add: del_ok_def)
        then show ?thesis using False res "1.prems" unfolding eq by (simp add: del_ok_refl)
      next
        case True
        have ic: "inner child" using ok r by (simp add: del_ok_def fits_def)
        have goal: "del_ok t pre ?n key d n'" if "inner n'" "\<And>key'. lk t pre n' key' = lk t pre (ShortN nk child fl) key'" for n'
          using del_ok_Short [OF ok i _ that] tk k by simp
        show ?thesis using res True goal [OF merged_ok [OF ic inv]] unfolding eq by simp
      qed
    qed
  qed
next
  case (2 t cs fl pre key)
  then have key: "key \<noteq> []" and i: "inner (FullN cs fl)" and tk: "term_key key" by (auto simp: fits_def split: if_splits)
  then obtain c kr where c: "key = c # kr" by (cases key) auto
  have u: "unat c < length cs" and f: "fits (cs ! unat c) kr" using fits_child [of cs fl c kr] i tk c by simp_all
  have IH: "case delete t (cs ! unat c) (pre @ [c]) kr of
      Inl e \<Rightarrow> from_db t e \<and> (\<forall>e'. lk t (pre @ [c]) (cs ! unat c) kr = Inl e' \<longrightarrow> e' = e)
    | Inr (d, n') \<Rightarrow> del_ok t (pre @ [c]) (cs ! unat c) kr d n'"
    using "2.IH" key u f unfolding c list.sel by blast
  show ?case
  proof (cases "delete t (cs ! unat c) (pre @ [c]) kr")
    case (Inl e)
    then show ?thesis using IH u by (auto simp: c)
  next
    case (Inr r)
    then obtain d nn where r: "delete t (cs ! unat c) (pre @ [c]) kr = Inr (d, nn)" by (cases r) simp
    with IH have ok: "del_ok t (pre @ [c]) (cs ! unat c) kr d nn" by simp
    show ?thesis
    proof (cases d)
      case False
      with ok have "lk t pre (FullN cs fl) key = Inr None" using u by (simp add: del_ok_def c)
      then show ?thesis using r False u "2.prems" by (simp add: c del_ok_refl del: lk.simps)
    next
      case True
      then have ok: "del_ok t (pre @ [c]) (cs ! unat c) kr True nn" using ok by simp
      have in': "inner (FullN (cs[unat c := nn]) fl)"
        using inner_child_update [OF i] tk ok by (simp add: c del_ok_def)
      have "case delete_reduce t (cs[unat c := nn]) pre of
          Inl e \<Rightarrow> from_db t e
        | Inr (d, n) \<Rightarrow> d \<and> inner n \<and>
            (\<forall>key. term_key key \<longrightarrow> lk t pre n key = lk t pre (FullN (cs[unat c := nn]) fl) key)"
        by (rule delete_reduce_ok [OF in'])
      moreover have "\<exists>v. lk t pre (FullN cs fl) key = Inr (Some v)" using ok u by (simp add: del_ok_def c)
      ultimately show ?thesis using r True u ok i tk
        by (cases "delete_reduce t (cs[unat c := nn]) pre")
          (auto simp: c simp del: lk.simps intro!: del_ok_Full [OF ok i])
    qed
  qed
next
  case (3 t v pre key)
  then show ?case by (auto simp: fits_def del_ok_def same_below_def split: if_splits)
next
  case (4 t pre key)
  then show ?case by (simp add: del_ok_refl)
next
  case (5 t h pre key)
  then have tk: "term_key key" by simp
  show ?case
  proof (cases "resolveHash t h pre key")
    case (Inl e)
    then show ?thesis by auto
  next
    case (Inr rn)
    have f: "fits rn key" using resolveHash_inner [OF Inr] tk by (auto simp: fits_def)
    have eq: "lk t pre (HashN h) key' = lk t pre rn key'" for key'
      using resolveHash_indep [OF Inr] by simp
    show ?thesis using "5.IH" [OF Inr f] Inr f tk
      by (auto simp: del_ok_def same_below_def eq simp del: lk.simps split: sum.splits)
  qed
qed

section \<open>The laws of the map\<close>

lemma trie_fits: "trie_ok t \<Longrightarrow> fits (t_root t) (compactHexDecode key)"
  using term_key_compactHexDecode [of key] by (auto simp: trie_ok_def fits_def compactHexDecode_unpack)

lemma lookup_root [simp]: "lookup (t\<lparr>t_root := n\<rparr>) key = lk t [] n (compactHexDecode key)"
  by (simp add: lookup_def)

lemma trie_ok_root [simp]: "trie_ok (t\<lparr>t_root := n\<rparr>) \<longleftrightarrow> inner n"
  by (simp add: trie_ok_def)

lemma TryGet_ok:
  assumes "trie_ok t"
  shows "fst (TryGet t key) = lookup t key" "trie_ok (snd (TryGet t key))"
    "lookup (snd (TryGet t key)) key' = lookup t key'"
proof -
  have "fst (TryGet t key) = lookup t key \<and> trie_ok (snd (TryGet t key)) \<and>
      lookup (snd (TryGet t key)) key' = lookup t key'"
    using tryGet_lk [of 0 "compactHexDecode key" t "t_root t"] assms
    by (auto simp: TryGet_def lookup_def trie_ok_def split: sum.splits)
  then show "fst (TryGet t key) = lookup t key" "trie_ok (snd (TryGet t key))"
    "lookup (snd (TryGet t key)) key' = lookup t key'" by simp_all
qed

lemma TryUpdate_insert:
  assumes "trie_ok t" "val \<noteq> []"
  shows "case TryUpdate t key val of
      (Some e, t') \<Rightarrow> t' = t \<and> lookup t key = Inl e \<and> from_db t e
    | (None, t') \<Rightarrow> trie_ok t' \<and> lookup t' key = Inr (Some val) \<and> (\<forall>k. k \<noteq> key \<longrightarrow> lookup t' k = lookup t k)"
proof -
  let ?k = "compactHexDecode key"
  have ne: "?k \<noteq> []" by (simp add: compactHexDecode_unpack)
  have "case insert_node t (t_root t) [] ?k (ValueN val) of
      Inl e \<Rightarrow> lk t [] (t_root t) ?k = Inl e \<and> from_db t e
    | Inr (d, n') \<Rightarrow> ins_ok t [] (t_root t) ?k val d n'"
    using insert_ok [OF trie_fits [OF assms(1), of key] refl] .
  then show ?thesis using assms(2) ne
    by (auto simp: TryUpdate_def lookup_def ins_ok_def same_below_def compactHexDecode_inj split: sum.splits)
qed

lemma delete_lookup:
  assumes "trie_ok t"
  shows "case delete t (t_root t) [] (compactHexDecode key) of
      Inl e \<Rightarrow> from_db t e \<and> (\<forall>e'. lookup t key = Inl e' \<longrightarrow> e' = e)
    | Inr (d, n) \<Rightarrow> inner n \<and> lookup (t\<lparr>t_root := n\<rparr>) key = Inr None \<and>
        (\<forall>k. k \<noteq> key \<longrightarrow> lookup (t\<lparr>t_root := n\<rparr>) k = lookup t k) \<and> (\<forall>e. lookup t key \<noteq> Inl e)"
proof -
  let ?k = "compactHexDecode key"
  have ne: "?k \<noteq> []" by (simp add: compactHexDecode_unpack)
  have "case delete t (t_root t) [] ?k of
      Inl e \<Rightarrow> from_db t e \<and> (\<forall>e'. lk t [] (t_root t) ?k = Inl e' \<longrightarrow> e' = e)
    | Inr (d, n') \<Rightarrow> del_ok t [] (t_root t) ?k d n'"
    by (rule delete_ok [OF trie_fits [OF assms]])
  then show ?thesis using ne
    by (auto simp: lookup_def del_ok_def fits_def same_below_def compactHexDecode_inj split: sum.splits if_splits)
qed

lemma TryUpdate_delete: "val = [] \<Longrightarrow> TryUpdate t key val = TryDelete t key"
  by (simp add: TryUpdate_def TryDelete_def)

lemma TryUpdate_law:
  assumes "trie_ok t" "TryUpdate t key val = (None, t')"
  shows "trie_ok t'" "lookup t' k = (if k = key then Inr (if val = [] then None else Some val) else lookup t k)"
proof -
  have "trie_ok t' \<and> lookup t' k = (if k = key then Inr (if val = [] then None else Some val) else lookup t k)"
  proof (cases "val = []")
    case True
    then show ?thesis using assms(2) delete_lookup [OF assms(1), of key]
      by (auto simp: TryUpdate_def split: sum.splits)
  next
    case False
    then show ?thesis using assms(2) TryUpdate_insert [OF assms(1) False, of key] by auto
  qed
  then show "trie_ok t'" "lookup t' k = (if k = key then Inr (if val = [] then None else Some val) else lookup t k)"
    by simp_all
qed

section \<open>Stores with fallible updates\<close>

text \<open>
  The interface that the clients of a trie rely on: an update that succeeds changes one key, and one
  that fails changes nothing. A sequence of updates stops at the first error.
\<close>

fun updates :: "('s \<Rightarrow> 'k \<Rightarrow> 'v \<Rightarrow> 'e option \<times> 's) \<Rightarrow> 's \<Rightarrow> ('k \<times> 'v) list \<Rightarrow> 'e option \<times> 's" where
  "updates upd s [] = (None, s)"
| "updates upd s ((k, v) # kvs) =
     (case upd s k v of (Some e, s') \<Rightarrow> (Some e, s') | (None, s') \<Rightarrow> updates upd s' kvs)"

locale kv_store =
  fixes ok :: "'s \<Rightarrow> bool"
    and look :: "'s \<Rightarrow> 'k \<Rightarrow> 'e + 'v option"
    and upd :: "'s \<Rightarrow> 'k \<Rightarrow> 'v \<Rightarrow> 'e option \<times> 's"
    and entry :: "'v \<Rightarrow> 'v option"
  assumes upd_ok: "ok s \<Longrightarrow> upd s k v = (None, s') \<Longrightarrow> ok s'"
    and look_upd: "ok s \<Longrightarrow> upd s k v = (None, s') \<Longrightarrow> look s' k' = (if k' = k then Inr (entry v) else look s k')"
    and upd_err: "upd s k v = (Some e, s') \<Longrightarrow> s' = s"
begin

lemma updates_ok: "ok s \<Longrightarrow> ok (snd (updates upd s kvs))"
proof (induction kvs arbitrary: s)
  case (Cons kv kvs)
  obtain a v where kv: "kv = (a, v)" by (cases kv)
  show ?case
  proof (cases "upd s a v")
    case (Pair r s1)
    then show ?thesis using Cons kv upd_ok [of s a v s1] upd_err [of s a v _ s1] by (cases r) auto
  qed
qed simp

lemma updates_look:
  "ok s \<Longrightarrow> updates upd s kvs = (None, s') \<Longrightarrow>
   look s' k = (case map_of (rev kvs) k of None \<Rightarrow> look s k | Some v \<Rightarrow> Inr (entry v))"
proof (induction kvs arbitrary: s)
  case (Cons kv kvs)
  obtain a v where kv: "kv = (a, v)" by (cases kv)
  with Cons.prems obtain s1 where s1: "upd s a v = (None, s1)" "updates upd s1 kvs = (None, s')"
    by (auto split: prod.splits option.splits)
  then show ?case using Cons.IH [OF upd_ok [OF Cons.prems(1) s1(1)] s1(2)] look_upd [OF Cons.prems(1) s1(1), of k] kv
    by (auto simp: map_add_def split: option.splits)
qed simp

end

interpretation trie_kv: kv_store trie_ok lookup TryUpdate "\<lambda>v. if v = [] then None else Some v"
proof
  show "trie_ok s'" if "trie_ok s" "TryUpdate s k v = (None, s')" for s k v s'
    using TryUpdate_law(1) [OF that] .
  show "lookup s' k' = (if k' = k then Inr (if v = [] then None else Some v) else lookup s k')"
    if "trie_ok s" "TryUpdate s k v = (None, s')" for s k v s' k'
    using TryUpdate_law(2) [OF that] .
  show "s' = s" if "TryUpdate s k v = (Some e, s')" for s k v e s'
    using that by (auto simp: TryUpdate_def Let_def split: if_splits sum.splits)
qed

section \<open>Tries in memory\<close>

text \<open>On a node without hash nodes below it no operation touches the database, and none fails.\<close>

fun loaded :: "node \<Rightarrow> bool" where
  "loaded (HashN h) = False"
| "loaded (ShortN k v fl) = loaded v"
| "loaded (FullN cs fl) = (\<forall>c\<in>set cs. loaded c)"
| "loaded n = True"

lemma loaded_update: "\<forall>c\<in>set cs. loaded c \<Longrightarrow> loaded n \<Longrightarrow> \<forall>c\<in>set (cs[i := n]). loaded c"
  by (auto dest!: set_update_subset_insert [THEN subsetD])

lemma lk_loaded: "loaded n \<Longrightarrow> fits n key \<Longrightarrow> \<exists>v. lk t pre n key = Inr v"
proof (induction t pre n key rule: lk.induct)
  case (3 t pre k v fl key)
  then have i: "inner (ShortN k v fl)" "term_key key" by (auto simp: fits_def split: if_splits)
  show ?case
  proof (cases "take (length k) key = k")
    case True
    then have "k @ drop (length k) key = key" by (metis append_take_drop_id)
    then have "fits v (drop (length k) key)" using fits_short [OF i(1)] i(2) by simp
    then show ?thesis using "3.IH" [OF True] "3.prems"(1) True by (simp add: lk.simps(3))
  qed (simp add: lk.simps(3))
next
  case (4 t pre cs fl key)
  then have i: "inner (FullN cs fl)" "term_key key" by (auto simp: fits_def split: if_splits)
  then obtain c kr where c: "key = c # kr" by (cases key) auto
  have "fits (cs ! unat c) kr" "unat c < length cs" using fits_child [OF i(1)] i(2) c by simp_all
  then show ?case using "4.IH" "4.prems"(1) c by simp
qed (simp_all add: fits_def)

lemma insert_loaded:
  "loaded n \<Longrightarrow> loaded val \<Longrightarrow> insert_node t n pre key val = Inr (d, n') \<Longrightarrow> loaded n'"
proof (induction t n pre key val arbitrary: d n' rule: insert_node.induct)
  case (1 t n pre key val)
  note eq = "1.prems"(3) [unfolded insert_node.simps [of t n]]
  show ?case
  proof (cases "key = []")
    case True
    then show ?thesis using eq "1.prems"(1,2) by (auto split: node.splits)
  next
    case key: False
    show ?thesis
    proof (cases n)
      case (FullN cs fl)
      note eq = eq [simplified FullN node.case if_not_P [OF key]]
      then obtain d' nn where u: "unat (hd key) < length cs"
        and r: "insert_node t (cs ! unat (hd key)) (pre @ [hd key]) (tl key) val = Inr (d', nn)"
        and n': "n' = (if d' then FullN (cs[unat (hd key) := nn]) (newFlag t) else FullN cs fl)"
        by (simp split: if_split_asm sum.split_asm prod.split_asm)
      then have "loaded nn" using 1(1) [OF key FullN _ _ "1.prems"(2) r] "1.prems"(1) FullN by simp
      then show ?thesis using n' "1.prems"(1) FullN loaded_update [of cs nn "unat (hd key)"] by simp
    next
      case (ShortN nk nv fl)
      show ?thesis
      proof (cases "prefixLen key nk = length nk")
        case True
        with eq key ShortN obtain d' nn where
          r: "insert_node t nv (pre @ take (prefixLen key nk) key) (drop (prefixLen key nk) key) val = Inr (d', nn)"
          and n': "n' = (if d' then ShortN nk nn (newFlag t) else ShortN nk nv fl)"
          by (auto simp: Let_def split: if_splits sum.splits)
        then have "loaded nn" using 1(2) [OF key ShortN refl True _ "1.prems"(2) r] "1.prems"(1) ShortN by simp
        then show ?thesis using n' "1.prems"(1) ShortN by simp
      next
        case False
        have b: "loaded (FullN ((replicate 17 NilN)[i := c1, j := c2]) fl')" if "loaded c1" "loaded c2" for i j c1 c2 fl'
          using that loaded_update [OF loaded_update [of "replicate 17 NilN" c1 i], of c2 j] by simp
        let ?m = "prefixLen key nk"
        have "n' = FullN ((replicate 17 NilN)
              [unat (nk ! ?m) := (if drop (?m + 1) nk = [] then nv else ShortN (drop (?m + 1) nk) nv (newFlag t)),
               unat (key ! ?m) := (if drop (?m + 1) key = [] then val else ShortN (drop (?m + 1) key) val (newFlag t))])
              (newFlag t) \<or>
            n' = ShortN (take ?m key) (FullN ((replicate 17 NilN)
              [unat (nk ! ?m) := (if drop (?m + 1) nk = [] then nv else ShortN (drop (?m + 1) nk) nv (newFlag t)),
               unat (key ! ?m) := (if drop (?m + 1) key = [] then val else ShortN (drop (?m + 1) key) val (newFlag t))])
              (newFlag t)) (newFlag t)"
          using eq key ShortN False by (simp add: Let_def insert_Nil split: if_split_asm)
        moreover have "loaded nv" using "1.prems"(1) ShortN by simp
        ultimately show ?thesis using "1.prems"(2) by (auto simp: b simp del: loaded.simps(3))
      qed
    qed (use eq key "1.prems" in \<open>auto\<close>)
  qed
qed

lemma delete_reduce_loaded:
  assumes "\<forall>c\<in>set cs. loaded c" "length cs = 17"
  shows "\<exists>d n. delete_reduce t cs pre = Inr (d, n) \<and> loaded n"
proof (cases "delete_scan 0 (-1) cs \<ge> 0")
  case True
  then obtain j where j: "j < length cs" "delete_scan 0 (-1) cs = int j"
    using delete_scan_single [of 0 "-1" cs] by auto
  then have l: "loaded (cs ! j)" using assms(1) by simp
  then have "resolve t (cs ! j) pre [word_of_nat j] = Inr (cs ! j)" by (cases "cs ! j") (simp_all add: resolve_def)
  then show ?thesis using j l by (cases "cs ! j") (auto simp: delete_reduce_def Let_def)
qed (use assms in \<open>auto simp: delete_reduce_def Let_def\<close>)

lemma delete_loaded:
  "loaded n \<Longrightarrow> fits n key \<Longrightarrow> \<exists>d n'. delete t n pre key = Inr (d, n') \<and> loaded n'"
proof (induction t n pre key rule: delete.induct)
  case (1 t nk nv fl pre key)
  then have i: "inner (ShortN nk nv fl)" "term_key key" by (auto simp: fits_def split: if_splits)
  show ?case
  proof (cases "prefixLen key nk < length nk \<or> prefixLen key nk = length key")
    case True
    then show ?thesis using "1.prems" by (auto simp: Let_def)
  next
    case False
    then have "take (length nk) key = nk" using prefixLen_full [of key nk] prefixLen_le(2) [of key nk] by simp
    then have "nk @ drop (length nk) key = key" by (metis append_take_drop_id)
    then have "fits nv (drop (length nk) key)" using fits_short [OF i(1)] i(2) by simp
    then obtain d n' where "delete t nv (pre @ take (length nk) key) (drop (length nk) key) = Inr (d, n')" "loaded n'"
      using "1.IH" [OF refl] False "1.prems"(1) by auto
    then show ?thesis using False "1.prems"(1) by (cases n') auto
  qed
next
  case (2 t cs fl pre key)
  then have i: "inner (FullN cs fl)" "term_key key" by (auto simp: fits_def split: if_splits)
  then obtain c kr where c: "key = c # kr" by (cases key) auto
  have u: "fits (cs ! unat c) kr" "unat c < length cs" using fits_child [OF i(1)] i(2) c by simp_all
  then obtain d n' where "delete t (cs ! unat c) (pre @ [c]) kr = Inr (d, n')" "loaded n'"
    using "2.IH" "2.prems"(1) c by auto
  then show ?case using u c i(1) "2.prems"(1) loaded_update [of cs n' "unat c"]
      delete_reduce_loaded [of "cs[unat c := n']" t pre]
    by (cases d) (auto simp: inner_Full)
qed auto

lemma TryUpdate_loaded:
  assumes "trie_ok t" "loaded (t_root t)"
  shows "\<exists>t'. TryUpdate t key val = (None, t') \<and> loaded (t_root t')"
proof (cases "val = []")
  case True
  then show ?thesis using delete_loaded [OF assms(2) trie_fits [OF assms(1)], of t "[]" key]
    by (auto simp: TryUpdate_def)
next
  case False
  have "\<exists>v. lookup t key = Inr v" unfolding lookup_def by (rule lk_loaded [OF assms(2) trie_fits [OF assms(1)]])
  then obtain d n where n: "insert_node t (t_root t) [] (compactHexDecode key) (ValueN val) = Inr (d, n)"
    using insert_ok [OF trie_fits [OF assms(1), of key] refl, of t "[]" val] by (auto simp: lookup_def split: sum.splits)
  then have "loaded n" using insert_loaded [OF assms(2) _ n] by simp
  then show ?thesis using n False by (simp add: TryUpdate_def)
qed

lemma updates_loaded:
  "trie_ok t \<Longrightarrow> loaded (t_root t) \<Longrightarrow> \<exists>t'. updates TryUpdate t kvs = (None, t') \<and> trie_ok t'"
proof (induction kvs arbitrary: t)
  case (Cons kv kvs)
  obtain k v where kv: "kv = (k, v)" by (cases kv)
  obtain t' where t': "TryUpdate t k v = (None, t')" "loaded (t_root t')" using TryUpdate_loaded [OF Cons.prems] by blast
  then show ?case using Cons.IH [of t'] TryUpdate_law(1) [OF Cons.prems(1) t'(1)] kv by simp
qed simp

lemma New_empty: "New (replicate 32 0) db = Inr t \<Longrightarrow> t_root t = NilN \<and> trie_ok t \<and> lookup t k = Inr None"
  by (auto simp: New_def Let_def trie_ok_def lookup_def)

text \<open>A trie with one leaf in memory, and one whose root is behind a hash that the database lacks.\<close>

definition leaf_trie :: Trie where
  "leaf_trie = \<lparr>t_root = ShortN (compactHexDecode [1]) (ValueN [7]) \<lparr>fl_hash = None, fl_gen = 0, fl_dirty = True\<rparr>,
     t_db = None, t_originalRoot = replicate 32 0, t_cachegen = 0, t_cachelimit = 0\<rparr>"

definition missing_trie :: Trie where
  "missing_trie = \<lparr>t_root = HashN (replicate 32 1), t_db = Some (\<lambda>_. None), t_originalRoot = replicate 32 1,
     t_cachegen = 0, t_cachelimit = 0\<rparr>"

lemma leaf_trie_ok: "trie_ok leaf_trie" "loaded (t_root leaf_trie)"
  by (simp_all add: leaf_trie_def trie_ok_def)

section \<open>Properties\<close>

text \<open>
  C28: A read returns what the lookup along the key gives, errors included, and although it replaces
  hash nodes by loaded nodes it changes the content of no key.
\<close>

theorem TryGet_spec:
  assumes "trie_ok t" "TryGet t key = (r, t')"
  shows "r = lk t [] (t_root t) (compactHexDecode key) \<and> trie_ok t' \<and> (\<forall>k. fst (TryGet t' k) = fst (TryGet t k))"
  using TryGet_ok [OF assms(1), of key] TryGet_ok(1) [OF assms(1)] assms(2) TryGet_ok(1) [of t']
  by (auto simp: lookup_def)

theorem TryGet_spec_witness:
  "\<exists>r t'. TryGet leaf_trie [1] = (r, t') \<and> r = Inr (Some [7]) \<and> fst (TryGet t' [2]) = fst (TryGet leaf_trie [2])"
proof -
  obtain r t' where g: "TryGet leaf_trie [1] = (r, t')" by (cases "TryGet leaf_trie [1]")
  then show ?thesis using TryGet_spec [OF leaf_trie_ok(1) g]
    by (simp add: leaf_trie_def lk_leaf_term)
qed

text \<open>
  C10: A successful update makes the key hold the value (or nothing, for the empty value) and leaves
  the result of reading every other key as it was, errors included.
\<close>

theorem TryUpdate_spec:
  assumes "trie_ok t" "TryUpdate t key val = (None, t')"
  shows "trie_ok t' \<and>
    fst (TryGet t' k) = (if k = key then Inr (if val = [] then None else Some val) else fst (TryGet t k))"
  using TryUpdate_law [OF assms] TryGet_ok(1) [OF assms(1)] TryGet_ok(1) [of t'] by simp

theorem TryUpdate_spec_witness:
  "\<exists>t'. TryUpdate leaf_trie [2] [8] = (None, t') \<and>
     fst (TryGet t' [2]) = Inr (Some [8]) \<and> fst (TryGet t' [1]) = fst (TryGet leaf_trie [1])"
proof -
  obtain t' where t': "TryUpdate leaf_trie [2] [8] = (None, t')" using TryUpdate_loaded [OF leaf_trie_ok] by blast
  then show ?thesis
    using TryUpdate_spec [OF leaf_trie_ok(1) t', of "[1]"] TryUpdate_spec [OF leaf_trie_ok(1) t', of "[2]"] by simp
qed



text \<open>
  C9: A new trie is a finite map: after any sequence of updates, none of which fails, every key holds
  the last value written to it, and nothing when that value is empty.
\<close>

theorem trie_updates_spec:
  assumes "New (replicate 32 0) db = Inr t"
  shows "\<exists>t'. updates TryUpdate t kvs = (None, t') \<and>
    fst (TryGet t' k) = Inr (case map_of (rev kvs) k of None \<Rightarrow> None | Some v \<Rightarrow> if v = [] then None else Some v)"
proof -
  have t: "trie_ok t" "loaded (t_root t)" "lookup t k = Inr None" using New_empty [OF assms] by simp_all
  obtain t' where t': "updates TryUpdate t kvs = (None, t')" "trie_ok t'" using updates_loaded [OF t(1,2)] by blast
  then show ?thesis
    using trie_kv.updates_look [OF t(1) t'(1), of k] t(3) TryGet_ok(1) [OF t'(2), of k] by (auto split: option.split)
qed

theorem trie_updates_spec_witness:
  "\<exists>t t'. New (replicate 32 0) None = Inr t \<and>
     updates TryUpdate t [([1], [7]), ([1, 2], [8]), ([1], [])] = (None, t') \<and>
     fst (TryGet t' [1, 2]) = Inr (Some [8])"
proof -
  obtain t where t: "New (replicate 32 0) None = Inr t" by (simp add: New_def)
  then show ?thesis
    using trie_updates_spec [OF t, of "[([1], [7]), ([1, 2], [8]), ([1], [])]" "[1, 2]"] by auto
qed

end
