(* ===== verification/VM_Params.thy ===== *)
theory VM_Params
  imports Common
begin

text \<open>
  Chain configuration and gas prices: \<open>params/config.go\<close>, \<open>params/gas_table.go\<close>, the constants of
  \<open>params/protocol_params.go\<close> and of \<open>core/vm/gas.go\<close> that the virtual machine and the state transition
  use. A nil \<open>big.Int\<close> is \<open>None\<close>.
\<close>

section \<open>Configuration\<close>

record ChainConfig =
  ChainId :: int
  HomesteadBlock :: "int option"
  DAOForkBlock :: "int option"
  DAOForkSupport :: bool
  EIP150Block :: "int option"
  EIP150Hash :: hash
  EIP155Block :: "int option"
  EIP158Block :: "int option"

definition IsHomestead :: "ChainConfig \<Rightarrow> int option \<Rightarrow> bool" where
  "IsHomestead c num =
     (case (HomesteadBlock c, num) of (Some b, Some n) \<Rightarrow> n \<ge> b | _ \<Rightarrow> False)"

definition IsEIP150 :: "ChainConfig \<Rightarrow> int option \<Rightarrow> bool" where
  "IsEIP150 c num =
     (case (EIP150Block c, num) of (Some b, Some n) \<Rightarrow> n \<ge> b | _ \<Rightarrow> False)"

definition IsEIP155 :: "ChainConfig \<Rightarrow> int option \<Rightarrow> bool" where
  "IsEIP155 c num =
     (case (EIP155Block c, num) of (Some b, Some n) \<Rightarrow> n \<ge> b | _ \<Rightarrow> False)"

definition IsEIP158 :: "ChainConfig \<Rightarrow> int option \<Rightarrow> bool" where
  "IsEIP158 c num =
     (case (EIP158Block c, num) of (Some b, Some n) \<Rightarrow> n \<ge> b | _ \<Rightarrow> False)"

section \<open>Gas tables\<close>

record GasTable =
  ExtcodeSize :: int
  ExtcodeCopy :: int
  gt_Balance :: int
  SLoad :: int
  Calls :: int
  gt_Suicide :: int
  ExpByte :: int
  CreateBySuicide :: "int option"

definition GasTableHomestead :: GasTable where
  "GasTableHomestead =
     \<lparr>ExtcodeSize = 20, ExtcodeCopy = 20, gt_Balance = 20, SLoad = 50, Calls = 40, gt_Suicide = 0,
      ExpByte = 10, CreateBySuicide = None\<rparr>"

definition GasTableHomesteadGasRepriceFork :: GasTable where
  "GasTableHomesteadGasRepriceFork =
     \<lparr>ExtcodeSize = 700, ExtcodeCopy = 700, gt_Balance = 400, SLoad = 200, Calls = 700, gt_Suicide = 5000,
      ExpByte = 10, CreateBySuicide = Some 25000\<rparr>"

definition GasTableEIP158 :: GasTable where
  "GasTableEIP158 =
     \<lparr>ExtcodeSize = 700, ExtcodeCopy = 700, gt_Balance = 400, SLoad = 200, Calls = 700, gt_Suicide = 5000,
      ExpByte = 50, CreateBySuicide = Some 25000\<rparr>"

definition cfg_GasTable :: "ChainConfig \<Rightarrow> int option \<Rightarrow> GasTable" where
  "cfg_GasTable c num =
     (case num of
        None \<Rightarrow> GasTableHomestead
      | Some n \<Rightarrow>
          (if (case EIP158Block c of None \<Rightarrow> False | Some b \<Rightarrow> n \<ge> b) then GasTableEIP158
           else if (case EIP150Block c of None \<Rightarrow> False | Some b \<Rightarrow> n \<ge> b) then GasTableHomesteadGasRepriceFork
           else GasTableHomestead))"

section \<open>Prices and limits\<close>

named_theorems gas_prices

definition GasQuickStep :: int where [gas_prices]: "GasQuickStep = 2"
definition GasFastestStep :: int where [gas_prices]: "GasFastestStep = 3"
definition GasFastStep :: int where [gas_prices]: "GasFastStep = 5"
definition GasMidStep :: int where [gas_prices]: "GasMidStep = 8"
definition GasSlowStep :: int where [gas_prices]: "GasSlowStep = 10"
definition GasExtStep :: int where [gas_prices]: "GasExtStep = 20"

definition CallValueTransferGas :: int where [gas_prices]: "CallValueTransferGas = 9000"
definition CallNewAccountGas :: int where [gas_prices]: "CallNewAccountGas = 25000"
definition TxGas :: int where [gas_prices]: "TxGas = 21000"
definition TxGasContractCreation :: int where [gas_prices]: "TxGasContractCreation = 53000"
definition TxDataZeroGas :: int where [gas_prices]: "TxDataZeroGas = 4"
definition TxDataNonZeroGas :: int where [gas_prices]: "TxDataNonZeroGas = 68"
definition QuadCoeffDiv :: int where [gas_prices]: "QuadCoeffDiv = 512"
definition SstoreSetGas :: int where [gas_prices]: "SstoreSetGas = 20000"
definition SstoreResetGas :: int where [gas_prices]: "SstoreResetGas = 5000"
definition SstoreClearGas :: int where [gas_prices]: "SstoreClearGas = 5000"
definition SstoreRefundGas :: int where [gas_prices]: "SstoreRefundGas = 15000"
definition LogDataGas :: int where [gas_prices]: "LogDataGas = 8"
definition LogGas :: int where [gas_prices]: "LogGas = 375"
definition LogTopicGas :: int where [gas_prices]: "LogTopicGas = 375"
definition CallStipend :: int where [gas_prices]: "CallStipend = 2300"
definition EcrecoverGas :: int where [gas_prices]: "EcrecoverGas = 3000"
definition Sha256WordGas :: int where [gas_prices]: "Sha256WordGas = 12"
definition Sha256Gas :: int where [gas_prices]: "Sha256Gas = 60"
definition Ripemd160Gas :: int where [gas_prices]: "Ripemd160Gas = 600"
definition Ripemd160WordGas :: int where [gas_prices]: "Ripemd160WordGas = 120"
definition IdentityWordGas :: int where [gas_prices]: "IdentityWordGas = 3"
definition IdentityGas :: int where [gas_prices]: "IdentityGas = 15"
definition SloadGas :: int where [gas_prices]: "SloadGas = 50"
definition Sha3Gas :: int where [gas_prices]: "Sha3Gas = 30"
definition Sha3WordGas :: int where [gas_prices]: "Sha3WordGas = 6"
definition JumpdestGas :: int where [gas_prices]: "JumpdestGas = 1"
definition CreateGas :: int where [gas_prices]: "CreateGas = 32000"
definition CreateDataGas :: int where [gas_prices]: "CreateDataGas = 200"
definition CopyGas :: int where [gas_prices]: "CopyGas = 3"
definition MemoryGas :: int where [gas_prices]: "MemoryGas = 3"
definition SuicideRefundGas :: int where [gas_prices]: "SuicideRefundGas = 24000"

definition StackLimit :: nat where "StackLimit = 1024"
definition CallCreateDepth :: nat where "CallCreateDepth = 1024"
definition MaxCodeSize :: nat where "MaxCodeSize = 24576"

lemma cfg_GasTable_cases:
  "cfg_GasTable c num \<in> {GasTableHomestead, GasTableHomesteadGasRepriceFork, GasTableEIP158}"
  by (auto simp: cfg_GasTable_def split: option.split)

text \<open>The prices of a gas table are at least one, except for the suicide before EIP 150.\<close>

lemma cfg_GasTable_pos:
  "ExtcodeSize (cfg_GasTable c num) \<ge> 20" "ExtcodeCopy (cfg_GasTable c num) \<ge> 20"
  "gt_Balance (cfg_GasTable c num) \<ge> 20" "SLoad (cfg_GasTable c num) \<ge> 50"
  "Calls (cfg_GasTable c num) \<ge> 40" "gt_Suicide (cfg_GasTable c num) \<ge> 0"
  "ExpByte (cfg_GasTable c num) \<ge> 10"
  "CreateBySuicide (cfg_GasTable c num) = Some g \<Longrightarrow> g = 25000"
  using cfg_GasTable_cases [of c num]
  by (auto simp: GasTableHomestead_def GasTableHomesteadGasRepriceFork_def GasTableEIP158_def)

end
