(* ===== verification/VM_Machine.thy ===== *)
theory VM_Machine
  imports VM_Params
begin

text \<open>
  The parts of the virtual machine of \<open>core/vm\<close>: opcodes (\<open>opcodes.go\<close>), the stack (\<open>stack.go\<close>), the
  memory (\<open>memory.go\<close>), the helpers of \<open>common.go\<close>, the analysis of jump destinations (\<open>analysis.go\<close>),
  contracts (\<open>contract.go\<close>) and the interface to the state (\<open>interface.go\<close>).

  A computation of the machine returns, panics, or runs out of the fuel that bounds the recursion of
  the model. An index out of range is a panic. The stack is a list whose first element is its top, so
  that \<open>stack.data[stack.len()-n]\<close> is \<open>st ! (n - 1)\<close>.
\<close>

datatype 'a exec = NoFuel | Panicked | Ret 'a

fun exec_bind :: "'a exec \<Rightarrow> ('a \<Rightarrow> 'b exec) \<Rightarrow> 'b exec" where
  "exec_bind (Ret x) f = f x"
| "exec_bind Panicked f = Panicked"
| "exec_bind NoFuel f = NoFuel"

section \<open>Opcodes\<close>

text \<open>
  The opcodes in the groups in which the source declares them. The families \<open>PUSH1\<close> to \<open>PUSH32\<close>,
  \<open>DUP1\<close> to \<open>DUP16\<close>, \<open>SWAP1\<close> to \<open>SWAP16\<close> and \<open>LOG0\<close> to \<open>LOG4\<close> are indexed by a number.
\<close>

datatype arith_op = ADD | MUL | SUB | DIV | SDIV | MOD | SMOD | ADDMOD | MULMOD | EXP | SIGNEXTEND

datatype bit_op = LT | GT | SLT | SGT | EQ | ISZERO | ANDop | ORop | XORop | NOTop | BYTE

datatype closure_op =
    ADDRESS | BALANCE | ORIGIN | CALLER | CALLVALUE | CALLDATALOAD | CALLDATASIZE | CALLDATACOPY
  | CODESIZE | CODECOPY | GASPRICE | EXTCODESIZE | EXTCODECOPY

datatype block_op = BLOCKHASH | COINBASE | TIMESTAMP | NUMBER | DIFFICULTY | GASLIMIT

datatype store_op = POP | MLOAD | MSTORE | MSTORE8 | SLOAD | SSTORE | PC | MSIZE | GAS | JUMPDEST

datatype call_op = CREATE | CALL | CALLCODE | DELEGATECALL

datatype opcode =
    STOP | JUMP | JUMPI | RETURN | SUICIDE | SHA3
  | Arith arith_op | Bitwise bit_op | Closure closure_op | Block block_op | Store store_op | Call call_op
  | PUSH nat | DUP nat | SWAP nat | LOG nat | UNDEF byte

definition opcode_table :: "(nat \<times> opcode) list" where
  "opcode_table =
     [(0x00, STOP), (0x01, Arith ADD), (0x02, Arith MUL), (0x03, Arith SUB), (0x04, Arith DIV), (0x05, Arith SDIV),
      (0x06, Arith MOD), (0x07, Arith SMOD), (0x08, Arith ADDMOD), (0x09, Arith MULMOD), (0x0a, Arith EXP),
      (0x0b, Arith SIGNEXTEND),
      (0x10, Bitwise LT), (0x11, Bitwise GT), (0x12, Bitwise SLT), (0x13, Bitwise SGT), (0x14, Bitwise EQ),
      (0x15, Bitwise ISZERO), (0x16, Bitwise ANDop), (0x17, Bitwise ORop), (0x18, Bitwise XORop),
      (0x19, Bitwise NOTop), (0x1a, Bitwise BYTE), (0x20, SHA3),
      (0x30, Closure ADDRESS), (0x31, Closure BALANCE), (0x32, Closure ORIGIN), (0x33, Closure CALLER),
      (0x34, Closure CALLVALUE), (0x35, Closure CALLDATALOAD), (0x36, Closure CALLDATASIZE),
      (0x37, Closure CALLDATACOPY), (0x38, Closure CODESIZE), (0x39, Closure CODECOPY), (0x3a, Closure GASPRICE),
      (0x3b, Closure EXTCODESIZE), (0x3c, Closure EXTCODECOPY),
      (0x40, Block BLOCKHASH), (0x41, Block COINBASE), (0x42, Block TIMESTAMP), (0x43, Block NUMBER),
      (0x44, Block DIFFICULTY), (0x45, Block GASLIMIT),
      (0x50, Store POP), (0x51, Store MLOAD), (0x52, Store MSTORE), (0x53, Store MSTORE8), (0x54, Store SLOAD),
      (0x55, Store SSTORE), (0x56, JUMP), (0x57, JUMPI), (0x58, Store PC), (0x59, Store MSIZE), (0x5a, Store GAS),
      (0x5b, Store JUMPDEST),
      (0xf0, Call CREATE), (0xf1, Call CALL), (0xf2, Call CALLCODE), (0xf3, RETURN), (0xf4, Call DELEGATECALL),
      (0xff, SUICIDE)]"

definition op_of :: "byte \<Rightarrow> opcode" where
  "op_of b =
     (let n = unat b in
      if 0x60 \<le> n \<and> n \<le> 0x7f then PUSH (n - 0x60 + 1)
      else if 0x80 \<le> n \<and> n \<le> 0x8f then DUP (n - 0x80 + 1)
      else if 0x90 \<le> n \<and> n \<le> 0x9f then SWAP (n - 0x90 + 1)
      else if 0xa0 \<le> n \<and> n \<le> 0xa4 then LOG (n - 0xa0)
      else (case map_of opcode_table n of Some op \<Rightarrow> op | None \<Rightarrow> UNDEF b))"

section \<open>Stack\<close>

definition st_swap :: "int list \<Rightarrow> nat \<Rightarrow> int list exec" where
  "st_swap st n =
     (if n = 0 \<or> st = [] \<or> length st < n then Panicked
      else Ret (st[n - 1 := st ! 0, 0 := st ! (n - 1)]))"

definition st_dup :: "int list \<Rightarrow> nat \<Rightarrow> int list exec" where
  "st_dup st n = (if n = 0 \<or> length st < n then Panicked else Ret (st ! (n - 1) # st))"

definition st_require :: "int list \<Rightarrow> nat \<Rightarrow> bool" where
  "st_require st n \<longleftrightarrow> \<not> length st < n"

section \<open>Memory\<close>

text \<open>
  A slice expression beyond the length of the store panics here; the runtime only panics beyond its
  capacity.
\<close>

definition mem_Set :: "bytes \<Rightarrow> u64 \<Rightarrow> u64 \<Rightarrow> bytes \<Rightarrow> bytes exec" where
  "mem_Set store offset sz val =
     (if unat sz > length store then Panicked
      else if sz > 0 then
        (if unat offset + unat sz > length store then Panicked
         else
           (let n = min (unat sz) (length val)
            in Ret (take (unat offset) store @ take n val @ drop (unat offset + n) store)))
      else Ret store)"

definition mem_Resize :: "bytes \<Rightarrow> u64 \<Rightarrow> bytes" where
  "mem_Resize store sz =
     (if length store < unat sz then store @ replicate (unat sz - length store) 0 else store)"

definition mem_Get :: "bytes \<Rightarrow> int \<Rightarrow> int \<Rightarrow> bytes exec" where
  "mem_Get store offset sz =
     (if sz = 0 then Ret []
      else if int (length store) > offset then
        (if sz < 0 \<or> offset < 0 \<or> offset + sz > int (length store) then Panicked
         else Ret (take (nat sz) (drop (nat offset) store)))
      else Ret [])"

definition mem_GetPtr :: "bytes \<Rightarrow> int \<Rightarrow> int \<Rightarrow> bytes exec" where
  "mem_GetPtr store offset sz =
     (if sz = 0 then Ret []
      else if int (length store) > offset then
        (if sz < 0 \<or> offset < 0 \<or> offset + sz > int (length store) then Panicked
         else Ret (take (nat sz) (drop (nat offset) store)))
      else Ret [])"

section \<open>Sizes and gas\<close>

definition calcMemSize :: "int \<Rightarrow> int \<Rightarrow> int" where
  "calcMemSize off l = (if l = 0 then 0 else off + l)"

definition toWordSize :: "int \<Rightarrow> int" where
  "toWordSize sz = (sz + 31) div 32"

text \<open>\<open>quadMemGas\<close> rounds the new sz up to words, and adds the fee for the growth to the gas.\<close>

definition quadMemGas :: "bytes \<Rightarrow> int \<Rightarrow> int \<Rightarrow> int \<times> int" where
  "quadMemGas mem newMemSize gas =
     (if newMemSize > 0 then
        (let newMemSizeWords = toWordSize newMemSize;
             newMemSize = newMemSizeWords * 32
         in if newMemSize > int (length mem) then
              (let oldSize = toWordSize (int (length mem));
                   pow = oldSize ^ 2;
                   linCoef = oldSize * MemoryGas;
                   quadCoef = pow div QuadCoeffDiv;
                   oldTotalFee = linCoef + quadCoef;
                   pow = newMemSizeWords ^ 2;
                   linCoef = newMemSizeWords * MemoryGas;
                   quadCoef = pow div QuadCoeffDiv;
                   newTotalFee = linCoef + quadCoef;
                   fee = newTotalFee - oldTotalFee
               in (newMemSize, gas + fee))
            else (newMemSize, gas))
      else (newMemSize, gas))"

definition getData :: "bytes \<Rightarrow> int \<Rightarrow> int \<Rightarrow> bytes" where
  "getData dat start sz =
     (let dlen = int (length dat);
          s = BigMin start dlen;
          e = BigMin (s + sz) dlen
      in RightPadBytes (drop (unat (big_Uint64 s)) (take (unat (big_Uint64 e)) dat))
           (sint (big_Uint64 sz)))"

definition useGas :: "int \<Rightarrow> int \<Rightarrow> bool \<times> int" where
  "useGas gas amount = (if gas < amount then (False, gas) else (True, gas - amount))"

definition callGas :: "GasTable \<Rightarrow> int \<Rightarrow> int \<Rightarrow> int \<Rightarrow> int" where
  "callGas gasTable availableGas base callCost =
     (if CreateBySuicide gasTable \<noteq> None then
        (let availableGas = availableGas - base;
             g = availableGas - availableGas div 64
         in if g < callCost then g else callCost)
      else callCost)"

section \<open>Jump destinations\<close>

type_synonym destinations = "hash \<Rightarrow> nat list option"

function jumpdests :: "bytes \<Rightarrow> nat \<Rightarrow> nat list" where
  "jumpdests code pc =
     (if pc < length code then
        (case op_of (code ! pc) of
           PUSH n \<Rightarrow> jumpdests code (pc + n + 1)
         | Store JUMPDEST \<Rightarrow> pc # jumpdests code (pc + 1)
         | _ \<Rightarrow> jumpdests code (pc + 1))
      else [])"
  by pat_completeness auto
termination by (relation "measure (\<lambda>(code, pc). length code - pc)") auto

declare jumpdests.simps [simp del]

definition dests_has :: "destinations \<Rightarrow> hash \<Rightarrow> bytes \<Rightarrow> int \<Rightarrow> bool \<times> destinations" where
  "dests_has d codehash code dest =
     (if dest > 2 ^ 64 - 1 then (False, d)
      else
        (let (m, d) =
           (case d codehash of
              Some m \<Rightarrow> (m, d)
            | None \<Rightarrow> (jumpdests code 0, d(codehash \<mapsto> jumpdests code 0)))
         in (unat (big_Uint64 dest) \<in> set m, d)))"

section \<open>Contracts\<close>

text \<open>
  The account object of a contract is represented by its address: apart from it, the machine uses only
  \<open>ReturnGas\<close>, which does nothing on an account. The fields \<open>Args\<close>, \<open>DelegateCall\<close> and \<open>UsedGas\<close> are never
  read and are left out.
\<close>

record Contract =
  c_CallerAddress :: address
  c_self :: address
  c_jumpdests :: destinations
  c_Code :: bytes
  c_CodeHash :: hash
  c_CodeAddr :: "address option"
  c_Input :: bytes
  c_value :: int
  c_Gas :: int

datatype ContractRef = RefContract Contract | RefAccount address

definition ref_Address :: "ContractRef \<Rightarrow> address" where
  "ref_Address r = (case r of RefContract c \<Rightarrow> c_self c | RefAccount a \<Rightarrow> a)"

definition c_ReturnGas :: "Contract \<Rightarrow> int \<Rightarrow> Contract" where
  "c_ReturnGas c gas = c\<lparr>c_Gas := c_Gas c + gas\<rparr>"

definition ref_ReturnGas :: "ContractRef \<Rightarrow> int \<Rightarrow> ContractRef" where
  "ref_ReturnGas r gas = (case r of RefContract c \<Rightarrow> RefContract (c_ReturnGas c gas) | RefAccount a \<Rightarrow> r)"

definition NewContract :: "ContractRef \<Rightarrow> address \<Rightarrow> int \<Rightarrow> int \<Rightarrow> Contract" where
  "NewContract caller obj val gas =
     \<lparr>c_CallerAddress = ref_Address caller, c_self = obj,
      c_jumpdests = (case caller of RefContract parent \<Rightarrow> c_jumpdests parent | RefAccount _ \<Rightarrow> Map.empty),
      c_Code = [], c_CodeHash = replicate 32 0, c_CodeAddr = None, c_Input = [],
      c_value = val, c_Gas = gas\<rparr>"

definition AsDelegate :: "ContractRef \<Rightarrow> Contract \<Rightarrow> Contract exec" where
  "AsDelegate caller c =
     (case caller of
        RefContract parent \<Rightarrow> Ret (c\<lparr>c_CallerAddress := c_CallerAddress parent\<rparr>)
      | RefAccount _ \<Rightarrow> Panicked)"

definition SetCallCode :: "Contract \<Rightarrow> address \<Rightarrow> hash \<Rightarrow> bytes \<Rightarrow> Contract" where
  "SetCallCode c addr h code = c\<lparr>c_Code := code, c_CodeHash := h, c_CodeAddr := Some addr\<rparr>"

definition GetByte :: "Contract \<Rightarrow> u64 \<Rightarrow> byte" where
  "GetByte c n = (if unat n < length (c_Code c) then c_Code c ! unat n else 0)"

definition GetOp :: "Contract \<Rightarrow> u64 \<Rightarrow> opcode" where
  "GetOp c n = op_of (GetByte c n)"

definition UseGas :: "Contract \<Rightarrow> int \<Rightarrow> bool \<times> Contract" where
  "UseGas c gas =
     (case useGas (c_Gas c) gas of (ok, g) \<Rightarrow> (ok, c\<lparr>c_Gas := g\<rparr>))"

text \<open>
  \<open>Finalise\<close> returns the remaining gas to the caller. The jump destinations of a contract and of the
  contract that called it are one map, so that the caller also sees what was added to it.
\<close>

definition Finalise :: "ContractRef \<Rightarrow> Contract \<Rightarrow> ContractRef" where
  "Finalise caller c =
     (case ref_ReturnGas caller (c_Gas c) of
        RefContract parent \<Rightarrow> RefContract (parent\<lparr>c_jumpdests := c_jumpdests c\<rparr>)
      | RefAccount a \<Rightarrow> RefAccount a)"

section \<open>The state database\<close>

record Log =
  l_Address :: address
  l_Topics :: "hash list"
  l_Data :: bytes
  l_BlockNumber :: u64

text \<open>
  The interface \<open>StateDB\<close> as a record of its operations on a state of type \<open>'s\<close>. The results of
  \<open>GetAccount\<close> and \<open>CreateAccount\<close> are represented by their address, and that of \<open>Suicide\<close> is not used.
\<close>

record 's StateDB =
  sdb_CreateAccount :: "'s \<Rightarrow> address \<Rightarrow> 's"
  sdb_SubBalance :: "'s \<Rightarrow> address \<Rightarrow> int \<Rightarrow> 's"
  sdb_AddBalance :: "'s \<Rightarrow> address \<Rightarrow> int \<Rightarrow> 's"
  sdb_GetBalance :: "'s \<Rightarrow> address \<Rightarrow> int"
  sdb_GetNonce :: "'s \<Rightarrow> address \<Rightarrow> u64"
  sdb_SetNonce :: "'s \<Rightarrow> address \<Rightarrow> u64 \<Rightarrow> 's"
  sdb_GetCodeHash :: "'s \<Rightarrow> address \<Rightarrow> hash"
  sdb_GetCode :: "'s \<Rightarrow> address \<Rightarrow> bytes"
  sdb_SetCode :: "'s \<Rightarrow> address \<Rightarrow> bytes \<Rightarrow> 's"
  sdb_GetCodeSize :: "'s \<Rightarrow> address \<Rightarrow> int"
  sdb_AddRefund :: "'s \<Rightarrow> int \<Rightarrow> 's"
  sdb_GetRefund :: "'s \<Rightarrow> int"
  sdb_GetState :: "'s \<Rightarrow> address \<Rightarrow> hash \<Rightarrow> hash"
  sdb_SetState :: "'s \<Rightarrow> address \<Rightarrow> hash \<Rightarrow> hash \<Rightarrow> 's"
  sdb_Suicide :: "'s \<Rightarrow> address \<Rightarrow> 's"
  sdb_HasSuicided :: "'s \<Rightarrow> address \<Rightarrow> bool"
  sdb_Exist :: "'s \<Rightarrow> address \<Rightarrow> bool"
  sdb_Empty :: "'s \<Rightarrow> address \<Rightarrow> bool"
  sdb_RevertToSnapshot :: "'s \<Rightarrow> nat \<Rightarrow> 's exec"
  sdb_Snapshot :: "'s \<Rightarrow> nat \<times> 's"
  sdb_AddLog :: "'s \<Rightarrow> Log \<Rightarrow> 's"

end
