(* ===== verification/VM_Gas.thy ===== *)
theory VM_Gas
  imports VM_Machine
begin

text \<open>
  The environment of the virtual machine (\<open>core/vm/environment.go\<close>) and the price of a step:
  \<open>baseCheck\<close> with its table (\<open>core/vm/gas.go\<close>) and \<open>calculateGasAndSize\<close> (\<open>core/vm/vm.go\<close>).
\<close>

datatype vm_err =
    OutOfGas
  | CodeStoreOutOfGas
  | DepthError
  | InsufficientBalance
  | StackUnderflow nat nat
  | StackOverflow nat
  | InvalidJump opcode int
  | InvalidOpcode opcode

record 's Environment =
  CanTransfer :: "'s \<Rightarrow> address \<Rightarrow> int \<Rightarrow> bool"
  Transfer :: "'s \<Rightarrow> address \<Rightarrow> address \<Rightarrow> int \<Rightarrow> 's"
  GetHash :: "u64 \<Rightarrow> hash"
  Origin :: address
  GasPrice :: int
  Coinbase :: address
  GasLimit :: int
  BlockNumber :: int
  Time :: int
  Difficulty :: int
  StateOps :: "'s StateDB"
  chainConfig :: ChainConfig
  NoRecursion :: bool
  Keccak256 :: "bytes \<Rightarrow> bytes"
  Sha256 :: "bytes \<Rightarrow> bytes"
  Ripemd160 :: "bytes \<Rightarrow> bytes"
  Ecrecover :: "bytes \<Rightarrow> bytes \<Rightarrow> bytes option"

definition env_gasTable :: "'s Environment \<Rightarrow> GasTable" where
  "env_gasTable env = cfg_GasTable (chainConfig env) (Some (BlockNumber env))"

section \<open>The table of stack effects and base prices\<close>

fun arith_req :: "arith_op \<Rightarrow> nat \<times> int \<times> nat" where
  "arith_req ADD = (2, GasFastestStep, 1)"
| "arith_req SUB = (2, GasFastestStep, 1)"
| "arith_req MUL = (2, GasFastStep, 1)"
| "arith_req DIV = (2, GasFastStep, 1)"
| "arith_req SDIV = (2, GasFastStep, 1)"
| "arith_req MOD = (2, GasFastStep, 1)"
| "arith_req SMOD = (2, GasFastStep, 1)"
| "arith_req SIGNEXTEND = (2, GasFastStep, 1)"
| "arith_req ADDMOD = (3, GasMidStep, 1)"
| "arith_req MULMOD = (3, GasMidStep, 1)"
| "arith_req EXP = (2, GasSlowStep, 1)"

fun bit_req :: "bit_op \<Rightarrow> nat \<times> int \<times> nat" where
  "bit_req ISZERO = (1, GasFastestStep, 1)"
| "bit_req NOTop = (1, GasFastestStep, 1)"
| "bit_req _ = (2, GasFastestStep, 1)"

fun closure_req :: "closure_op \<Rightarrow> nat \<times> int \<times> nat" where
  "closure_req CALLDATALOAD = (1, GasFastestStep, 1)"
| "closure_req CALLDATACOPY = (3, GasFastestStep, 1)"
| "closure_req CODECOPY = (3, GasFastestStep, 0)"
| "closure_req BALANCE = (1, 0, 1)"
| "closure_req EXTCODESIZE = (1, 0, 1)"
| "closure_req EXTCODECOPY = (4, 0, 0)"
| "closure_req _ = (0, GasQuickStep, 1)"

fun block_req :: "block_op \<Rightarrow> nat \<times> int \<times> nat" where
  "block_req BLOCKHASH = (1, GasExtStep, 1)"
| "block_req _ = (0, GasQuickStep, 1)"

fun store_req :: "store_op \<Rightarrow> nat \<times> int \<times> nat" where
  "store_req POP = (1, GasQuickStep, 0)"
| "store_req MLOAD = (1, GasFastestStep, 1)"
| "store_req MSTORE = (2, GasFastestStep, 0)"
| "store_req MSTORE8 = (2, GasFastestStep, 0)"
| "store_req SLOAD = (1, SloadGas, 1)"
| "store_req SSTORE = (2, 0, 0)"
| "store_req PC = (0, GasQuickStep, 1)"
| "store_req MSIZE = (0, GasQuickStep, 1)"
| "store_req GAS = (0, GasQuickStep, 1)"
| "store_req JUMPDEST = (0, JumpdestGas, 0)"

fun call_req :: "call_op \<Rightarrow> nat \<times> int \<times> nat" where
  "call_req CREATE = (3, CreateGas, 1)"
| "call_req CALL = (7, 0, 1)"
| "call_req CALLCODE = (7, 0, 1)"
| "call_req DELEGATECALL = (6, 0, 1)"

text \<open>\<open>STOP\<close>, the swaps, the logs and the undefined opcodes are not in the table.\<close>

fun base_req :: "opcode \<Rightarrow> (nat \<times> int \<times> nat) option" where
  "base_req (Arith op) = Some (arith_req op)"
| "base_req (Bitwise op) = Some (bit_req op)"
| "base_req (Closure op) = Some (closure_req op)"
| "base_req (Block op) = Some (block_req op)"
| "base_req (Store op) = Some (store_req op)"
| "base_req (Call op) = Some (call_req op)"
| "base_req SHA3 = Some (2, Sha3Gas, 1)"
| "base_req JUMP = Some (1, GasMidStep, 0)"
| "base_req JUMPI = Some (2, GasSlowStep, 0)"
| "base_req SUICIDE = Some (1, 0, 0)"
| "base_req RETURN = Some (2, 0, 0)"
| "base_req (PUSH n) = Some (0, GasFastestStep, 1)"
| "base_req (DUP n) = Some (0, 0, 1)"
| "base_req _ = None"

definition baseCheck :: "opcode \<Rightarrow> int list \<Rightarrow> vm_err + int" where
  "baseCheck op st =
     (case base_req op of
        None \<Rightarrow> Inr 0
      | Some (stackPop, gas, stackPush) \<Rightarrow>
          (if \<not> st_require st stackPop then Inl (StackUnderflow (length st) stackPop)
           else if stackPush > 0 \<and> length st - stackPop + stackPush > StackLimit then
             Inl (StackOverflow (length st))
           else Inr gas))"

section \<open>The price of a step\<close>

text \<open>
  The result is an error, or the new memory size, the price, the stack (calls replace the gas on it)
  and the state (refunds are added to it). \<open>need\<close> is the check of the runtime on the stack indices of
  a case.
\<close>

definition need :: "nat \<Rightarrow> int list \<Rightarrow> 'a exec \<Rightarrow> 'a exec" where
  "need n st r = (if length st < n then Panicked else r)"

type_synonym 's priced = "(vm_err + int \<times> int \<times> int list \<times> 's) exec"

definition priced :: "bytes \<Rightarrow> int \<Rightarrow> int \<Rightarrow> int list \<Rightarrow> 's \<Rightarrow> 's priced" where
  "priced mem newMemSize gas st db =
     (case quadMemGas mem newMemSize gas of (newMemSize, gas) \<Rightarrow> Ret (Inr (newMemSize, gas, st, db)))"

definition suicide_price :: "'s Environment \<Rightarrow> Contract \<Rightarrow> int list \<Rightarrow> 's \<Rightarrow> int \<Rightarrow> 's priced" where
  "suicide_price env con st db gas =
     (let gasTable = env_gasTable env; ops = StateOps env;
          db' = (if \<not> sdb_HasSuicided ops db (c_self con) then sdb_AddRefund ops db SuicideRefundGas else db)
      in case CreateBySuicide gasTable of
           Some create \<Rightarrow>
             need 1 st
              (let addr = BigToAddress (st ! 0);
                   eip158 = IsEIP158 (chainConfig env) (Some (BlockNumber env));
                   gas = gt_Suicide gasTable;
                   gas = (if eip158 then
                            (if sdb_Empty ops db addr \<and> big_BitLen (sdb_GetBalance ops db (c_self con)) > 0
                             then gas + create else gas)
                          else if \<not> sdb_Exist ops db addr then gas + create else gas)
               in Ret (Inr (0, gas, st, db')))
         | None \<Rightarrow> Ret (Inr (0, gas, st, db')))"

definition sstore_price :: "'s Environment \<Rightarrow> Contract \<Rightarrow> int list \<Rightarrow> 's \<Rightarrow> 's priced" where
  "sstore_price env con st db =
     (let ops = StateOps env in
      if \<not> st_require st 2 then Ret (Inl (StackUnderflow (length st) 2))
      else
        (let y = st ! 1; x = st ! 0;
             val = sdb_GetState ops db (c_self con) (BigToHash x)
         in if EmptyHash val \<and> \<not> EmptyHash (BigToHash y) then Ret (Inr (0, SstoreSetGas, st, db))
            else if \<not> EmptyHash val \<and> EmptyHash (BigToHash y) then
              Ret (Inr (0, SstoreClearGas, st, sdb_AddRefund ops db SstoreRefundGas))
            else Ret (Inr (0, SstoreResetGas, st, db))))"

text \<open>The extra price of a call that transfers value or creates the account.\<close>

definition call_extra :: "'s Environment \<Rightarrow> call_op \<Rightarrow> int list \<Rightarrow> 's \<Rightarrow> int \<Rightarrow> int" where
  "call_extra env op st db gas =
     (let ops = StateOps env;
          transfersValue = big_BitLen (st ! 2) > 0;
          gas = (if op = CALL then
                   (let addr = BigToAddress (st ! 1);
                        eip158 = IsEIP158 (chainConfig env) (Some (BlockNumber env))
                    in if eip158 then
                         (if sdb_Empty ops db addr \<and> transfersValue then gas + CallNewAccountGas else gas)
                       else if \<not> sdb_Exist ops db addr then gas + CallNewAccountGas else gas)
                 else gas)
      in if transfersValue then gas + CallValueTransferGas else gas)"

definition call_price :: "'s Environment \<Rightarrow> Contract \<Rightarrow> call_op \<Rightarrow> bytes \<Rightarrow> int list \<Rightarrow> 's \<Rightarrow> 's priced" where
  "call_price env con op mem st db =
     (let gasTable = env_gasTable env in
      need (if op = DELEGATECALL then 6 else 7) st
        (let gas = (if op = DELEGATECALL then Calls gasTable else call_extra env op st db (Calls gasTable));
             x = (if op = DELEGATECALL then calcMemSize (st ! 4) (st ! 5) else calcMemSize (st ! 5) (st ! 6));
             y = (if op = DELEGATECALL then calcMemSize (st ! 2) (st ! 3) else calcMemSize (st ! 3) (st ! 4));
             (newMemSize, gas) = quadMemGas mem (BigMax x y) gas;
             cg = callGas gasTable (c_Gas con) gas (st ! 0)
         in Ret (Inr (newMemSize, gas + cg, st[0 := cg], db))))"

fun calculateGasAndSize ::
  "'s Environment \<Rightarrow> Contract \<Rightarrow> opcode \<Rightarrow> bytes \<Rightarrow> int list \<Rightarrow> 's \<Rightarrow> 's priced" where
  "calculateGasAndSize env con op mem st db =
     (let gasTable = env_gasTable env in
      case baseCheck op st of
        Inl e \<Rightarrow> Ret (Inl e)
      | Inr gas \<Rightarrow>
          (case op of
             SUICIDE \<Rightarrow> suicide_price env con st db gas
           | Closure EXTCODESIZE \<Rightarrow> Ret (Inr (0, ExtcodeSize gasTable, st, db))
           | Closure BALANCE \<Rightarrow> Ret (Inr (0, gt_Balance gasTable, st, db))
           | Store SLOAD \<Rightarrow> Ret (Inr (0, SLoad gasTable, st, db))
           | SWAP i \<Rightarrow>
               (if \<not> st_require st (i + 1) then Ret (Inl (StackUnderflow (length st) (i + 1)))
                else Ret (Inr (0, GasFastestStep, st, db)))
           | DUP i \<Rightarrow>
               (if \<not> st_require st i then Ret (Inl (StackUnderflow (length st) i))
                else Ret (Inr (0, GasFastestStep, st, db)))
           | LOG n \<Rightarrow>
               (if \<not> st_require st (n + 2) then Ret (Inl (StackUnderflow (length st) (n + 2)))
                else
                  (let mSize = st ! 1; mStart = st ! 0
                   in priced mem (calcMemSize mStart mSize)
                        (gas + LogGas + int n * LogTopicGas + mSize * LogDataGas) st db))
           | Arith EXP \<Rightarrow>
               need 2 st
                (let expByteLen = (big_BitLen (st ! 1) + 7) div 8
                 in Ret (Inr (0, gas + int expByteLen * ExpByte gasTable, st, db)))
           | Store SSTORE \<Rightarrow> sstore_price env con st db
           | Store MLOAD \<Rightarrow> need 1 st (priced mem (calcMemSize (st ! 0) 32) gas st db)
           | Store MSTORE8 \<Rightarrow> need 1 st (priced mem (calcMemSize (st ! 0) 1) gas st db)
           | Store MSTORE \<Rightarrow> need 1 st (priced mem (calcMemSize (st ! 0) 32) gas st db)
           | RETURN \<Rightarrow> need 2 st (priced mem (calcMemSize (st ! 0) (st ! 1)) gas st db)
           | SHA3 \<Rightarrow>
               need 2 st
                (priced mem (calcMemSize (st ! 0) (st ! 1)) (gas + toWordSize (st ! 1) * Sha3WordGas) st db)
           | Closure CALLDATACOPY \<Rightarrow>
               need 3 st
                (priced mem (calcMemSize (st ! 0) (st ! 2)) (gas + toWordSize (st ! 2) * CopyGas) st db)
           | Closure CODECOPY \<Rightarrow>
               need 3 st
                (priced mem (calcMemSize (st ! 0) (st ! 2)) (gas + toWordSize (st ! 2) * CopyGas) st db)
           | Closure EXTCODECOPY \<Rightarrow>
               need 4 st
                (priced mem (calcMemSize (st ! 1) (st ! 3))
                   (ExtcodeCopy gasTable + toWordSize (st ! 3) * CopyGas) st db)
           | Call CREATE \<Rightarrow> need 3 st (priced mem (calcMemSize (st ! 1) (st ! 2)) gas st db)
           | Call call \<Rightarrow> call_price env con call mem st db
           | _ \<Rightarrow> Ret (Inr (0, gas, st, db))))"

declare calculateGasAndSize.simps [simp del]

end
