(* ===== verification/VM_Instr.thy ===== *)
theory VM_Instr
  imports VM_Gas
begin

text \<open>
  The instructions of \<open>core/vm/instructions.go\<close> that do not start another contract. The popped operands
  are patterns on the stack, and a stack that is too short panics. The machine state is a record with
  the program counter, the memory, the stack, the running contract and the state database.
\<close>

record 's frame =
  f_pc :: u64
  f_mem :: bytes
  f_stk :: "int list"
  f_con :: Contract
  f_db :: 's

section \<open>Arithmetic\<close>

definition opAdd :: "int \<Rightarrow> int \<Rightarrow> int" where
  "opAdd x y = U256 (x + y)"

definition opSub :: "int \<Rightarrow> int \<Rightarrow> int" where
  "opSub x y = U256 (x - y)"

definition opMul :: "int \<Rightarrow> int \<Rightarrow> int" where
  "opMul x y = U256 (x * y)"

definition opDiv :: "int \<Rightarrow> int \<Rightarrow> int" where
  "opDiv x y = (if y \<noteq> 0 then U256 (x div y) else 0)"

definition opSdiv :: "int \<Rightarrow> int \<Rightarrow> int" where
  "opSdiv x y =
     (let x = S256 x; y = S256 y in
      if y = 0 then 0
      else
        (let n = (if x * y < 0 then -1 else 1);
             res = abs x div abs y
         in U256 (res * n)))"

definition opMod :: "int \<Rightarrow> int \<Rightarrow> int" where
  "opMod x y = (if y = 0 then 0 else U256 (x mod y))"

definition opSmod :: "int \<Rightarrow> int \<Rightarrow> int" where
  "opSmod x y =
     (let x = S256 x; y = S256 y in
      if y = 0 then 0
      else
        (let n = (if x < 0 then -1 else 1);
             res = abs x mod abs y
         in U256 (res * n)))"

definition opExp :: "int \<Rightarrow> int \<Rightarrow> int" where
  "opExp base exponent = Exp base exponent"

definition opSignExtend :: "int \<Rightarrow> int \<Rightarrow> int" where
  "opSignExtend back num =
     (let bit_n = unat (big_Uint64 back * 8 + 7);
          mask = push_bit bit_n 1 - 1
      in U256 (if bit num bit_n then num OR NOT mask else num AND mask))"

definition opAddmod :: "int \<Rightarrow> int \<Rightarrow> int \<Rightarrow> int" where
  "opAddmod x y z = (if z > 0 then U256 ((x + y) mod z) else 0)"

definition opMulmod :: "int \<Rightarrow> int \<Rightarrow> int \<Rightarrow> int" where
  "opMulmod x y z = (if z > 0 then U256 ((x * y) mod z) else 0)"

fun exec_arith :: "arith_op \<Rightarrow> int list \<Rightarrow> int list exec" where
  "exec_arith ADD (x # y # st) = Ret (opAdd x y # st)"
| "exec_arith SUB (x # y # st) = Ret (opSub x y # st)"
| "exec_arith MUL (x # y # st) = Ret (opMul x y # st)"
| "exec_arith DIV (x # y # st) = Ret (opDiv x y # st)"
| "exec_arith SDIV (x # y # st) = Ret (opSdiv x y # st)"
| "exec_arith MOD (x # y # st) = Ret (opMod x y # st)"
| "exec_arith SMOD (x # y # st) = Ret (opSmod x y # st)"
| "exec_arith EXP (base # exponent # st) = Ret (opExp base exponent # st)"
| "exec_arith SIGNEXTEND (back # st) =
     (if back < 31 then
        (case st of num # st \<Rightarrow> Ret (opSignExtend back num # st) | [] \<Rightarrow> Panicked)
      else Ret st)"
| "exec_arith ADDMOD (x # y # z # st) = Ret (opAddmod x y z # st)"
| "exec_arith MULMOD (x # y # z # st) = Ret (opMulmod x y z # st)"
| "exec_arith _ _ = Panicked"

section \<open>Comparison and bits\<close>

definition opLt :: "int \<Rightarrow> int \<Rightarrow> int" where
  "opLt x y = (if x < y then 1 else 0)"

definition opGt :: "int \<Rightarrow> int \<Rightarrow> int" where
  "opGt x y = (if x > y then 1 else 0)"

definition opSlt :: "int \<Rightarrow> int \<Rightarrow> int" where
  "opSlt x y = (let x = S256 x; y = S256 y in if x < S256 y then 1 else 0)"

definition opSgt :: "int \<Rightarrow> int \<Rightarrow> int" where
  "opSgt x y = (let x = S256 x; y = S256 y in if x > y then 1 else 0)"

definition opEq :: "int \<Rightarrow> int \<Rightarrow> int" where
  "opEq x y = (if x = y then 1 else 0)"

definition opIszero :: "int \<Rightarrow> int" where
  "opIszero x = (if x > 0 then 0 else 1)"

definition opAnd :: "int \<Rightarrow> int \<Rightarrow> int" where
  "opAnd x y = x AND y"

definition opOr :: "int \<Rightarrow> int \<Rightarrow> int" where
  "opOr x y = x OR y"

definition opXor :: "int \<Rightarrow> int \<Rightarrow> int" where
  "opXor x y = x XOR y"

definition opNot :: "int \<Rightarrow> int" where
  "opNot x = U256 (NOT x)"

definition opByte :: "int \<Rightarrow> int \<Rightarrow> int" where
  "opByte th val =
     (if th < 32 then int (unat (LeftPadBytes (big_Bytes val) 32 ! nat (big_Int64 th))) else 0)"

fun exec_bitwise :: "bit_op \<Rightarrow> int list \<Rightarrow> int list exec" where
  "exec_bitwise LT (x # y # st) = Ret (opLt x y # st)"
| "exec_bitwise GT (x # y # st) = Ret (opGt x y # st)"
| "exec_bitwise SLT (x # y # st) = Ret (opSlt x y # st)"
| "exec_bitwise SGT (x # y # st) = Ret (opSgt x y # st)"
| "exec_bitwise EQ (x # y # st) = Ret (opEq x y # st)"
| "exec_bitwise ISZERO (x # st) = Ret (opIszero x # st)"
| "exec_bitwise ANDop (x # y # st) = Ret (opAnd x y # st)"
| "exec_bitwise ORop (x # y # st) = Ret (opOr x y # st)"
| "exec_bitwise XORop (x # y # st) = Ret (opXor x y # st)"
| "exec_bitwise NOTop (x # st) = Ret (opNot x # st)"
| "exec_bitwise BYTE (th # val # st) = (if th < 0 then Panicked else Ret (opByte th val # st))"
| "exec_bitwise _ _ = Panicked"

section \<open>Hashing and the closure\<close>

definition opSha3 :: "'s Environment \<Rightarrow> 's frame \<Rightarrow> 's frame exec" where
  "opSha3 env f =
     (case f_stk f of
        offset # sz # st \<Rightarrow>
          exec_bind (mem_Get (f_mem f) (big_Int64 offset) (big_Int64 sz))
            (\<lambda>d. Ret (f\<lparr>f_stk := BytesToBig (Keccak256 env d) # st\<rparr>))
      | _ \<Rightarrow> Panicked)"

definition copy_to_mem :: "'s frame \<Rightarrow> bytes \<Rightarrow> int \<Rightarrow> int \<Rightarrow> int \<Rightarrow> int list \<Rightarrow> 's frame exec" where
  "copy_to_mem f dat mOff cOff l st =
     exec_bind (mem_Set (f_mem f) (big_Uint64 mOff) (big_Uint64 l) (getData dat cOff l))
       (\<lambda>mem. Ret (f\<lparr>f_mem := mem, f_stk := st\<rparr>))"

fun exec_closure :: "'s Environment \<Rightarrow> closure_op \<Rightarrow> 's frame \<Rightarrow> 's frame exec" where
  "exec_closure env ADDRESS f = Ret (f\<lparr>f_stk := BytesToBig (c_self (f_con f)) # f_stk f\<rparr>)"
| "exec_closure env BALANCE f =
     (case f_stk f of
        a # st \<Rightarrow> Ret (f\<lparr>f_stk := sdb_GetBalance (StateOps env) (f_db f) (BigToAddress a) # st\<rparr>)
      | _ \<Rightarrow> Panicked)"
| "exec_closure env ORIGIN f = Ret (f\<lparr>f_stk := BytesToBig (Origin env) # f_stk f\<rparr>)"
| "exec_closure env CALLER f = Ret (f\<lparr>f_stk := BytesToBig (c_CallerAddress (f_con f)) # f_stk f\<rparr>)"
| "exec_closure env CALLVALUE f = Ret (f\<lparr>f_stk := c_value (f_con f) # f_stk f\<rparr>)"
| "exec_closure env CALLDATALOAD f =
     (case f_stk f of
        off # st \<Rightarrow> Ret (f\<lparr>f_stk := BytesToBig (getData (c_Input (f_con f)) off 32) # st\<rparr>)
      | _ \<Rightarrow> Panicked)"
| "exec_closure env CALLDATASIZE f = Ret (f\<lparr>f_stk := int (length (c_Input (f_con f))) # f_stk f\<rparr>)"
| "exec_closure env CALLDATACOPY f =
     (case f_stk f of
        mOff # cOff # l # st \<Rightarrow> copy_to_mem f (c_Input (f_con f)) mOff cOff l st
      | _ \<Rightarrow> Panicked)"
| "exec_closure env CODESIZE f = Ret (f\<lparr>f_stk := int (length (c_Code (f_con f))) # f_stk f\<rparr>)"
| "exec_closure env CODECOPY f =
     (case f_stk f of
        mOff # cOff # l # st \<Rightarrow> copy_to_mem f (c_Code (f_con f)) mOff cOff l st
      | _ \<Rightarrow> Panicked)"
| "exec_closure env GASPRICE f = Ret (f\<lparr>f_stk := GasPrice env # f_stk f\<rparr>)"
| "exec_closure env EXTCODESIZE f =
     (case f_stk f of
        a # st \<Rightarrow> Ret (f\<lparr>f_stk := sdb_GetCodeSize (StateOps env) (f_db f) (BigToAddress a) # st\<rparr>)
      | _ \<Rightarrow> Panicked)"
| "exec_closure env EXTCODECOPY f =
     (case f_stk f of
        a # mOff # cOff # l # st \<Rightarrow>
          copy_to_mem f (sdb_GetCode (StateOps env) (f_db f) (BigToAddress a)) mOff cOff l st
      | _ \<Rightarrow> Panicked)"

section \<open>Block information\<close>

definition opBlockhash :: "'s Environment \<Rightarrow> int \<Rightarrow> int" where
  "opBlockhash env num =
     (let n = BlockNumber env - 257 in
      if num > n \<and> num < BlockNumber env then BytesToBig (GetHash env (big_Uint64 num)) else 0)"

fun exec_block :: "'s Environment \<Rightarrow> block_op \<Rightarrow> int list \<Rightarrow> int list exec" where
  "exec_block env BLOCKHASH st = (case st of num # st \<Rightarrow> Ret (opBlockhash env num # st) | _ \<Rightarrow> Panicked)"
| "exec_block env COINBASE st = Ret (BytesToBig (Coinbase env) # st)"
| "exec_block env TIMESTAMP st = Ret (U256 (Time env) # st)"
| "exec_block env NUMBER st = Ret (U256 (BlockNumber env) # st)"
| "exec_block env DIFFICULTY st = Ret (U256 (Difficulty env) # st)"
| "exec_block env GASLIMIT st = Ret (U256 (GasLimit env) # st)"

section \<open>Memory, storage and flow\<close>

definition opMload :: "'s frame \<Rightarrow> 's frame exec" where
  "opMload f =
     (case f_stk f of
        offset # st \<Rightarrow>
          exec_bind (mem_Get (f_mem f) (big_Int64 offset) 32) (\<lambda>d. Ret (f\<lparr>f_stk := BytesToBig d # st\<rparr>))
      | _ \<Rightarrow> Panicked)"

definition opMstore :: "'s frame \<Rightarrow> 's frame exec" where
  "opMstore f =
     (case f_stk f of
        mStart # val # st \<Rightarrow>
          exec_bind (mem_Set (f_mem f) (big_Uint64 mStart) 32 (BigToBytes val 256))
            (\<lambda>mem. Ret (f\<lparr>f_mem := mem, f_stk := st\<rparr>))
      | _ \<Rightarrow> Panicked)"

definition opMstore8 :: "'s frame \<Rightarrow> 's frame exec" where
  "opMstore8 f =
     (case f_stk f of
        off # val # st \<Rightarrow>
          (let off = big_Int64 off; val = big_Int64 val in
           if off < 0 \<or> off \<ge> int (length (f_mem f)) then Panicked
           else Ret (f\<lparr>f_mem := (f_mem f)[nat off := word_of_int (val AND 0xff)], f_stk := st\<rparr>))
      | _ \<Rightarrow> Panicked)"

definition opSload :: "'s Environment \<Rightarrow> 's frame \<Rightarrow> 's frame exec" where
  "opSload env f =
     (case f_stk f of
        loc # st \<Rightarrow>
          Ret (f\<lparr>f_stk := BytesToBig (sdb_GetState (StateOps env) (f_db f) (c_self (f_con f)) (BigToHash loc)) # st\<rparr>)
      | _ \<Rightarrow> Panicked)"

definition opSstore :: "'s Environment \<Rightarrow> 's frame \<Rightarrow> 's frame exec" where
  "opSstore env f =
     (case f_stk f of
        loc # val # st \<Rightarrow>
          Ret (f\<lparr>f_stk := st,
                 f_db := sdb_SetState (StateOps env) (f_db f) (c_self (f_con f)) (BigToHash loc) (BigToHash val)\<rparr>)
      | _ \<Rightarrow> Panicked)"

fun exec_store :: "'s Environment \<Rightarrow> store_op \<Rightarrow> 's frame \<Rightarrow> 's frame exec" where
  "exec_store env POP f = (case f_stk f of _ # st \<Rightarrow> Ret (f\<lparr>f_stk := st\<rparr>) | _ \<Rightarrow> Panicked)"
| "exec_store env MLOAD f = opMload f"
| "exec_store env MSTORE f = opMstore f"
| "exec_store env MSTORE8 f = opMstore8 f"
| "exec_store env SLOAD f = opSload env f"
| "exec_store env SSTORE f = opSstore env f"
| "exec_store env PC f = Ret (f\<lparr>f_stk := uint (f_pc f) # f_stk f\<rparr>)"
| "exec_store env MSIZE f = Ret (f\<lparr>f_stk := int (length (f_mem f)) # f_stk f\<rparr>)"
| "exec_store env GAS f = Ret (f\<lparr>f_stk := c_Gas (f_con f) # f_stk f\<rparr>)"
| "exec_store env JUMPDEST f = Ret f"

section \<open>Pushes, logs and suicide\<close>

definition makePush :: "nat \<Rightarrow> 's frame \<Rightarrow> 's frame exec" where
  "makePush sz f =
     (let byts = getData (c_Code (f_con f)) (uint (f_pc f + 1)) (int sz)
      in Ret (f\<lparr>f_pc := f_pc f + word_of_nat sz, f_stk := BytesToBig byts # f_stk f\<rparr>))"

definition makeDup :: "nat \<Rightarrow> 's frame \<Rightarrow> 's frame exec" where
  "makeDup sz f = exec_bind (st_dup (f_stk f) sz) (\<lambda>st. Ret (f\<lparr>f_stk := st\<rparr>))"

definition makeSwap :: "nat \<Rightarrow> 's frame \<Rightarrow> 's frame exec" where
  "makeSwap sz f = exec_bind (st_swap (f_stk f) (sz + 1)) (\<lambda>st. Ret (f\<lparr>f_stk := st\<rparr>))"

definition makeLog :: "'s Environment \<Rightarrow> nat \<Rightarrow> 's frame \<Rightarrow> 's frame exec" where
  "makeLog env sz f =
     (case f_stk f of
        mStart # mSize # st \<Rightarrow>
          (if length st < sz then Panicked
           else
             (let topics = map BigToHash (take sz st) in
              exec_bind (mem_Get (f_mem f) (big_Int64 mStart) (big_Int64 mSize))
                (\<lambda>d. Ret (f\<lparr>f_stk := drop sz st,
                   f_db := sdb_AddLog (StateOps env) (f_db f)
                     \<lparr>l_Address = c_self (f_con f), l_Topics = topics, l_Data = d,
                      l_BlockNumber = big_Uint64 (BlockNumber env)\<rparr>\<rparr>))))
      | _ \<Rightarrow> Panicked)"

definition opSuicide :: "'s Environment \<Rightarrow> 's frame \<Rightarrow> 's frame exec" where
  "opSuicide env f =
     (let ops = StateOps env; balance = sdb_GetBalance ops (f_db f) (c_self (f_con f)) in
      case f_stk f of
        a # st \<Rightarrow>
          Ret (f\<lparr>f_stk := st,
                 f_db := sdb_Suicide ops (sdb_AddBalance ops (f_db f) (BigToAddress a) balance) (c_self (f_con f))\<rparr>)
      | _ \<Rightarrow> Panicked)"

end
