(* ===== verification/VM_Arith.thy ===== *)
theory VM_Arith
  imports VM_Instr "HOL-Library.Signed_Division"
begin

text \<open>
  The arithmetic, comparison and bit instructions of \<open>core/vm/instructions.go\<close>, which compute on big
  integers and reduce the result, refine the operations on 256-bit words: each instruction applied to
  a stack of words read as integers gives the integers of the words the reference operation gives.
\<close>

unbundle bit_operations_syntax

type_synonym u256 = "256 word"

lemma uint_tt256: "0 \<le> uint (x :: u256)" "uint (x :: u256) < tt256"
  using unsigned_less [of x] by (simp_all add: tt256_eq)

lemma U256_uint: "U256 i = uint (word_of_int i :: u256)"
  by (simp add: U256_mod tt256_eq uint_word_of_int)

lemma S256_sint: "S256 (uint x) = sint (x :: u256)"
proof (cases "uint x < tt255")
  case True
  then have "signed_take_bit 255 (uint x) = uint x"
    by (intro signed_take_bit_int_eq_self order.trans [OF _ uint_tt256(1)]) (simp_all add: tt255_eq(2))
  with True show ?thesis by (simp add: S256_def sint_uint)
next
  case False
  have "uint x div 2 ^ 255 = 1"
    using False uint_tt256 [of x] by (intro div_pos_geq [THEN trans] ) (auto simp: tt255_eq tt256_eq)
  then have "bit (uint x) 255" by (simp add: bit_iff_odd)
  moreover have "take_bit 256 (uint x) = uint x"
    using uint_tt256 [of x] by (simp add: take_bit_int_eq_self_iff tt256_eq)
  ultimately have "sint x = uint x - tt256"
    by (simp add: sint_uint signed_take_bit_eq_take_bit_minus tt256_eq)
  with False show ?thesis by (simp add: S256_def)
qed

section \<open>The reference operations\<close>

definition of_truth :: "bool \<Rightarrow> u256" where
  "of_truth b = (if b then 1 else 0)"

fun arith_word :: "arith_op \<Rightarrow> u256 list \<Rightarrow> u256 list option" where
  "arith_word ADD (x # y # st) = Some ((x + y) # st)"
| "arith_word SUB (x # y # st) = Some ((x - y) # st)"
| "arith_word MUL (x # y # st) = Some ((x * y) # st)"
| "arith_word DIV (x # y # st) = Some ((x div y) # st)"
| "arith_word SDIV (x # y # st) = Some (word_of_int (sint x sdiv sint y) # st)"
| "arith_word MOD (x # y # st) = Some ((if y = 0 then 0 else x mod y) # st)"
| "arith_word SMOD (x # y # st) =
     Some ((if y = 0 then 0 else word_of_int (sint x smod sint y)) # st)"
| "arith_word EXP (x # y # st) = Some ((x ^ unat y) # st)"
| "arith_word SIGNEXTEND (b # st) =
     (if b < 31
      then (case st of x # st \<Rightarrow> Some (signed_take_bit (8 * unat b + 7) x # st) | [] \<Rightarrow> None)
      else Some st)"
| "arith_word ADDMOD (x # y # z # st) =
     Some ((if z = 0 then 0 else word_of_int ((uint x + uint y) mod uint z)) # st)"
| "arith_word MULMOD (x # y # z # st) =
     Some ((if z = 0 then 0 else word_of_int ((uint x * uint y) mod uint z)) # st)"
| "arith_word _ _ = None"

fun bit_word :: "bit_op \<Rightarrow> u256 list \<Rightarrow> u256 list option" where
  "bit_word LT (x # y # st) = Some (of_truth (x < y) # st)"
| "bit_word GT (x # y # st) = Some (of_truth (x > y) # st)"
| "bit_word SLT (x # y # st) = Some (of_truth (sint x < sint y) # st)"
| "bit_word SGT (x # y # st) = Some (of_truth (sint x > sint y) # st)"
| "bit_word EQ (x # y # st) = Some (of_truth (x = y) # st)"
| "bit_word ISZERO (x # st) = Some (of_truth (x = 0) # st)"
| "bit_word ANDop (x # y # st) = Some ((x AND y) # st)"
| "bit_word ORop (x # y # st) = Some ((x OR y) # st)"
| "bit_word XORop (x # y # st) = Some ((x XOR y) # st)"
| "bit_word NOTop (x # st) = Some ((NOT x) # st)"
| "bit_word BYTE (i # x # st) =
     Some ((if i < 32 then take_bit 8 (drop_bit (8 * (31 - unat i)) x) else 0) # st)"
| "bit_word _ _ = None"

section \<open>Each instruction\<close>

lemma op_word_ring:
  "opAdd (uint x) (uint y) = uint (x + y :: u256)"
  "opSub (uint x) (uint y) = uint (x - y :: u256)"
  "opMul (uint x) (uint y) = uint (x * y :: u256)"
  by (simp_all add: opAdd_def opSub_def opMul_def U256_uint)

lemma uint_eq_0: "uint (y :: u256) = 0 \<longleftrightarrow> y = 0"
  by (metis uint_0_eq word_uint_eqI)

lemma uint_pos: "0 < uint (y :: u256) \<longleftrightarrow> y \<noteq> 0"
  by (metis less_le uint_eq_0 uint_tt256(1))

lemma op_word_div:
  "opDiv (uint x) (uint y) = uint (x div y :: u256)"
  "opMod (uint x) (uint y) = uint (if y = 0 then 0 else x mod y :: u256)"
proof -
  have "uint x div uint y = uint (x div y)" by (simp add: uint_div)
  then show "opDiv (uint x) (uint y) = uint (x div y :: u256)"
    by (simp add: opDiv_def U256_uint uint_eq_0)
  have "uint x mod uint y = uint (x mod y)" by (simp add: uint_mod)
  then show "opMod (uint x) (uint y) = uint (if y = 0 then 0 else x mod y :: u256)"
    by (simp add: opMod_def U256_uint uint_eq_0)
qed

lemma sint_eq_0: "sint (y :: u256) = 0 \<longleftrightarrow> y = 0"
  by (metis signed_0 signed_word_eqI)

lemma op_word_signed:
  fixes x y :: u256
  shows "opSdiv (uint x) (uint y) = uint (word_of_int (sint x sdiv sint y) :: u256)"
    and "opSmod (uint x) (uint y) = uint (if y = 0 then 0 else word_of_int (sint x smod sint y) :: u256)"
proof -
  have "\<bar>k\<bar> div \<bar>l\<bar> * (if k * l < 0 then - 1 else 1) = k sdiv l" if "l \<noteq> 0" for k l :: int
    using that by (auto simp: signed_divide_int_def sgn_if mult_less_0_iff)
  then show "opSdiv (uint x) (uint y) = uint (word_of_int (sint x sdiv sint y) :: u256)"
    unfolding opSdiv_def S256_sint Let_def U256_uint by simp
  have "\<bar>k\<bar> mod \<bar>l\<bar> * (if k < 0 then - 1 else 1) = k smod l" for k l :: int
    by (auto simp: signed_modulo_int_def sgn_if)
  then show "opSmod (uint x) (uint y) = uint (if y = 0 then 0 else word_of_int (sint x smod sint y) :: u256)"
    unfolding opSmod_def S256_sint Let_def U256_uint sint_eq_0 by simp
qed

lemma op_word_exp:
  fixes x y :: u256
  shows "opExp (uint x) (uint y) = uint (x ^ unat y)"
proof -
  have "x ^ n = word_of_int (uint x ^ n)" for n
    by (metis of_int_power word_of_int_uint)
  then show ?thesis
    unfolding opExp_def Exp_eq [OF uint_tt256(1)] U256_mod [symmetric] U256_uint unat_eq_nat_uint by metis
qed

lemma op_word_modular:
  fixes x y z :: u256
  shows
  "opAddmod (uint x) (uint y) (uint z) =
     uint (if z = 0 then 0 else word_of_int ((uint x + uint y) mod uint z) :: u256)"
  "opMulmod (uint x) (uint y) (uint z) =
     uint (if z = 0 then 0 else word_of_int ((uint x * uint y) mod uint z) :: u256)"
  by (simp_all add: opAddmod_def opMulmod_def U256_uint uint_pos)

lemma op_word_logic:
  "opAnd (uint x) (uint y) = uint (x AND y :: u256)"
  "opOr (uint x) (uint y) = uint (x OR y :: u256)"
  "opXor (uint x) (uint y) = uint (x XOR y :: u256)"
  "opNot (uint x) = uint (NOT x :: u256)"
  by (simp_all add: opAnd_def opOr_def opXor_def opNot_def uint_and uint_or uint_xor U256_uint word_not_def)

lemma S256_S256: "S256 (sint y) = sint y" for y :: u256
  using uint_tt256 [of y] by (simp add: S256_sint [symmetric] S256_def tt255_eq tt256_eq)

lemma op_word_compare:
  fixes x y :: u256
  shows
  "opLt (uint x) (uint y) = uint (of_truth (x < y))"
  "opGt (uint x) (uint y) = uint (of_truth (x > y))"
  "opEq (uint x) (uint y) = uint (of_truth (x = y))"
  "opSlt (uint x) (uint y) = uint (of_truth (sint x < sint y))"
  "opSgt (uint x) (uint y) = uint (of_truth (sint x > sint y))"
  "opIszero (uint x) = uint (of_truth (x = 0))"
  unfolding opLt_def opGt_def opEq_def opSlt_def opSgt_def opIszero_def Let_def S256_sint S256_S256 uint_pos
  by (simp_all add: of_truth_def word_less_def word_uint_eq_iff)

lemma small_uint: "unat (x :: u256) < n \<Longrightarrow> uint x < int n"
  by (metis of_nat_less_iff uint_nat)

lemma op_word_signext:
  fixes b x :: u256
  assumes "b < 31"
  shows "opSignExtend (uint b) (uint x) = uint (signed_take_bit (8 * unat b + 7) x)"
proof -
  define n where "n = 8 * unat b + 7"
  have "unat b < 31" using assms by (simp add: word_less_nat_alt)
  then have n: "unat (big_Uint64 (uint b) * 8 + 7) = n" "n < 256"
    using unat_big_Uint64 [OF uint_tt256(1), of b] small_uint [of b 31] by (simp_all add: n_def unat_word_ariths)
  have m: "push_bit n 1 - 1 = (mask n :: int)" by (simp add: mask_eq_exp_minus_1 push_bit_eq_mult)
  show ?thesis unfolding opSignExtend_def Let_def n m U256_uint n_def [symmetric]
    by (rule bit_eqI) (use n(2) in \<open>auto simp: bit_simps min_def split: if_splits\<close>)
qed

lemma be_nat_nth:
  "k < length bs \<Longrightarrow> unat (bs ! k) = be_nat bs div 256 ^ (length bs - 1 - k) mod 256"
proof (induction bs arbitrary: k)
  case (Cons b bs)
  show ?case
  proof (cases k)
    case 0
    have "unat b < 256" using unsigned_less [of b] by simp
    with 0 be_nat_bound [of bs] show ?thesis by (simp add: be_nat_Cons)
  next
    case (Suc j)
    define m where "m = length bs - 1 - j"
    have l: "length bs = m + Suc j" using Cons.prems Suc by (simp add: m_def)
    have "(unat b * 256 ^ length bs + be_nat bs) div 256 ^ m = be_nat bs div 256 ^ m + 256 * (unat b * 256 ^ j)"
      using div_mult_self1 [of "256 ^ m" "be_nat bs" "unat b * 256 ^ Suc j"]
      unfolding l power_add by (simp add: ac_simps)
    then have "be_nat (b # bs) div 256 ^ m mod 256 = be_nat bs div 256 ^ m mod 256"
      by (simp only: be_nat_Cons mod_mult_self2)
    then show ?thesis using Cons.IH [of j] Cons.prems Suc by (simp add: m_def)
  qed
qed simp

lemma op_word_byte:
  fixes i x :: u256
  shows "opByte (uint i) (uint x) = uint (if i < 32 then take_bit 8 (drop_bit (8 * (31 - unat i)) x) else 0)"
proof (cases "i < 32")
  case True
  define bs where "bs = LeftPadBytes (big_Bytes (uint x)) 32"
  have len: "length (big_Bytes (uint x)) \<le> 32" by (rule length_big_Bytes [OF uint_tt256])
  then have bs: "length bs = 32" "be_nat bs = unat x"
    by (simp_all add: bs_def LeftPadBytes_def be_nat_replicate_0)
      (simp add: big_Bytes_def be_nat_bigBytes)
  have i: "unat i < 32" using True by (simp add: word_less_nat_alt)
  have "unat (take_bit 8 (drop_bit (8 * (31 - unat i)) x)) = unat x div 2 ^ (8 * (31 - unat i)) mod 2 ^ 8"
    unfolding unsigned_take_bit_eq unat_drop_bit_eq by (simp add: take_bit_eq_mod drop_bit_eq_div)
  also have "\<dots> = unat (bs ! unat i)" using be_nat_nth [of "unat i" bs] i bs by (simp add: power_mult)
  finally have "int (unat (bs ! unat i)) = uint (take_bit 8 (drop_bit (8 * (31 - unat i)) x))"
    by (metis uint_nat)
  moreover have "nat (big_Int64 (uint i)) = unat i" "uint i < 32"
    using i big_Int64_id [OF uint_tt256(1), of i] small_uint [of i 32] by simp_all

  ultimately show ?thesis using True unfolding opByte_def bs_def [symmetric] by simp
next
  case False
  then show ?thesis by (simp add: opByte_def word_less_def)
qed

lemmas op_word = op_word_ring op_word_div op_word_signed op_word_exp op_word_modular op_word_logic
  op_word_compare op_word_byte

section \<open>The instructions refine the word operations\<close>

definition as_exec :: "u256 list option \<Rightarrow> int list exec" where
  "as_exec r = (case r of Some ws \<Rightarrow> Ret (map uint ws) | None \<Rightarrow> Panicked)"

lemma uint_small_iff: "uint (b :: u256) < 31 \<longleftrightarrow> b < 31"
  by (simp add: word_less_def)

text \<open>
  C8: The arithmetic instructions ADD, MUL, SUB, DIV, SDIV, MOD, SMOD, ADDMOD, MULMOD, EXP and
  SIGNEXTEND, which compute with big integers and mask the result, give on every stack of 256-bit
  words the result of the word operation: modular ring operations, unsigned division with x / 0 = 0
  and x % 0 = 0, truncating signed division, the power modulo 2^256 (computed by squaring), and the
  extension of the sign of byte b; a stack that is too short panics.
\<close>

theorem exec_arith_word: "exec_arith op (map uint ws) = as_exec (arith_word op ws)"
proof (cases op)
  case SIGNEXTEND
  then show ?thesis
    by (cases "(op, ws)" rule: arith_word.cases)
      (auto simp: as_exec_def op_word_signext uint_small_iff split: list.splits)
qed (cases "(op, ws)" rule: arith_word.cases; simp add: as_exec_def op_word)+

text \<open>
  C22: The comparison and bit instructions give on every stack of 256-bit words the result of the
  word operation: unsigned and two's complement comparison, and, or, xor, not, and BYTE, which
  selects a byte counted from the most significant one and is 0 from index 32 on.
\<close>

theorem exec_bitwise_word: "exec_bitwise op (map uint ws) = as_exec (bit_word op ws)"
  by (cases op; cases "(op, ws)" rule: bit_word.cases; simp add: as_exec_def op_word)

end
