(* ===== verification/VM_Run.thy ===== *)
theory VM_Run
  imports VM_Instr RLP_Encode
begin

text \<open>
  Contracts that run contracts: the precompiled contracts (\<open>core/vm/contracts.go\<close>), the calls of the
  environment (\<open>core/vm/environment.go\<close>), the instructions that use them and the interpreter loop
  (\<open>core/vm/vm.go\<close>). The loop and the calls are mutually recursive; the model recurses on fuel, of
  which every iteration of a loop takes one unit. The functions below the loop take the function that
  runs a contract as an argument.

  The tracer, the log lines and the disabled just-in-time compiler are left out. \<open>Depth\<close> is an argument,
  since \<open>Run\<close> restores it when it returns.
\<close>

section \<open>Precompiled contracts\<close>

datatype precompile = PEcrecover | PSha256 | PRipemd160 | PIdentity

definition precompiled :: "address \<Rightarrow> precompile option" where
  "precompiled a =
     map_of [(LeftPadBytes [1] 20, PEcrecover), (LeftPadBytes [2] 20, PSha256),
             (LeftPadBytes [3] 20, PRipemd160), (LeftPadBytes [4] 20, PIdentity)] a"

fun precompile_Gas :: "precompile \<Rightarrow> int \<Rightarrow> int" where
  "precompile_Gas PEcrecover l = EcrecoverGas"
| "precompile_Gas PSha256 l = (l + 31) div 32 * Sha256WordGas + Sha256Gas"
| "precompile_Gas PRipemd160 l = (l + 31) div 32 * Ripemd160WordGas + Ripemd160Gas"
| "precompile_Gas PIdentity l = (l + 31) div 32 * IdentityWordGas + IdentityGas"

definition secp256k1_N :: int where
  "secp256k1_N = 0xfffffffffffffffffffffffffffffffebaaedce6af48a03bbfd25e8cd0364141"

definition secp256k1_HalfN :: int where
  "secp256k1_HalfN = 0x7fffffffffffffffffffffffffffffff5d576e7357a4501ddfe92f46681b20a0"

definition ValidateSignatureValues :: "byte \<Rightarrow> int \<Rightarrow> int \<Rightarrow> bool \<Rightarrow> bool" where
  "ValidateSignatureValues v r s homestead =
     (if r < 1 \<or> s < 1 then False
      else if homestead \<and> s > secp256k1_HalfN then False
      else if s \<ge> secp256k1_N then False
      else r < secp256k1_N \<and> (v = 27 \<or> v = 28))"

text \<open>
  \<open>ecrecoverFunc\<close> returns its result together with the input slice as it leaves it: appending to
  \<open>in[64:128]\<close> writes into the array behind the input when that is longer than 128 bytes. The result
  is \<open>None\<close> for nil.
\<close>

definition ecrecoverFunc :: "'s Environment \<Rightarrow> bytes \<Rightarrow> (bytes option \<times> bytes) exec" where
  "ecrecoverFunc env inp =
     (let i = RightPadBytes inp 128;
          r = BytesToBig (take 32 (drop 64 i));
          s = BytesToBig (take 32 (drop 96 i));
          vbig = BytesToBig (take 32 (drop 32 i));
          v = ucast (big_Uint64 vbig) :: byte
      in if \<not> ValidateSignatureValues v r s False then Ret (None, inp)
         else
           (let vnormal = ucast (big_Uint64 (vbig - 27)) :: byte;
                rsv = take 64 (drop 64 i) @ [vnormal];
                inp' = (if length inp > 128 then inp[128 := vnormal] else inp)
            in case Ecrecover env (take 32 i) rsv of
                 None \<Rightarrow> Ret (None, inp')
               | Some pubKey \<Rightarrow>
                   (if pubKey = [] then Panicked
                    else
                      (let h = Keccak256 env (tl pubKey)
                       in if length h < 12 then Panicked else Ret (Some (LeftPadBytes (drop 12 h) 32), inp')))))"

fun precompile_Call :: "'s Environment \<Rightarrow> precompile \<Rightarrow> bytes \<Rightarrow> bytes exec" where
  "precompile_Call env PEcrecover inp =
     exec_bind (ecrecoverFunc env inp) (\<lambda>(r, _). Ret (case r of None \<Rightarrow> [] | Some b \<Rightarrow> b))"
| "precompile_Call env PSha256 inp = Ret (Sha256 env inp)"
| "precompile_Call env PRipemd160 inp = Ret (LeftPadBytes (Ripemd160 env inp) 32)"
| "precompile_Call env PIdentity inp = Ret inp"

type_synonym 's outcome = "bytes \<times> vm_err option \<times> Contract \<times> 's"

definition RunPrecompiled :: "'s Environment \<Rightarrow> precompile \<Rightarrow> bytes \<Rightarrow> Contract \<Rightarrow> 's \<Rightarrow> 's outcome exec" where
  "RunPrecompiled env p inp con db =
     (case UseGas con (precompile_Gas p (int (length inp))) of
        (True, con) \<Rightarrow> exec_bind (precompile_Call env p inp) (\<lambda>ret. Ret (ret, None, con, db))
      | (False, con) \<Rightarrow> Ret ([], Some OutOfGas, con, db))"

section \<open>Calls of the environment\<close>

type_synonym 's runner = "nat \<Rightarrow> 's \<Rightarrow> Contract \<Rightarrow> bytes \<Rightarrow> 's outcome exec"
type_synonym 's called = "(bytes \<times> vm_err option \<times> ContractRef \<times> 's) exec"

text \<open>\<open>contract.UseGas(contract.Gas)\<close> leaves no gas.\<close>

definition UseAllGas :: "Contract \<Rightarrow> Contract" where
  "UseAllGas con = snd (UseGas con (c_Gas con))"

text \<open>The end of the three kinds of call: on an error the gas is consumed and the state is reverted.\<close>

definition after_run :: "'s Environment \<Rightarrow> ContractRef \<Rightarrow> nat \<Rightarrow> 's outcome \<Rightarrow> 's called" where
  "after_run env caller snapshot r =
     (case r of (ret, err, con, db) \<Rightarrow>
        (case err of
           None \<Rightarrow> Ret (ret, None, Finalise caller con, db)
         | Some e \<Rightarrow>
             exec_bind (sdb_RevertToSnapshot (StateOps env) db snapshot)
               (\<lambda>db. Ret (ret, Some e, Finalise caller (UseAllGas con), db))))"

definition env_Call ::
  "'s runner \<Rightarrow> 's Environment \<Rightarrow> nat \<Rightarrow> 's \<Rightarrow> ContractRef \<Rightarrow> address \<Rightarrow> bytes \<Rightarrow> int \<Rightarrow> int \<Rightarrow> 's called" where
  "env_Call run env depth db caller addr input gas val =
     (let ops = StateOps env in
      if NoRecursion env \<and> depth > 0 then Ret ([], None, ref_ReturnGas caller gas, db)
      else if depth > CallCreateDepth then Ret ([], Some DepthError, ref_ReturnGas caller gas, db)
      else if \<not> CanTransfer env db (ref_Address caller) val then
        Ret ([], Some InsufficientBalance, ref_ReturnGas caller gas, db)
      else
        (let (snapshot, db) = sdb_Snapshot ops db in
         if \<not> sdb_Exist ops db addr \<and> precompiled addr = None \<and>
            IsEIP158 (chainConfig env) (Some (BlockNumber env)) \<and> big_BitLen val = 0
         then Ret ([], None, ref_ReturnGas caller gas, db)
         else
           (let db = (if \<not> sdb_Exist ops db addr then sdb_CreateAccount ops db addr else db);
                db = Transfer env db (ref_Address caller) addr val;
                con = NewContract caller addr val gas;
                con = SetCallCode con addr (sdb_GetCodeHash ops db addr) (sdb_GetCode ops db addr)
            in exec_bind (run depth db con input) (after_run env caller snapshot))))"

definition env_CallCode ::
  "'s runner \<Rightarrow> 's Environment \<Rightarrow> nat \<Rightarrow> 's \<Rightarrow> ContractRef \<Rightarrow> address \<Rightarrow> bytes \<Rightarrow> int \<Rightarrow> int \<Rightarrow> 's called" where
  "env_CallCode run env depth db caller addr input gas val =
     (let ops = StateOps env in
      if NoRecursion env \<and> depth > 0 then Ret ([], None, ref_ReturnGas caller gas, db)
      else if depth > CallCreateDepth then Ret ([], Some DepthError, ref_ReturnGas caller gas, db)
      else if \<not> CanTransfer env db (ref_Address caller) val then
        Ret ([], Some InsufficientBalance, ref_ReturnGas caller gas, db)
      else
        (let (snapshot, db) = sdb_Snapshot ops db;
             con = NewContract caller (ref_Address caller) val gas;
             con = SetCallCode con addr (sdb_GetCodeHash ops db addr) (sdb_GetCode ops db addr)
         in exec_bind (run depth db con input) (after_run env caller snapshot)))"

definition env_DelegateCall ::
  "'s runner \<Rightarrow> 's Environment \<Rightarrow> nat \<Rightarrow> 's \<Rightarrow> ContractRef \<Rightarrow> address \<Rightarrow> bytes \<Rightarrow> int \<Rightarrow> 's called" where
  "env_DelegateCall run env depth db caller addr input gas =
     (let ops = StateOps env in
      if NoRecursion env \<and> depth > 0 then Ret ([], None, ref_ReturnGas caller gas, db)
      else if depth > CallCreateDepth then Ret ([], Some DepthError, ref_ReturnGas caller gas, db)
      else
        (let (snapshot, db) = sdb_Snapshot ops db in
         case caller of
           RefAccount _ \<Rightarrow> Panicked
         | RefContract parent \<Rightarrow>
             exec_bind (AsDelegate caller (NewContract caller (ref_Address caller) (c_value parent) gas))
               (\<lambda>con.
                 (let con = SetCallCode con addr (sdb_GetCodeHash ops db addr) (sdb_GetCode ops db addr)
                  in exec_bind (run depth db con input) (after_run env caller snapshot)))))"

definition CreateAddress :: "'s Environment \<Rightarrow> address \<Rightarrow> u64 \<Rightarrow> address exec" where
  "CreateAddress env b nonce =
     (let dat = (case EncodeToBytes (GSlice False [GInterface (GByteArray b), GInterface (GUint nonce)])
                   \<lparr>str = [], lheads = [], lhsize = 0\<rparr> of
                   Inl _ \<Rightarrow> [] | Inr d \<Rightarrow> d);
          h = Keccak256 env dat
      in if length h < 12 then Panicked else Ret (BytesToAddress (drop 12 h)))"

text \<open>The end of a creation: the code is stored, or the gas is consumed and the state reverted.\<close>

definition create_end ::
  "'s Environment \<Rightarrow> ContractRef \<Rightarrow> nat \<Rightarrow> address \<Rightarrow> 's outcome \<Rightarrow>
   (bytes \<times> address \<times> vm_err option \<times> ContractRef \<times> 's) exec" where
  "create_end env caller snapshot addr r =
     (case r of (ret, err, con, db) \<Rightarrow>
        (let ops = StateOps env; num = Some (BlockNumber env);
             maxCodeSizeExceeded = length ret > MaxCodeSize;
             (err, con, db) =
               (if err = None \<and> \<not> maxCodeSizeExceeded then
                  (case UseGas con (int (length ret) * CreateDataGas) of
                     (True, con) \<Rightarrow> (None, con, sdb_SetCode ops db addr ret)
                   | (False, con) \<Rightarrow> (Some CodeStoreOutOfGas, con, db))
                else (err, con, db))
         in if maxCodeSizeExceeded \<or>
               (err \<noteq> None \<and> (IsHomestead (chainConfig env) num \<or> err \<noteq> Some CodeStoreOutOfGas))
            then
              exec_bind (sdb_RevertToSnapshot ops db snapshot)
                (\<lambda>db. Ret ([], addr, err, Finalise caller (UseAllGas con), db))
            else Ret (if err \<noteq> None then [] else ret, addr, err, Finalise caller con, db)))"

definition env_Create ::
  "'s runner \<Rightarrow> 's Environment \<Rightarrow> nat \<Rightarrow> 's \<Rightarrow> ContractRef \<Rightarrow> bytes \<Rightarrow> int \<Rightarrow> int \<Rightarrow>
   (bytes \<times> address \<times> vm_err option \<times> ContractRef \<times> 's) exec" where
  "env_Create run env depth db caller code gas val =
     (let ops = StateOps env; no_addr = replicate 20 0; num = Some (BlockNumber env) in
      if NoRecursion env \<and> depth > 0 then Ret ([], no_addr, None, ref_ReturnGas caller gas, db)
      else if depth > CallCreateDepth then Ret ([], no_addr, Some DepthError, ref_ReturnGas caller gas, db)
      else if \<not> CanTransfer env db (ref_Address caller) val then
        Ret ([], no_addr, Some InsufficientBalance, ref_ReturnGas caller gas, db)
      else
        (let nonce = sdb_GetNonce ops db (ref_Address caller);
             db = sdb_SetNonce ops db (ref_Address caller) (nonce + 1);
             (snapshot, db) = sdb_Snapshot ops db
         in exec_bind (CreateAddress env (ref_Address caller) nonce) (\<lambda>addr.
           (let db = sdb_CreateAccount ops db addr;
                db = (if IsEIP158 (chainConfig env) num then sdb_SetNonce ops db addr 1 else db);
                db = Transfer env db (ref_Address caller) addr val;
                con = NewContract caller addr val gas;
                con = SetCallCode con addr (Keccak256 env code) code
            in exec_bind (run depth db con []) (create_end env caller snapshot addr)))))"

section \<open>The instructions that start a contract\<close>

text \<open>The contract of a reference that a call has returned; a call returns the kind of reference it was given.\<close>

definition ref_contract :: "ContractRef \<Rightarrow> Contract exec" where
  "ref_contract r = (case r of RefContract c \<Rightarrow> Ret c | RefAccount _ \<Rightarrow> Panicked)"

definition opCreate :: "'s runner \<Rightarrow> 's Environment \<Rightarrow> nat \<Rightarrow> 's frame \<Rightarrow> 's frame exec" where
  "opCreate run env depth f =
     (let num = Some (BlockNumber env); con = f_con f in
      case f_stk f of
        val # offset # sz # st \<Rightarrow>
          exec_bind (mem_Get (f_mem f) (big_Int64 offset) (big_Int64 sz)) (\<lambda>input.
            (let gas = (if IsEIP150 (chainConfig env) num then c_Gas con - c_Gas con div 64 else c_Gas con);
                 con = snd (UseGas con gas)
             in exec_bind (env_Create run env depth (f_db f) (RefContract con) input gas val)
               (\<lambda>(_, addr, suberr, caller, db). exec_bind (ref_contract caller) (\<lambda>con.
                 (let res = (if IsHomestead (chainConfig env) num \<and> suberr = Some CodeStoreOutOfGas then 0
                             else if suberr \<noteq> None \<and> suberr \<noteq> Some CodeStoreOutOfGas then 0
                             else BytesToBig addr)
                  in Ret (f\<lparr>f_stk := res # st, f_con := con, f_db := db\<rparr>))))))
      | _ \<Rightarrow> Panicked)"

text \<open>The end of the call instructions: push the success flag and store the returned data.\<close>

definition end_call :: "'s frame \<Rightarrow> int list \<Rightarrow> int \<Rightarrow> int \<Rightarrow> 's called \<Rightarrow> 's frame exec" where
  "end_call f st retOffset retSize r =
     exec_bind r (\<lambda>(ret, err, caller, db). exec_bind (ref_contract caller) (\<lambda>con.
       (if err \<noteq> None then Ret (f\<lparr>f_stk := 0 # st, f_con := con, f_db := db\<rparr>)
        else
          exec_bind (mem_Set (f_mem f) (big_Uint64 retOffset) (big_Uint64 retSize) ret)
            (\<lambda>mem. Ret (f\<lparr>f_mem := mem, f_stk := 1 # st, f_con := con, f_db := db\<rparr>)))))"

definition opCall :: "'s runner \<Rightarrow> 's Environment \<Rightarrow> nat \<Rightarrow> 's frame \<Rightarrow> 's frame exec" where
  "opCall run env depth f =
     (case f_stk f of
        gas # addr # val # inOffset # inSize # retOffset # retSize # st \<Rightarrow>
          (let val = U256 val in
           exec_bind (mem_Get (f_mem f) (big_Int64 inOffset) (big_Int64 inSize)) (\<lambda>args.
             (let gas = (if length (big_Bytes val) > 0 then gas + CallStipend else gas)
              in end_call f st retOffset retSize
                   (env_Call run env depth (f_db f) (RefContract (f_con f)) (BigToAddress addr) args gas val))))
      | _ \<Rightarrow> Panicked)"

definition opCallCode :: "'s runner \<Rightarrow> 's Environment \<Rightarrow> nat \<Rightarrow> 's frame \<Rightarrow> 's frame exec" where
  "opCallCode run env depth f =
     (case f_stk f of
        gas # addr # val # inOffset # inSize # retOffset # retSize # st \<Rightarrow>
          (let val = U256 val in
           exec_bind (mem_Get (f_mem f) (big_Int64 inOffset) (big_Int64 inSize)) (\<lambda>args.
             (let gas = (if length (big_Bytes val) > 0 then gas + CallStipend else gas)
              in end_call f st retOffset retSize
                   (env_CallCode run env depth (f_db f) (RefContract (f_con f)) (BigToAddress addr) args gas val))))
      | _ \<Rightarrow> Panicked)"

definition opDelegateCall :: "'s runner \<Rightarrow> 's Environment \<Rightarrow> nat \<Rightarrow> 's frame \<Rightarrow> 's frame exec" where
  "opDelegateCall run env depth f =
     (case f_stk f of
        gas # to # inOffset # inSize # outOffset # outSize # st \<Rightarrow>
          exec_bind (mem_Get (f_mem f) (big_Int64 inOffset) (big_Int64 inSize)) (\<lambda>args.
            end_call f st outOffset outSize
              (env_DelegateCall run env depth (f_db f) (RefContract (f_con f)) (BigToAddress to) args gas))
      | _ \<Rightarrow> Panicked)"

fun exec_call :: "'s runner \<Rightarrow> 's Environment \<Rightarrow> nat \<Rightarrow> call_op \<Rightarrow> 's frame \<Rightarrow> 's frame exec" where
  "exec_call run env depth CREATE f = opCreate run env depth f"
| "exec_call run env depth CALL f = opCall run env depth f"
| "exec_call run env depth CALLCODE f = opCallCode run env depth f"
| "exec_call run env depth DELEGATECALL f = opDelegateCall run env depth f"

section \<open>The interpreter\<close>

text \<open>The jump table: which opcodes are valid, and the instruction of each.\<close>

definition op_valid :: "'s Environment \<Rightarrow> opcode \<Rightarrow> bool" where
  "op_valid env op =
     (case op of
        UNDEF _ \<Rightarrow> False
      | Call DELEGATECALL \<Rightarrow> IsHomestead (chainConfig env) (Some (BlockNumber env))
      | _ \<Rightarrow> True)"

definition lift_stack :: "'s frame \<Rightarrow> int list exec \<Rightarrow> 's frame exec" where
  "lift_stack f r = exec_bind r (\<lambda>st. Ret (f\<lparr>f_stk := st\<rparr>))"

definition exec_op :: "'s runner \<Rightarrow> 's Environment \<Rightarrow> nat \<Rightarrow> opcode \<Rightarrow> 's frame \<Rightarrow> 's frame exec" where
  "exec_op run env depth op f =
     (case op of
        Arith a \<Rightarrow> lift_stack f (exec_arith a (f_stk f))
      | Bitwise b \<Rightarrow> lift_stack f (exec_bitwise b (f_stk f))
      | SHA3 \<Rightarrow> opSha3 env f
      | Closure c \<Rightarrow> exec_closure env c f
      | Block b \<Rightarrow> lift_stack f (exec_block env b (f_stk f))
      | Store s \<Rightarrow> exec_store env s f
      | PUSH n \<Rightarrow> makePush n f
      | DUP n \<Rightarrow> makeDup n f
      | SWAP n \<Rightarrow> makeSwap n f
      | LOG n \<Rightarrow> makeLog env n f
      | Call c \<Rightarrow> exec_call run env depth c f
      | _ \<Rightarrow> Panicked)"

text \<open>A step either continues with a frame or ends the run.\<close>

definition halt :: "bytes \<Rightarrow> vm_err option \<Rightarrow> 's frame \<Rightarrow> ('s frame + 's outcome) exec" where
  "halt ret err f = Ret (Inr (ret, err, f_con f, f_db f))"

definition do_jump :: "hash \<Rightarrow> int \<Rightarrow> 's frame \<Rightarrow> ('s frame + 's outcome) exec" where
  "do_jump codehash dest f =
     (let con = f_con f in
      case dests_has (c_jumpdests con) codehash (c_Code con) dest of
        (True, d) \<Rightarrow> Ret (Inl (f\<lparr>f_pc := big_Uint64 dest, f_con := con\<lparr>c_jumpdests := d\<rparr>\<rparr>))
      | (False, d) \<Rightarrow>
          halt [] (Some (InvalidJump (GetOp con (big_Uint64 dest)) dest)) (f\<lparr>f_con := con\<lparr>c_jumpdests := d\<rparr>\<rparr>))"

definition next_pc :: "'s frame exec \<Rightarrow> ('s frame + 's outcome) exec" where
  "next_pc r = exec_bind r (\<lambda>f. Ret (Inl (f\<lparr>f_pc := f_pc f + 1\<rparr>)))"

definition dispatch ::
  "'s runner \<Rightarrow> 's Environment \<Rightarrow> nat \<Rightarrow> hash \<Rightarrow> opcode \<Rightarrow> 's frame \<Rightarrow> ('s frame + 's outcome) exec" where
  "dispatch run env depth codehash op f =
     (case op of
        JUMP \<Rightarrow> (case f_stk f of to # st \<Rightarrow> do_jump codehash to (f\<lparr>f_stk := st\<rparr>) | _ \<Rightarrow> Panicked)
      | JUMPI \<Rightarrow>
          (case f_stk f of
             pos # cond # st \<Rightarrow>
               (if cond \<ge> 1 then do_jump codehash pos (f\<lparr>f_stk := st\<rparr>) else next_pc (Ret (f\<lparr>f_stk := st\<rparr>)))
           | _ \<Rightarrow> Panicked)
      | RETURN \<Rightarrow>
          (case f_stk f of
             offset # sz # st \<Rightarrow>
               exec_bind (mem_GetPtr (f_mem f) (big_Int64 offset) (big_Int64 sz))
                 (\<lambda>ret. halt ret None (f\<lparr>f_stk := st\<rparr>))
           | _ \<Rightarrow> Panicked)
      | SUICIDE \<Rightarrow> exec_bind (opSuicide env f) (\<lambda>f. halt [] None f)
      | STOP \<Rightarrow> halt [] None f
      | _ \<Rightarrow> next_pc (exec_op run env depth op f))"

definition step ::
  "'s runner \<Rightarrow> 's Environment \<Rightarrow> nat \<Rightarrow> hash \<Rightarrow> 's frame \<Rightarrow> ('s frame + 's outcome) exec" where
  "step run env depth codehash f =
     (let op = GetOp (f_con f) (f_pc f) in
      exec_bind (calculateGasAndSize env (f_con f) op (f_mem f) (f_stk f) (f_db f)) (\<lambda>r.
        (case r of
           Inl e \<Rightarrow> halt [] (Some e) f
         | Inr (newMemSize, cost, st, db) \<Rightarrow>
             (case UseGas (f_con f) cost of
                (False, con) \<Rightarrow> halt [] (Some OutOfGas) (f\<lparr>f_stk := st, f_con := con, f_db := db\<rparr>)
              | (True, con) \<Rightarrow>
                  (let f = f\<lparr>f_mem := mem_Resize (f_mem f) (big_Uint64 newMemSize), f_stk := st, f_con := con,
                       f_db := db\<rparr>
                   in if op_valid env op then dispatch run env depth codehash op f
                      else halt [] (Some (InvalidOpcode op)) f)))))"

definition Run_with ::
  "(nat \<Rightarrow> hash \<Rightarrow> 's frame \<Rightarrow> 's outcome exec) \<Rightarrow> 's Environment \<Rightarrow> 's runner" where
  "Run_with loop env depth db con input =
     (case Option.bind (c_CodeAddr con) precompiled of
        Some p \<Rightarrow> RunPrecompiled env p input con db
      | None \<Rightarrow>
          (if c_Code con = [] then Ret ([], None, con, db)
           else
             (let codehash = (if c_CodeHash con = replicate 32 0 then Keccak256 env (c_Code con) else c_CodeHash con)
              in loop (depth + 1) codehash
                   \<lparr>f_pc = 0, f_mem = [], f_stk = [], f_con = con\<lparr>c_Input := input\<rparr>, f_db = db\<rparr>)))"

fun run_loop :: "nat \<Rightarrow> 's Environment \<Rightarrow> nat \<Rightarrow> hash \<Rightarrow> 's frame \<Rightarrow> 's outcome exec" where
  "run_loop 0 env depth codehash f = NoFuel"
| "run_loop (Suc fuel) env depth codehash f =
     exec_bind (step (Run_with (run_loop fuel env) env) env depth codehash f)
       (\<lambda>r. case r of Inl f \<Rightarrow> run_loop fuel env depth codehash f | Inr out \<Rightarrow> Ret out)"

definition Run :: "nat \<Rightarrow> 's Environment \<Rightarrow> 's runner" where
  "Run fuel env = Run_with (run_loop fuel env) env"

end
