(* ===== verification/State_DB.thy ===== *)
theory State_DB
  imports VM_Run RLP_Typed
begin

text \<open>
  The state database of \<open>core/state\<close>: accounts and state objects (\<open>state_object.go\<close>), the database with its
  cache of live objects (\<open>statedb.go\<close>) and the journal that a revert replays (\<open>journal.go\<close>).

  The tries and the key-value store are used through the record \<open>Backend\<close>, whose state types are \<open>'t\<close>
  and \<open>'d\<close>; reading a trie may load nodes, which no later read can observe, and leaves the trie as it is
  here. A pointer to a state object that the source keeps is always the live object of its address, so
  that objects are values here and are put back after a change. The journal and the list of revisions
  hold their newest entry first. The cache of code sizes, the log lines and the lock are left out.
\<close>

section \<open>State objects\<close>

record ('t, 'd) Backend =
  b_Keccak256 :: "bytes \<Rightarrow> bytes"
  b_NewSecure :: "hash \<Rightarrow> 'd \<Rightarrow> 't option"
  b_emptyTrie :: "'d \<Rightarrow> 't"
  b_Get :: "'t \<Rightarrow> bytes \<Rightarrow> bytes"
  b_Update :: "'t \<Rightarrow> bytes \<Rightarrow> bytes \<Rightarrow> 't"
  b_Delete :: "'t \<Rightarrow> bytes \<Rightarrow> 't"
  b_Hash :: "'t \<Rightarrow> hash \<times> 't"
  b_CommitTo :: "'t \<Rightarrow> 'd \<Rightarrow> (hash \<times> 't \<times> 'd) option"
  b_dbGet :: "'d \<Rightarrow> bytes \<Rightarrow> bytes option"
  b_dbPut :: "'d \<Rightarrow> bytes \<Rightarrow> bytes \<Rightarrow> 'd option"

record Account =
  acc_Nonce :: u64
  acc_Balance :: int
  acc_Root :: hash
  acc_CodeHash :: bytes

type_synonym Storage = "hash \<Rightarrow> hash option"

record 't StateObject =
  so_address :: address
  so_data :: Account
  so_dbErr :: bool
  so_trie :: "'t option"
  so_code :: "bytes option"
  so_cachedStorage :: Storage
  so_dirtyStorage :: Storage
  so_dirtyCode :: bool
  so_suicided :: bool
  so_touched :: bool
  so_deleted :: bool
  so_onDirty :: bool

definition zero_hash :: hash where
  "zero_hash = replicate 32 0"

definition emptyCodeHash :: "('t, 'd) Backend \<Rightarrow> bytes" where
  "emptyCodeHash b = b_Keccak256 b []"

definition so_empty :: "('t, 'd) Backend \<Rightarrow> 't StateObject \<Rightarrow> bool" where
  "so_empty b ob \<longleftrightarrow>
     acc_Nonce (so_data ob) = 0 \<and> big_BitLen (acc_Balance (so_data ob)) = 0 \<and>
     acc_CodeHash (so_data ob) = emptyCodeHash b"

text \<open>The balance and the code hash of the account may be nil.\<close>

definition newObject ::
  "('t, 'd) Backend \<Rightarrow> address \<Rightarrow> u64 \<Rightarrow> int option \<Rightarrow> hash \<Rightarrow> bytes option \<Rightarrow> 't StateObject" where
  "newObject b addr nonce balance root codehash =
     \<lparr>so_address = addr,
      so_data = \<lparr>acc_Nonce = nonce, acc_Balance = (case balance of None \<Rightarrow> 0 | Some x \<Rightarrow> x), acc_Root = root,
        acc_CodeHash = (case codehash of None \<Rightarrow> emptyCodeHash b | Some h \<Rightarrow> h)\<rparr>,
      so_dbErr = False, so_trie = None, so_code = None, so_cachedStorage = Map.empty,
      so_dirtyStorage = Map.empty, so_dirtyCode = False, so_suicided = False, so_touched = False,
      so_deleted = False, so_onDirty = True\<rparr>"

definition EncodeRLP :: "'t StateObject \<Rightarrow> gval" where
  "EncodeRLP ob =
     GEncoder (GStruct [GUint (acc_Nonce (so_data ob)), GBigIntPtr (acc_Balance (so_data ob)),
       GByteArray (acc_Root (so_data ob)), GBytes (acc_CodeHash (so_data ob))])"

definition setError :: "'t StateObject \<Rightarrow> 't StateObject" where
  "setError ob = ob\<lparr>so_dbErr := True\<rparr>"

definition getTrie :: "('t, 'd) Backend \<Rightarrow> 'd \<Rightarrow> 't StateObject \<Rightarrow> 't \<times> 't StateObject" where
  "getTrie b d ob =
     (case so_trie ob of
        Some t \<Rightarrow> (t, ob)
      | None \<Rightarrow>
          (case b_NewSecure b (acc_Root (so_data ob)) d of
             Some t \<Rightarrow> (t, ob\<lparr>so_trie := Some t\<rparr>)
           | None \<Rightarrow> (b_emptyTrie b d, setError (ob\<lparr>so_trie := Some (b_emptyTrie b d)\<rparr>))))"

text \<open>
  \<open>GetState\<close> reads the cache or the storage trie. The value in the trie is an RLP string; where it cannot
  be split, the zero hash is read.
\<close>

definition so_GetState :: "('t, 'd) Backend \<Rightarrow> 'd \<Rightarrow> 't StateObject \<Rightarrow> hash \<Rightarrow> hash \<times> 't StateObject" where
  "so_GetState b d ob key =
     (case so_cachedStorage ob key of
        Some value \<Rightarrow> (value, ob)
      | None \<Rightarrow>
          (let (tr, ob) = getTrie b d ob;
               enc = b_Get b tr key;
               (value, ob) =
                 (if length enc > 0 then
                    (case Split enc of
                       Inl _ \<Rightarrow> (zero_hash, setError ob)
                     | Inr (_, content, _) \<Rightarrow> (BytesToHash content, ob))
                  else (zero_hash, ob));
               ob = (if value \<noteq> zero_hash then ob\<lparr>so_cachedStorage := (so_cachedStorage ob)(key \<mapsto> value)\<rparr> else ob)
           in (value, ob)))"

definition so_Code :: "('t, 'd) Backend \<Rightarrow> 'd \<Rightarrow> 't StateObject \<Rightarrow> bytes option \<times> 't StateObject" where
  "so_Code b d ob =
     (case so_code ob of
        Some code \<Rightarrow> (Some code, ob)
      | None \<Rightarrow>
          (if acc_CodeHash (so_data ob) = emptyCodeHash b then (None, ob)
           else
             (case b_dbGet b d (acc_CodeHash (so_data ob)) of
                Some code \<Rightarrow> (Some code, ob\<lparr>so_code := Some code\<rparr>)
              | None \<Rightarrow> (None, setError ob))))"

section \<open>The database\<close>

datatype 't journalEntry =
    createObjectChange address
  | resetObjectChange "'t StateObject"
  | suicideChange address bool int
  | balanceChange address int
  | nonceChange address u64
  | storageChange address hash hash
  | codeChange address "bytes option" bytes
  | refundChange int
  | addLogChange hash
  | touchChange address bool

record revision =
  rev_id :: nat
  journalIndex :: nat

text \<open>A log as the database stores it: the fields of the machine and those that the database adds.\<close>

record StoredLog = Log +
  l_TxHash :: hash
  l_BlockHash :: hash
  l_TxIndex :: int
  l_Index :: u64

record ('t, 'd) state_db =
  sd_db :: 'd
  sd_trie :: 't
  sd_pastTries :: "'t list"
  sd_stateObjects :: "address \<Rightarrow> 't StateObject option"
  sd_dirty :: "address \<Rightarrow> bool"
  sd_refund :: int
  sd_thash :: hash
  sd_bhash :: hash
  sd_txIndex :: int
  sd_logs :: "hash \<Rightarrow> StoredLog list option"
  sd_logSize :: u64
  sd_journal :: "'t journalEntry list"
  sd_validRevisions :: "revision list"
  sd_nextRevisionId :: nat

definition fresh_state :: "'d \<Rightarrow> 't \<Rightarrow> 't list \<Rightarrow> ('t, 'd) state_db" where
  "fresh_state d tr past =
     \<lparr>sd_db = d, sd_trie = tr, sd_pastTries = past, sd_stateObjects = Map.empty, sd_dirty = (\<lambda>_. False),
      sd_refund = 0, sd_thash = zero_hash, sd_bhash = zero_hash, sd_txIndex = 0, sd_logs = Map.empty,
      sd_logSize = 0, sd_journal = [], sd_validRevisions = [], sd_nextRevisionId = 0\<rparr>"

definition state_New :: "('t, 'd) Backend \<Rightarrow> hash \<Rightarrow> 'd \<Rightarrow> ('t, 'd) state_db option" where
  "state_New b root d = map_option (\<lambda>tr. fresh_state d tr []) (b_NewSecure b root d)"

text \<open>Changing an object: a first change reports the object as dirty through its callback.\<close>

definition setStateObject :: "('t, 'd) state_db \<Rightarrow> 't StateObject \<Rightarrow> ('t, 'd) state_db" where
  "setStateObject s ob = s\<lparr>sd_stateObjects := (sd_stateObjects s)(so_address ob \<mapsto> ob)\<rparr>"

definition MarkStateObjectDirty :: "('t, 'd) state_db \<Rightarrow> address \<Rightarrow> ('t, 'd) state_db" where
  "MarkStateObjectDirty s addr = s\<lparr>sd_dirty := (sd_dirty s)(addr := True)\<rparr>"

definition dirtied :: "('t, 'd) state_db \<Rightarrow> 't StateObject \<Rightarrow> ('t, 'd) state_db" where
  "dirtied s ob =
     (if so_onDirty ob then setStateObject (MarkStateObjectDirty s (so_address ob)) (ob\<lparr>so_onDirty := False\<rparr>)
      else setStateObject s ob)"

definition journal_add :: "('t, 'd) state_db \<Rightarrow> 't journalEntry \<Rightarrow> ('t, 'd) state_db" where
  "journal_add s e = s\<lparr>sd_journal := e # sd_journal s\<rparr>"

definition accountType :: gtype where
  "accountType = TStruct [TUint 64, TBigInt, TByteArray 32, TByteSlice]"

text \<open>Six units of fuel decode the four flat fields of an account.\<close>

definition decodeAccount :: "bytes \<Rightarrow> (u64 \<times> int \<times> hash \<times> bytes) option" where
  "decodeAccount enc =
     (case DecodeBytes 6 accountType enc of
        Some (Inr (GStruct [GUint nonce, GBigInt balance, GByteArray root, GBytes codehash])) \<Rightarrow>
          Some (nonce, balance, root, codehash)
      | _ \<Rightarrow> None)"

definition GetStateObject ::
  "('t, 'd) Backend \<Rightarrow> ('t, 'd) state_db \<Rightarrow> address \<Rightarrow> 't StateObject option \<times> ('t, 'd) state_db" where
  "GetStateObject b s addr =
     (case sd_stateObjects s addr of
        Some obj \<Rightarrow> (if so_deleted obj then None else Some obj, s)
      | None \<Rightarrow>
          (let enc = b_Get b (sd_trie s) addr in
           if length enc = 0 then (None, s)
           else
             (case decodeAccount enc of
                None \<Rightarrow> (None, s)
              | Some (nonce, balance, root, codehash) \<Rightarrow>
                  (let obj = newObject b addr nonce (Some balance) root (Some codehash)
                   in (Some obj, setStateObject s obj)))))"

definition so_setNonce :: "('t, 'd) state_db \<Rightarrow> 't StateObject \<Rightarrow> u64 \<Rightarrow> ('t, 'd) state_db" where
  "so_setNonce s ob nonce = dirtied s (ob\<lparr>so_data := (so_data ob)\<lparr>acc_Nonce := nonce\<rparr>\<rparr>)"

definition so_setBalance :: "('t, 'd) state_db \<Rightarrow> 't StateObject \<Rightarrow> int \<Rightarrow> ('t, 'd) state_db" where
  "so_setBalance s ob amount = dirtied s (ob\<lparr>so_data := (so_data ob)\<lparr>acc_Balance := amount\<rparr>\<rparr>)"

definition so_setState :: "('t, 'd) state_db \<Rightarrow> 't StateObject \<Rightarrow> hash \<Rightarrow> hash \<Rightarrow> ('t, 'd) state_db" where
  "so_setState s ob key value =
     dirtied s (ob\<lparr>so_cachedStorage := (so_cachedStorage ob)(key \<mapsto> value),
                  so_dirtyStorage := (so_dirtyStorage ob)(key \<mapsto> value)\<rparr>)"

definition so_setCode :: "('t, 'd) state_db \<Rightarrow> 't StateObject \<Rightarrow> hash \<Rightarrow> bytes option \<Rightarrow> ('t, 'd) state_db" where
  "so_setCode s ob codeHash code =
     dirtied s (ob\<lparr>so_code := code, so_data := (so_data ob)\<lparr>acc_CodeHash := codeHash\<rparr>, so_dirtyCode := True\<rparr>)"

definition markSuicided :: "('t, 'd) state_db \<Rightarrow> 't StateObject \<Rightarrow> ('t, 'd) state_db" where
  "markSuicided s ob = dirtied s (ob\<lparr>so_suicided := True\<rparr>)"

text \<open>
  \<open>createObject\<close> sets the nonce of the new object, which marks it dirty, before it enters the object
  into the map.
\<close>

definition createObject ::
  "('t, 'd) Backend \<Rightarrow> ('t, 'd) state_db \<Rightarrow> address \<Rightarrow> ('t StateObject \<times> 't StateObject option) \<times> ('t, 'd) state_db" where
  "createObject b s addr =
     (let (prev, s) = GetStateObject b s addr;
          newobj = (newObject b addr 0 None zero_hash None)\<lparr>so_onDirty := False\<rparr>;
          s = MarkStateObjectDirty s addr;
          s = journal_add s (case prev of None \<Rightarrow> createObjectChange addr | Some p \<Rightarrow> resetObjectChange p)
      in ((newobj, prev), setStateObject s newobj))"

definition GetOrNewStateObject ::
  "('t, 'd) Backend \<Rightarrow> ('t, 'd) state_db \<Rightarrow> address \<Rightarrow> 't StateObject \<times> ('t, 'd) state_db" where
  "GetOrNewStateObject b s addr =
     (case GetStateObject b s addr of
        (Some obj, s) \<Rightarrow> (if so_deleted obj then (let ((n, _), s) = createObject b s addr in (n, s)) else (obj, s))
      | (None, s) \<Rightarrow> (let ((n, _), s) = createObject b s addr in (n, s)))"

section \<open>Reading\<close>

definition Exist :: "('t, 'd) Backend \<Rightarrow> ('t, 'd) state_db \<Rightarrow> address \<Rightarrow> bool \<times> ('t, 'd) state_db" where
  "Exist b s addr = (case GetStateObject b s addr of (ob, s) \<Rightarrow> (ob \<noteq> None, s))"

definition Empty :: "('t, 'd) Backend \<Rightarrow> ('t, 'd) state_db \<Rightarrow> address \<Rightarrow> bool \<times> ('t, 'd) state_db" where
  "Empty b s addr =
     (case GetStateObject b s addr of
        (None, s) \<Rightarrow> (True, s)
      | (Some so, s) \<Rightarrow> (so_empty b so, s))"

definition GetBalance :: "('t, 'd) Backend \<Rightarrow> ('t, 'd) state_db \<Rightarrow> address \<Rightarrow> int \<times> ('t, 'd) state_db" where
  "GetBalance b s addr =
     (case GetStateObject b s addr of
        (Some so, s) \<Rightarrow> (acc_Balance (so_data so), s)
      | (None, s) \<Rightarrow> (0, s))"

definition GetNonce :: "('t, 'd) Backend \<Rightarrow> ('t, 'd) state_db \<Rightarrow> address \<Rightarrow> u64 \<times> ('t, 'd) state_db" where
  "GetNonce b s addr =
     (case GetStateObject b s addr of
        (Some so, s) \<Rightarrow> (acc_Nonce (so_data so), s)
      | (None, s) \<Rightarrow> (0, s))"

definition nil_bytes :: "bytes option \<Rightarrow> bytes" where
  "nil_bytes c = (case c of None \<Rightarrow> [] | Some x \<Rightarrow> x)"

definition GetCode :: "('t, 'd) Backend \<Rightarrow> ('t, 'd) state_db \<Rightarrow> address \<Rightarrow> bytes \<times> ('t, 'd) state_db" where
  "GetCode b s addr =
     (case GetStateObject b s addr of
        (Some so, s) \<Rightarrow> (case so_Code b (sd_db s) so of (code, so) \<Rightarrow> (nil_bytes code, setStateObject s so))
      | (None, s) \<Rightarrow> ([], s))"

definition GetCodeSize :: "('t, 'd) Backend \<Rightarrow> ('t, 'd) state_db \<Rightarrow> address \<Rightarrow> int \<times> ('t, 'd) state_db" where
  "GetCodeSize b s addr =
     (case GetStateObject b s addr of
        (Some so, s) \<Rightarrow>
          (case so_Code b (sd_db s) so of (code, so) \<Rightarrow> (int (length (nil_bytes code)), setStateObject s so))
      | (None, s) \<Rightarrow> (0, s))"

definition GetCodeHash :: "('t, 'd) Backend \<Rightarrow> ('t, 'd) state_db \<Rightarrow> address \<Rightarrow> hash \<times> ('t, 'd) state_db" where
  "GetCodeHash b s addr =
     (case GetStateObject b s addr of
        (Some so, s) \<Rightarrow> (BytesToHash (acc_CodeHash (so_data so)), s)
      | (None, s) \<Rightarrow> (zero_hash, s))"

definition GetState :: "('t, 'd) Backend \<Rightarrow> ('t, 'd) state_db \<Rightarrow> address \<Rightarrow> hash \<Rightarrow> hash \<times> ('t, 'd) state_db" where
  "GetState b s addr key =
     (case GetStateObject b s addr of
        (Some so, s) \<Rightarrow> (case so_GetState b (sd_db s) so key of (v, so) \<Rightarrow> (v, setStateObject s so))
      | (None, s) \<Rightarrow> (zero_hash, s))"

definition HasSuicided :: "('t, 'd) Backend \<Rightarrow> ('t, 'd) state_db \<Rightarrow> address \<Rightarrow> bool \<times> ('t, 'd) state_db" where
  "HasSuicided b s addr =
     (case GetStateObject b s addr of
        (Some so, s) \<Rightarrow> (so_suicided so, s)
      | (None, s) \<Rightarrow> (False, s))"

section \<open>Writing\<close>

definition touch :: "('t, 'd) state_db \<Rightarrow> 't StateObject \<Rightarrow> ('t, 'd) state_db" where
  "touch s so =
     dirtied (journal_add s (touchChange (so_address so) (so_touched so))) (so\<lparr>so_touched := True\<rparr>)"

definition so_SetBalance :: "('t, 'd) state_db \<Rightarrow> 't StateObject \<Rightarrow> int \<Rightarrow> ('t, 'd) state_db" where
  "so_SetBalance s so amount =
     so_setBalance (journal_add s (balanceChange (so_address so) (acc_Balance (so_data so)))) so amount"

definition so_AddBalance :: "('t, 'd) Backend \<Rightarrow> ('t, 'd) state_db \<Rightarrow> 't StateObject \<Rightarrow> int \<Rightarrow> ('t, 'd) state_db" where
  "so_AddBalance b s so amount =
     (if amount = 0 then (if so_empty b so then touch s so else s)
      else so_SetBalance s so (acc_Balance (so_data so) + amount))"

definition so_SubBalance :: "('t, 'd) state_db \<Rightarrow> 't StateObject \<Rightarrow> int \<Rightarrow> ('t, 'd) state_db" where
  "so_SubBalance s so amount =
     (if amount = 0 then s else so_SetBalance s so (acc_Balance (so_data so) - amount))"

definition so_SetNonce :: "('t, 'd) state_db \<Rightarrow> 't StateObject \<Rightarrow> u64 \<Rightarrow> ('t, 'd) state_db" where
  "so_SetNonce s so nonce =
     so_setNonce (journal_add s (nonceChange (so_address so) (acc_Nonce (so_data so)))) so nonce"

definition so_SetState ::
  "('t, 'd) Backend \<Rightarrow> ('t, 'd) state_db \<Rightarrow> 't StateObject \<Rightarrow> hash \<Rightarrow> hash \<Rightarrow> ('t, 'd) state_db" where
  "so_SetState b s so key value =
     (case so_GetState b (sd_db s) so key of (prevalue, so) \<Rightarrow>
        so_setState (journal_add s (storageChange (so_address so) key prevalue)) so key value)"

definition so_SetCode ::
  "('t, 'd) Backend \<Rightarrow> ('t, 'd) state_db \<Rightarrow> 't StateObject \<Rightarrow> hash \<Rightarrow> bytes \<Rightarrow> ('t, 'd) state_db" where
  "so_SetCode b s so codeHash code =
     (case so_Code b (sd_db s) so of (prevcode, so) \<Rightarrow>
        so_setCode (journal_add s (codeChange (so_address so) prevcode (acc_CodeHash (so_data so)))) so
          codeHash (Some code))"

definition AddBalance :: "('t, 'd) Backend \<Rightarrow> ('t, 'd) state_db \<Rightarrow> address \<Rightarrow> int \<Rightarrow> ('t, 'd) state_db" where
  "AddBalance b s addr amount =
     (case GetOrNewStateObject b s addr of (so, s) \<Rightarrow> so_AddBalance b s so amount)"

definition SubBalance :: "('t, 'd) Backend \<Rightarrow> ('t, 'd) state_db \<Rightarrow> address \<Rightarrow> int \<Rightarrow> ('t, 'd) state_db" where
  "SubBalance b s addr amount =
     (case GetOrNewStateObject b s addr of (so, s) \<Rightarrow> so_SubBalance s so amount)"

definition SetBalance :: "('t, 'd) Backend \<Rightarrow> ('t, 'd) state_db \<Rightarrow> address \<Rightarrow> int \<Rightarrow> ('t, 'd) state_db" where
  "SetBalance b s addr amount =
     (case GetOrNewStateObject b s addr of (so, s) \<Rightarrow> so_SetBalance s so amount)"

definition SetNonce :: "('t, 'd) Backend \<Rightarrow> ('t, 'd) state_db \<Rightarrow> address \<Rightarrow> u64 \<Rightarrow> ('t, 'd) state_db" where
  "SetNonce b s addr nonce =
     (case GetOrNewStateObject b s addr of (so, s) \<Rightarrow> so_SetNonce s so nonce)"

definition SetCode :: "('t, 'd) Backend \<Rightarrow> ('t, 'd) state_db \<Rightarrow> address \<Rightarrow> bytes \<Rightarrow> ('t, 'd) state_db" where
  "SetCode b s addr code =
     (case GetOrNewStateObject b s addr of (so, s) \<Rightarrow>
        so_SetCode b s so (BytesToHash (b_Keccak256 b code)) code)"

definition SetState ::
  "('t, 'd) Backend \<Rightarrow> ('t, 'd) state_db \<Rightarrow> address \<Rightarrow> hash \<Rightarrow> hash \<Rightarrow> ('t, 'd) state_db" where
  "SetState b s addr key value =
     (case GetOrNewStateObject b s addr of (so, s) \<Rightarrow> so_SetState b s so key value)"

definition Suicide :: "('t, 'd) Backend \<Rightarrow> ('t, 'd) state_db \<Rightarrow> address \<Rightarrow> bool \<times> ('t, 'd) state_db" where
  "Suicide b s addr =
     (case GetStateObject b s addr of
        (None, s) \<Rightarrow> (False, s)
      | (Some so, s) \<Rightarrow>
          (let s = journal_add s (suicideChange addr (so_suicided so) (acc_Balance (so_data so)));
               s = markSuicided s so
           in case sd_stateObjects s addr of
                None \<Rightarrow> (True, s)
              | Some so \<Rightarrow> (True, setStateObject s (so\<lparr>so_data := (so_data so)\<lparr>acc_Balance := 0\<rparr>\<rparr>))))"

definition CreateAccount :: "('t, 'd) Backend \<Rightarrow> ('t, 'd) state_db \<Rightarrow> address \<Rightarrow> ('t, 'd) state_db" where
  "CreateAccount b s addr =
     (case createObject b s addr of
        ((n, None), s) \<Rightarrow> s
      | ((n, Some prev), s) \<Rightarrow> so_setBalance s n (acc_Balance (so_data prev)))"

definition AddRefund :: "('t, 'd) state_db \<Rightarrow> int \<Rightarrow> ('t, 'd) state_db" where
  "AddRefund s gas = (journal_add s (refundChange (sd_refund s)))\<lparr>sd_refund := sd_refund s + gas\<rparr>"

definition StartRecord :: "('t, 'd) state_db \<Rightarrow> hash \<Rightarrow> hash \<Rightarrow> int \<Rightarrow> ('t, 'd) state_db" where
  "StartRecord s thash bhash ti = s\<lparr>sd_thash := thash, sd_bhash := bhash, sd_txIndex := ti\<rparr>"

definition AddLog :: "('t, 'd) state_db \<Rightarrow> Log \<Rightarrow> ('t, 'd) state_db" where
  "AddLog s l =
     (let s = journal_add s (addLogChange (sd_thash s));
          l = \<lparr>l_Address = l_Address l, l_Topics = l_Topics l, l_Data = l_Data l, l_BlockNumber = l_BlockNumber l,
               l_TxHash = sd_thash s, l_BlockHash = sd_bhash s, l_TxIndex = sd_txIndex s, l_Index = sd_logSize s\<rparr>;
          logs = (case sd_logs s (sd_thash s) of None \<Rightarrow> [] | Some ls \<Rightarrow> ls)
      in s\<lparr>sd_logs := (sd_logs s)(sd_thash s \<mapsto> logs @ [l]), sd_logSize := sd_logSize s + 1\<rparr>)"

definition GetLogs :: "('t, 'd) state_db \<Rightarrow> hash \<Rightarrow> StoredLog list" where
  "GetLogs s h = (case sd_logs s h of None \<Rightarrow> [] | Some ls \<Rightarrow> ls)"

section \<open>Snapshots\<close>

definition ripemd :: address where
  "ripemd = replicate 19 0 @ [3]"

text \<open>Undoing a change of an account that is not there dereferences nil.\<close>

definition with_object ::
  "('t, 'd) Backend \<Rightarrow> ('t, 'd) state_db \<Rightarrow> address \<Rightarrow> (('t, 'd) state_db \<Rightarrow> 't StateObject \<Rightarrow> ('t, 'd) state_db) \<Rightarrow>
   ('t, 'd) state_db exec" where
  "with_object b s addr f =
     (case GetStateObject b s addr of (None, _) \<Rightarrow> Panicked | (Some so, s) \<Rightarrow> Ret (f s so))"

definition drop_object :: "('t, 'd) state_db \<Rightarrow> address \<Rightarrow> ('t, 'd) state_db" where
  "drop_object s addr =
     s\<lparr>sd_stateObjects := (sd_stateObjects s)(addr := None), sd_dirty := (sd_dirty s)(addr := False)\<rparr>"

fun undo :: "('t, 'd) Backend \<Rightarrow> 't journalEntry \<Rightarrow> ('t, 'd) state_db \<Rightarrow> ('t, 'd) state_db exec" where
  "undo b (createObjectChange a) s = Ret (drop_object s a)"
| "undo b (resetObjectChange prev) s = Ret (setStateObject s prev)"
| "undo b (suicideChange a prev prevbalance) s =
     (case GetStateObject b s a of
        (None, s) \<Rightarrow> Ret s
      | (Some so, s) \<Rightarrow> Ret (so_setBalance s (so\<lparr>so_suicided := prev\<rparr>) prevbalance))"
| "undo b (touchChange a prev) s = Ret (if \<not> prev \<and> a \<noteq> ripemd then drop_object s a else s)"
| "undo b (balanceChange a prev) s = with_object b s a (\<lambda>s so. so_setBalance s so prev)"
| "undo b (nonceChange a prev) s = with_object b s a (\<lambda>s so. so_setNonce s so prev)"
| "undo b (codeChange a prevcode prevhash) s =
     with_object b s a (\<lambda>s so. so_setCode s so (BytesToHash prevhash) prevcode)"
| "undo b (storageChange a key prevalue) s = with_object b s a (\<lambda>s so. so_setState s so key prevalue)"
| "undo b (refundChange prev) s = Ret (s\<lparr>sd_refund := prev\<rparr>)"
| "undo b (addLogChange h) s =
     (let logs = GetLogs s h in
      if length logs = 1 then Ret (s\<lparr>sd_logs := (sd_logs s)(h := None)\<rparr>)
      else if logs = [] then Panicked
      else Ret (s\<lparr>sd_logs := (sd_logs s)(h \<mapsto> butlast logs)\<rparr>))"

fun undo_all :: "('t, 'd) Backend \<Rightarrow> 't journalEntry list \<Rightarrow> ('t, 'd) state_db \<Rightarrow> ('t, 'd) state_db exec" where
  "undo_all b [] s = Ret s"
| "undo_all b (e # es) s = exec_bind (undo b e s) (undo_all b es)"

definition Snapshot :: "('t, 'd) state_db \<Rightarrow> nat \<times> ('t, 'd) state_db" where
  "Snapshot s =
     (sd_nextRevisionId s,
      s\<lparr>sd_nextRevisionId := sd_nextRevisionId s + 1,
        sd_validRevisions := \<lparr>rev_id = sd_nextRevisionId s, journalIndex = length (sd_journal s)\<rparr> # sd_validRevisions s\<rparr>)"

definition RevertToSnapshot :: "('t, 'd) Backend \<Rightarrow> ('t, 'd) state_db \<Rightarrow> nat \<Rightarrow> ('t, 'd) state_db exec" where
  "RevertToSnapshot b s revid =
     (case dropWhile (\<lambda>r. rev_id r > revid) (sd_validRevisions s) of
        [] \<Rightarrow> Panicked
      | r # rest \<Rightarrow>
          (if rev_id r \<noteq> revid then Panicked
           else
             (let n = length (sd_journal s) - journalIndex r in
              exec_bind (undo_all b (take n (sd_journal s)) s)
                (\<lambda>s. Ret (s\<lparr>sd_journal := drop n (sd_journal s), sd_validRevisions := rest\<rparr>)))))"

section \<open>The database as the state of the machine\<close>

definition state_ops :: "('t, 'd) Backend \<Rightarrow> ('t, 'd) state_db StateDB" where
  "state_ops b =
     \<lparr>sdb_CreateAccount = CreateAccount b, sdb_SubBalance = SubBalance b, sdb_AddBalance = AddBalance b,
      sdb_GetBalance = (\<lambda>s a. fst (GetBalance b s a)), sdb_GetNonce = (\<lambda>s a. fst (GetNonce b s a)),
      sdb_SetNonce = SetNonce b, sdb_GetCodeHash = (\<lambda>s a. fst (GetCodeHash b s a)),
      sdb_GetCode = (\<lambda>s a. fst (GetCode b s a)), sdb_SetCode = SetCode b,
      sdb_GetCodeSize = (\<lambda>s a. fst (GetCodeSize b s a)), sdb_AddRefund = AddRefund, sdb_GetRefund = sd_refund,
      sdb_GetState = (\<lambda>s a k. fst (GetState b s a k)), sdb_SetState = SetState b,
      sdb_Suicide = (\<lambda>s a. snd (Suicide b s a)), sdb_HasSuicided = (\<lambda>s a. fst (HasSuicided b s a)),
      sdb_Exist = (\<lambda>s a. fst (Exist b s a)), sdb_Empty = (\<lambda>s a. fst (Empty b s a)),
      sdb_RevertToSnapshot = RevertToSnapshot b, sdb_Snapshot = Snapshot, sdb_AddLog = AddLog\<rparr>"

end
