(* ===== verification/State_View.thy ===== *)
theory State_View
  imports State_DB
begin

text \<open>
  The view of the state database: what its users can read of every account, the refund and the logs.
  Every operation is described by its effect on the view and by the journal entries it adds, and undoing
  an entry is an operation on views. The view leaves out which objects are live, which are dirty, and
  what has been cached.
\<close>

section \<open>Views\<close>

record acct =
  a_nonce :: u64
  a_balance :: int
  a_codehash :: bytes
  a_code :: "bytes option"
  a_storage :: "hash \<Rightarrow> hash"
  a_suicided :: bool
  a_touched :: bool

record aview =
  v_acct :: "address \<Rightarrow> acct option"
  v_refund :: int
  v_logs :: "hash \<Rightarrow> StoredLog list"

text \<open>The account of \<open>ripemd\<close> counts as touched, since its touch is never undone.\<close>

definition acct_of :: "('t, 'd) Backend \<Rightarrow> 'd \<Rightarrow> 't StateObject \<Rightarrow> acct" where
  "acct_of b d so =
     \<lparr>a_nonce = acc_Nonce (so_data so), a_balance = acc_Balance (so_data so), a_codehash = acc_CodeHash (so_data so),
      a_code = fst (so_Code b d so), a_storage = (\<lambda>k. fst (so_GetState b d so k)), a_suicided = so_suicided so,
      a_touched = (so_touched so \<or> so_address so = ripemd)\<rparr>"

definition load :: "('t, 'd) Backend \<Rightarrow> 't \<Rightarrow> address \<Rightarrow> 't StateObject option" where
  "load b t a =
     (let enc = b_Get b t a in
      if length enc = 0 then None
      else map_option (\<lambda>(nonce, balance, root, codehash). newObject b a nonce (Some balance) root (Some codehash))
        (decodeAccount enc))"

definition base :: "('t, 'd) Backend \<Rightarrow> ('t, 'd) state_db \<Rightarrow> address \<Rightarrow> acct option" where
  "base b s a = map_option (acct_of b (sd_db s)) (load b (sd_trie s) a)"

definition view :: "('t, 'd) Backend \<Rightarrow> ('t, 'd) state_db \<Rightarrow> aview" where
  "view b s =
     \<lparr>v_acct = (\<lambda>a. map_option (acct_of b (sd_db s)) (fst (GetStateObject b s a))),
      v_refund = sd_refund s, v_logs = GetLogs s\<rparr>"

text \<open>Live objects are entered under their address, and a deleted one is not in the trie.\<close>

definition wf_objects :: "('t, 'd) Backend \<Rightarrow> ('t, 'd) state_db \<Rightarrow> bool" where
  "wf_objects b s \<longleftrightarrow>
     (\<forall>a so. sd_stateObjects s a = Some so \<longrightarrow>
        so_address so = a \<and> (so_deleted so \<longrightarrow> load b (sd_trie s) a = None))"

section \<open>Objects\<close>

text \<open>What \<open>GetState\<close> and \<open>Code\<close> return, apart from what they cache in the object.\<close>

definition trie_value :: "('t, 'd) Backend \<Rightarrow> 't \<Rightarrow> hash \<Rightarrow> hash" where
  "trie_value b t k =
     (let enc = b_Get b t k in
      if length enc > 0 then (case Split enc of Inl _ \<Rightarrow> zero_hash | Inr (_, content, _) \<Rightarrow> BytesToHash content)
      else zero_hash)"

definition open_trie :: "('t, 'd) Backend \<Rightarrow> 'd \<Rightarrow> 't option \<Rightarrow> hash \<Rightarrow> 't" where
  "open_trie b d t root =
     (case t of
        Some t \<Rightarrow> t
      | None \<Rightarrow> (case b_NewSecure b root d of Some t \<Rightarrow> t | None \<Rightarrow> b_emptyTrie b d))"

definition read_slot :: "('t, 'd) Backend \<Rightarrow> Storage \<Rightarrow> 't \<Rightarrow> hash \<Rightarrow> hash" where
  "read_slot b cached t k = (case cached k of Some v \<Rightarrow> v | None \<Rightarrow> trie_value b t k)"

definition reload :: "('t, 'd) Backend \<Rightarrow> 'd \<Rightarrow> bytes \<Rightarrow> bytes option \<Rightarrow> bytes option" where
  "reload b d h c =
     (case c of Some x \<Rightarrow> Some x | None \<Rightarrow> if h = emptyCodeHash b then None else b_dbGet b d h)"

abbreviation obj_trie :: "('t, 'd) Backend \<Rightarrow> 'd \<Rightarrow> 't StateObject \<Rightarrow> 't" where
  "obj_trie b d so \<equiv> open_trie b d (so_trie so) (acc_Root (so_data so))"

lemma fst_so_GetState: "fst (so_GetState b d so k) = read_slot b (so_cachedStorage so) (obj_trie b d so) k"
  by (auto simp: so_GetState_def getTrie_def open_trie_def read_slot_def trie_value_def Let_def
      split: option.splits sum.splits prod.splits)

lemma fst_so_Code: "fst (so_Code b d so) = reload b d (acc_CodeHash (so_data so)) (so_code so)"
  by (auto simp: so_Code_def reload_def split: option.splits)

lemmas acct_simps = acct_of_def fst_so_GetState fst_so_Code

lemma acct_of_cong:
  assumes "so_data so' = so_data so" "so_suicided so' = so_suicided so" "so_touched so' = so_touched so"
    "so_address so' = so_address so" "fst (so_Code b d so') = fst (so_Code b d so)"
    "\<And>k. fst (so_GetState b d so' k) = fst (so_GetState b d so k)"
  shows "acct_of b d so' = acct_of b d so"
  using assms by (simp add: acct_of_def)

lemma snd_getTrie:
  assumes "getTrie b d so = (t, so')"
  shows "so' = so\<lparr>so_trie := so_trie so', so_dbErr := so_dbErr so'\<rparr>" "t = obj_trie b d so"
    "obj_trie b d so' = obj_trie b d so"
  using assms by (auto simp: getTrie_def open_trie_def setError_def split: option.splits)

lemma snd_so_GetState:
  assumes "so_GetState b d so k = (v, so')"
  obtains tr e cs where "so' = so\<lparr>so_trie := tr, so_dbErr := e, so_cachedStorage := cs\<rparr>"
    "\<And>x. fst (so_GetState b d so' x) = fst (so_GetState b d so x)"
proof (cases "so_cachedStorage so k")
  case (Some w)
  then have "so' = so" using assms by (simp add: so_GetState_def)
  then show ?thesis using that [where tr = "so_trie so" and e = "so_dbErr so" and cs = "so_cachedStorage so"] by simp
next
  case None
  obtain t so1 where t: "getTrie b d so = (t, so1)" by fastforce
  obtain tr e where so1: "so1 = so\<lparr>so_trie := tr, so_dbErr := e\<rparr>" "t = obj_trie b d so" "obj_trie b d so1 = obj_trie b d so"
    using snd_getTrie [OF t] by blast
  have v: "v = trie_value b (obj_trie b d so) k" using assms None fst_so_GetState [of b d so k] by (simp add: read_slot_def)
  obtain e' where so': "so' = (if v \<noteq> zero_hash then so1\<lparr>so_dbErr := e', so_cachedStorage := (so_cachedStorage so)(k \<mapsto> v)\<rparr>
      else so1\<lparr>so_dbErr := e'\<rparr>)"
  proof (cases "length (b_Get b t k) > 0 \<and> (\<exists>x. Split (b_Get b t k) = Inl x)")
    case True
    then show ?thesis using assms None t so1(1) that [where e' = True]
      by (auto simp: so_GetState_def Let_def setError_def)
  next
    case False
    then show ?thesis using assms None t so1(1) that [where e' = e]
      by (auto simp: so_GetState_def Let_def split: sum.splits if_splits)
  qed
  have "obj_trie b d so' = obj_trie b d so" using so1(3) by (auto simp: so')
  moreover have "so_cachedStorage so' = (if v \<noteq> zero_hash then (so_cachedStorage so)(k \<mapsto> v) else so_cachedStorage so)"
    by (simp add: so' so1(1))
  ultimately have "fst (so_GetState b d so' x) = fst (so_GetState b d so x)" for x
    using None v by (simp add: fst_so_GetState read_slot_def)
  moreover have "so' = so\<lparr>so_trie := tr, so_dbErr := e', so_cachedStorage :=
      (if v \<noteq> zero_hash then (so_cachedStorage so)(k \<mapsto> v) else so_cachedStorage so)\<rparr>"
    by (simp add: so' so1(1))
  ultimately show ?thesis using that by blast
qed

lemma snd_so_Code:
  assumes "so_Code b d so = (c, so')"
  obtains e co where "so' = so\<lparr>so_dbErr := e, so_code := co\<rparr>" "fst (so_Code b d so') = fst (so_Code b d so)"
proof (cases "so_code so")
  case (Some x)
  then show ?thesis using assms that [where e = "so_dbErr so" and co = "so_code so"] by (simp add: so_Code_def)
next
  case None
  show ?thesis
  proof (cases "acc_CodeHash (so_data so) = emptyCodeHash b")
    case True
    then show ?thesis using assms None that [where e = "so_dbErr so" and co = None] by (simp add: so_Code_def)
  next
    case False
    then show ?thesis
      using assms None that [where e = True and co = None] that [where e = "so_dbErr so" and co = "b_dbGet b d (acc_CodeHash (so_data so))"]
      by (auto simp: so_Code_def setError_def split: option.splits)
  qed
qed

lemma newObject_sel [simp]:
  "so_address (newObject b a n x r c) = a" "so_deleted (newObject b a n x r c) = False"
  "so_onDirty (newObject b a n x r c) = True"
  by (simp_all add: newObject_def)

lemma GetStateObject_load:
  "GetStateObject b s a =
     (case sd_stateObjects s a of
        Some ob \<Rightarrow> (if so_deleted ob then None else Some ob, s)
      | None \<Rightarrow> (case load b (sd_trie s) a of None \<Rightarrow> (None, s) | Some ob \<Rightarrow> (Some ob, setStateObject s ob)))"
  by (auto simp: GetStateObject_def load_def Let_def split: option.splits)

definition live :: "('t, 'd) Backend \<Rightarrow> 't \<Rightarrow> (address \<Rightarrow> 't StateObject option) \<Rightarrow> address \<Rightarrow> 't StateObject option" where
  "live b t obs a =
     (case obs a of
        Some ob \<Rightarrow> (if so_deleted ob then None else Some ob)
      | None \<Rightarrow> load b t a)"

lemma fst_GetStateObject: "fst (GetStateObject b s a) = live b (sd_trie s) (sd_stateObjects s) a"
  by (auto simp: GetStateObject_load live_def split: option.splits)

lemma live_update: "live b t (obs(a := x)) =
    (live b t obs)(a := (case x of Some ob \<Rightarrow> if so_deleted ob then None else Some ob | None \<Rightarrow> load b t a))"
  by (simp add: live_def fun_eq_iff)

lemma GetLogs_cong: "sd_logs s = sd_logs s' \<Longrightarrow> GetLogs s = GetLogs s'"
  by (simp add: GetLogs_def fun_eq_iff)

lemma view_alt:
  "view b s =
     \<lparr>v_acct = (\<lambda>a. map_option (acct_of b (sd_db s)) (live b (sd_trie s) (sd_stateObjects s) a)),
      v_refund = sd_refund s, v_logs = (\<lambda>h. case_option [] (\<lambda>x. x) (sd_logs s h))\<rparr>"
  by (simp add: view_def fst_GetStateObject GetLogs_def fun_eq_iff)

lemma load_sel: "load b t a = Some ob \<Longrightarrow> so_address ob = a \<and> \<not> so_deleted ob"
  by (auto simp: load_def Let_def split: if_splits)

lemma setStateObject_sel [simp]:
  "sd_db (setStateObject s ob) = sd_db s" "sd_trie (setStateObject s ob) = sd_trie s"
  "sd_stateObjects (setStateObject s ob) = (sd_stateObjects s)(so_address ob \<mapsto> ob)"
  "sd_refund (setStateObject s ob) = sd_refund s" "sd_logs (setStateObject s ob) = sd_logs s"
  "sd_journal (setStateObject s ob) = sd_journal s" "sd_validRevisions (setStateObject s ob) = sd_validRevisions s"
  "sd_nextRevisionId (setStateObject s ob) = sd_nextRevisionId s" "sd_dirty (setStateObject s ob) = sd_dirty s"
  by (simp_all add: setStateObject_def)

text \<open>Two states that differ only in what the view and the journal do not show.\<close>

definition frame_of :: "('t, 'd) state_db \<Rightarrow> 'd \<times> 't \<times> 't journalEntry list \<times> revision list \<times> nat" where
  "frame_of s = (sd_db s, sd_trie s, sd_journal s, sd_validRevisions s, sd_nextRevisionId s)"

lemma GetStateObject_cases:
  assumes "GetStateObject b s a = (r, s')"
  obtains "s' = s" "r = live b (sd_trie s) (sd_stateObjects s) a" "r = None \<or> sd_stateObjects s a = r"
  | ob where "sd_stateObjects s a = None" "load b (sd_trie s) a = Some ob" "r = Some ob" "s' = setStateObject s ob"
      "so_address ob = a" "\<not> so_deleted ob"
  using assms load_sel [of b "sd_trie s" a]
  by (auto simp: GetStateObject_load live_def split: option.splits)

lemma GetStateObject_view:
  assumes "wf_objects b s" "GetStateObject b s a = (r, s')"
  shows "view b s' = view b s" "frame_of s' = frame_of s" "wf_objects b s'"
    and "map_option (acct_of b (sd_db s)) r = v_acct (view b s) a"
    and "r = Some ob \<Longrightarrow> sd_stateObjects s' a = Some ob \<and> so_address ob = a \<and> \<not> so_deleted ob"
proof -
  show "map_option (acct_of b (sd_db s)) r = v_acct (view b s) a" using assms by (simp add: view_def)
  from assms(2) show "view b s' = view b s"
  proof (cases rule: GetStateObject_cases)
    case (2 ob)
    then have "live b (sd_trie s) ((sd_stateObjects s)(a \<mapsto> ob)) = live b (sd_trie s) (sd_stateObjects s)"
      by (auto simp: live_def fun_eq_iff)
    then show ?thesis using 2 by (simp add: view_alt)
  qed simp
  show "frame_of s' = frame_of s"
    using assms(2) by (cases rule: GetStateObject_cases) (simp_all add: frame_of_def)
  show "wf_objects b s'"
    using assms(2) by (cases rule: GetStateObject_cases) (use assms(1) in \<open>simp_all add: wf_objects_def\<close>)
  show "r = Some ob \<Longrightarrow> sd_stateObjects s' a = Some ob \<and> so_address ob = a \<and> \<not> so_deleted ob"
    using assms(2)
    by (cases rule: GetStateObject_cases) (use assms(1) in \<open>auto simp: wf_objects_def live_def split: if_splits\<close>)
qed

lemma acct_of_onDirty [simp]: "acct_of b d (so\<lparr>so_onDirty := x\<rparr>) = acct_of b d so"
  by (simp add: acct_simps)

text \<open>Putting an object back changes the view of its account only.\<close>

lemma setStateObject_view:
  assumes "wf_objects b s" "\<not> so_deleted so"
  shows "view b (setStateObject s so) = (view b s)\<lparr>v_acct := (v_acct (view b s))(so_address so \<mapsto> acct_of b (sd_db s) so)\<rparr>"
    "wf_objects b (setStateObject s so)" "frame_of (setStateObject s so) = frame_of s"
  using assms
  by (auto simp: view_alt live_update wf_objects_def frame_of_def fun_eq_iff)

lemma dirtied_view:
  assumes "wf_objects b s" "\<not> so_deleted so"
  shows "view b (dirtied s so) = (view b s)\<lparr>v_acct := (v_acct (view b s))(so_address so \<mapsto> acct_of b (sd_db s) so)\<rparr>"
    "wf_objects b (dirtied s so)" "frame_of (dirtied s so) = frame_of s"
proof -
  have m: "view b (MarkStateObjectDirty s a) = view b s" "wf_objects b (MarkStateObjectDirty s a) = wf_objects b s"
    "frame_of (MarkStateObjectDirty s a) = frame_of s" "sd_db (MarkStateObjectDirty s a) = sd_db s" for a
    by (simp_all add: MarkStateObjectDirty_def view_alt wf_objects_def frame_of_def)
  show "view b (dirtied s so) = (view b s)\<lparr>v_acct := (v_acct (view b s))(so_address so \<mapsto> acct_of b (sd_db s) so)\<rparr>"
    "wf_objects b (dirtied s so)" "frame_of (dirtied s so) = frame_of s"
    using assms setStateObject_view [of b s so]
      setStateObject_view [of b "MarkStateObjectDirty s (so_address so)" "so\<lparr>so_onDirty := False\<rparr>"] m
    by (simp_all add: dirtied_def)
qed

end
