(* ===== verification/State_Undo.thy ===== *)
theory State_Undo
  imports State_View
begin

text \<open>
  Undoing journal entries, seen on views. \<open>aundo\<close> is the effect of an entry on a view; the undo
  functions of the journal implement it, and where it is not defined they dereference nil.
\<close>

section \<open>Undoing on views\<close>

definition set_acct :: "address \<Rightarrow> acct option \<Rightarrow> aview \<Rightarrow> aview" where
  "set_acct a x v = v\<lparr>v_acct := (v_acct v)(a := x)\<rparr>"

lemma set_acct_sel [simp]:
  "v_acct (set_acct a x v) = (v_acct v)(a := x)" "v_refund (set_acct a x v) = v_refund v"
  "v_logs (set_acct a x v) = v_logs v" "set_acct a x (set_acct a y v) = set_acct a x v"
  "v_acct v a = x \<Longrightarrow> set_acct a x v = v"
  by (auto simp: set_acct_def)

definition change_acct :: "address \<Rightarrow> (acct \<Rightarrow> acct) \<Rightarrow> aview \<Rightarrow> aview option" where
  "change_acct a f v = map_option (\<lambda>x. set_acct a (Some (f x)) v) (v_acct v a)"

fun aundo :: "('t, 'd) Backend \<Rightarrow> 'd \<Rightarrow> (address \<Rightarrow> acct option) \<Rightarrow> 't journalEntry \<Rightarrow> aview \<Rightarrow> aview option" where
  "aundo b d old (createObjectChange a) v = Some (set_acct a (old a) v)"
| "aundo b d old (resetObjectChange prev) v = Some (set_acct (so_address prev) (Some (acct_of b d prev)) v)"
| "aundo b d old (suicideChange a prev prevbalance) v =
     (case v_acct v a of
        None \<Rightarrow> Some v
      | Some x \<Rightarrow> Some (set_acct a (Some (x\<lparr>a_suicided := prev, a_balance := prevbalance\<rparr>)) v))"
| "aundo b d old (touchChange a prev) v = Some (if \<not> prev \<and> a \<noteq> ripemd then set_acct a (old a) v else v)"
| "aundo b d old (balanceChange a prev) v = change_acct a (\<lambda>x. x\<lparr>a_balance := prev\<rparr>) v"
| "aundo b d old (nonceChange a prev) v = change_acct a (\<lambda>x. x\<lparr>a_nonce := prev\<rparr>) v"
| "aundo b d old (codeChange a prevcode prevhash) v =
     change_acct a (\<lambda>x. x\<lparr>a_codehash := BytesToHash prevhash,
       a_code := reload b d (BytesToHash prevhash) prevcode\<rparr>) v"
| "aundo b d old (storageChange a key prevalue) v =
     change_acct a (\<lambda>x. x\<lparr>a_storage := (a_storage x)(key := prevalue)\<rparr>) v"
| "aundo b d old (refundChange prev) v = Some (v\<lparr>v_refund := prev\<rparr>)"
| "aundo b d old (addLogChange h) v =
     (if v_logs v h = [] then None else Some (v\<lparr>v_logs := (v_logs v)(h := butlast (v_logs v h))\<rparr>))"

fun areplay :: "('t, 'd) Backend \<Rightarrow> 'd \<Rightarrow> (address \<Rightarrow> acct option) \<Rightarrow> 't journalEntry list \<Rightarrow> aview \<Rightarrow> aview option" where
  "areplay b d old [] v = Some v"
| "areplay b d old (e # es) v = Option.bind (aundo b d old e v) (areplay b d old es)"

lemma areplay_append: "areplay b d old (es @ es') v = Option.bind (areplay b d old es v) (areplay b d old es')"
  by (induction es arbitrary: v) (auto split: Option.bind_splits)

text \<open>An object that was replaced was not deleted.\<close>

fun entry_ok :: "'t journalEntry \<Rightarrow> bool" where
  "entry_ok (resetObjectChange prev) = (\<not> so_deleted prev)"
| "entry_ok _ = True"

section \<open>Accounts after a change of the object\<close>

lemma acct_of_nonce: "acct_of b d (so\<lparr>so_data := (so_data so)\<lparr>acc_Nonce := n\<rparr>\<rparr>) = (acct_of b d so)\<lparr>a_nonce := n\<rparr>"
  by (simp add: acct_simps)

lemma acct_of_balance: "acct_of b d (so\<lparr>so_data := (so_data so)\<lparr>acc_Balance := n\<rparr>\<rparr>) = (acct_of b d so)\<lparr>a_balance := n\<rparr>"
  by (simp add: acct_simps)

lemma acct_of_suicided: "acct_of b d (so\<lparr>so_suicided := x\<rparr>) = (acct_of b d so)\<lparr>a_suicided := x\<rparr>"
  by (simp add: acct_simps)

lemma acct_of_touched: "acct_of b d (so\<lparr>so_touched := True\<rparr>) = (acct_of b d so)\<lparr>a_touched := True\<rparr>"
  by (simp add: acct_simps)

lemma acct_of_storage:
  "acct_of b d (so\<lparr>so_cachedStorage := (so_cachedStorage so)(k \<mapsto> x), so_dirtyStorage := y\<rparr>) =
     (acct_of b d so)\<lparr>a_storage := (a_storage (acct_of b d so))(k := x)\<rparr>"
  by (auto simp: acct_simps read_slot_def)

lemma acct_of_code:
  "acct_of b d (so\<lparr>so_code := c, so_data := (so_data so)\<lparr>acc_CodeHash := h\<rparr>, so_dirtyCode := y\<rparr>) =
     (acct_of b d so)\<lparr>a_codehash := h, a_code := reload b d h c\<rparr>"
  by (simp add: acct_simps)

lemmas acct_of_changes = acct_of_nonce acct_of_balance acct_of_suicided acct_of_touched acct_of_storage acct_of_code

section \<open>Steps\<close>

text \<open>
  A step that leads to the view \<open>v\<close> and adds the entries \<open>es\<close> to the journal. It keeps the tries, the
  store and the revisions.
\<close>

definition becomes ::
  "('t, 'd) Backend \<Rightarrow> ('t, 'd) state_db \<Rightarrow> 't journalEntry list \<Rightarrow> aview \<Rightarrow> ('t, 'd) state_db \<Rightarrow> bool" where
  "becomes b s es v s' \<longleftrightarrow>
     wf_objects b s' \<and> view b s' = v \<and> list_all entry_ok es \<and>
     frame_of s' = (sd_db s, sd_trie s, es @ sd_journal s, sd_validRevisions s, sd_nextRevisionId s)"

lemma becomes_refl: "wf_objects b s \<Longrightarrow> becomes b s [] (view b s) s"
  by (simp add: becomes_def frame_of_def)

lemma becomes_trans: "becomes b s es v s' \<Longrightarrow> becomes b s' es' v' s'' \<Longrightarrow> becomes b s (es' @ es) v' s''"
  by (simp add: becomes_def frame_of_def)

lemma becomesD:
  assumes "becomes b s es v s'"
  shows "wf_objects b s'" "view b s' = v" "sd_db s' = sd_db s" "sd_trie s' = sd_trie s" "base b s' = base b s"
  using assms by (simp_all add: becomes_def frame_of_def base_def fun_eq_iff)

lemma becomes_get:
  assumes "wf_objects b s" "GetStateObject b s a = (r, s')"
  shows "becomes b s [] (view b s) s'"
  using GetStateObject_view [OF assms] by (simp add: becomes_def frame_of_def)

lemma view_journal_add [simp]: "view b (journal_add s e) = view b s" "wf_objects b (journal_add s e) = wf_objects b s"
  by (simp_all add: journal_add_def view_alt wf_objects_def)

lemma becomes_add: "wf_objects b s \<Longrightarrow> entry_ok e \<Longrightarrow> becomes b s [e] (view b s) (journal_add s e)"
  by (simp add: becomes_def) (simp add: frame_of_def journal_add_def)

lemma becomes_put:
  assumes "wf_objects b s" "\<not> so_deleted so"
  shows "becomes b s [] (set_acct (so_address so) (Some (acct_of b (sd_db s) so)) (view b s)) (setStateObject s so)"
    "becomes b s [] (set_acct (so_address so) (Some (acct_of b (sd_db s) so)) (view b s)) (dirtied s so)"
  using setStateObject_view [OF assms] dirtied_view [OF assms] by (simp_all add: becomes_def set_acct_def frame_of_def)

lemma becomes_drop:
  assumes "wf_objects b s"
  shows "becomes b s [] (set_acct a (base b s a) (view b s)) (drop_object s a)"
  using assms by (auto simp: becomes_def drop_object_def view_alt live_update wf_objects_def frame_of_def
      set_acct_def base_def fun_eq_iff)

text \<open>Changing the object that \<open>GetStateObject\<close> returned.\<close>

lemma becomes_change:
  assumes "wf_objects b s" "GetStateObject b s a = (Some so, s1)"
    "so_address so' = so_address so" "so_deleted so' = so_deleted so" "acct_of b (sd_db s) so' = f (acct_of b (sd_db s) so)"
  shows "becomes b s [] (the (change_acct a f (view b s))) (dirtied s1 so')" "change_acct a f (view b s) \<noteq> None"
proof -
  have so: "so_address so = a" "\<not> so_deleted so" "v_acct (view b s) a = Some (acct_of b (sd_db s) so)"
    using GetStateObject_view(4,5) [OF assms(1,2)] by auto
  then show "change_acct a f (view b s) \<noteq> None" by (simp add: change_acct_def)
  have "becomes b s1 [] (set_acct a (Some (f (acct_of b (sd_db s) so))) (view b s)) (dirtied s1 so')"
    using becomes_put(2) [of b s1 so'] becomesD [OF becomes_get [OF assms(1,2)]] assms so by simp
  then show "becomes b s [] (the (change_acct a f (view b s))) (dirtied s1 so')"
    using becomes_trans [OF becomes_get [OF assms(1,2)]] so by (simp add: change_acct_def)
qed

section \<open>The journal implements undoing on views\<close>

definition undone ::
  "('t, 'd) Backend \<Rightarrow> ('t, 'd) state_db \<Rightarrow> aview option \<Rightarrow> ('t, 'd) state_db exec \<Rightarrow> bool" where
  "undone b s av r \<longleftrightarrow>
     (case av of None \<Rightarrow> r = Panicked | Some v \<Rightarrow> \<exists>s'. r = Ret s' \<and> becomes b s [] v s')"

lemma undone_Some [simp]: "undone b s (Some v) (Ret s') = becomes b s [] v s'"
  by (simp add: undone_def)

lemma undone_with_object:
  assumes "wf_objects b s" "\<And>s so. upd s so = dirtied s (g so)"
    "\<And>so. so_address (g so) = so_address so \<and> so_deleted (g so) = so_deleted so \<and>
       acct_of b (sd_db s) (g so) = f (acct_of b (sd_db s) so)"
  shows "undone b s (change_acct a f (view b s)) (with_object b s a upd)"
proof -
  obtain r s1 where g: "GetStateObject b s a = (r, s1)" by fastforce
  show ?thesis
  proof (cases r)
    case None
    then have "change_acct a f (view b s) = None" using GetStateObject_view(4) [OF assms(1) g] by (simp add: change_acct_def)
    then show ?thesis using None g by (simp add: undone_def with_object_def)
  next
    case (Some so)
    then show ?thesis
      using becomes_change [OF assms(1), of a so s1 "g so" f] assms(2) assms(3) [of so] g
      by (auto simp: undone_def with_object_def)
  qed
qed

lemma undone_suicide:
  assumes "wf_objects b s"
  shows "undone b s (aundo b (sd_db s) old (suicideChange a prev prevbalance) (view b s))
    (undo b (suicideChange a prev prevbalance) s)"
proof -
  obtain r s1 where g: "GetStateObject b s a = (r, s1)" by fastforce
  show ?thesis
  proof (cases r)
    case None
    then show ?thesis using g GetStateObject_view(4) [OF assms g] becomes_get [OF assms g] by simp
  next
    case (Some so)
    have "becomes b s [] (the (change_acct a (\<lambda>x. x\<lparr>a_suicided := prev, a_balance := prevbalance\<rparr>) (view b s)))
       (so_setBalance s1 (so\<lparr>so_suicided := prev\<rparr>) prevbalance)"
      unfolding so_setBalance_def
      using g Some acct_of_balance [where so = "so\<lparr>so_suicided := prev\<rparr>" and n = prevbalance]
      by (intro becomes_change(1) [OF assms]) (simp_all add: acct_of_suicided)
    moreover have "v_acct (view b s) a = Some (acct_of b (sd_db s) so)"
      using GetStateObject_view(4) [OF assms g] Some by simp
    ultimately show ?thesis using g Some by (simp add: change_acct_def)
  qed
qed

lemma undone_log:
  assumes "wf_objects b s"
  shows "undone b s (aundo b (sd_db s) old (addLogChange h) (view b s)) (undo b (addLogChange h) s)"
  using assms
  by (auto simp: undone_def becomes_def view_alt wf_objects_def GetLogs_def frame_of_def fun_eq_iff Let_def
      length_Suc_conv split: option.splits)

lemma undo_aundo:
  assumes "wf_objects b s" "entry_ok e"
  shows "undone b s (aundo b (sd_db s) (base b s) e (view b s)) (undo b e s)"
proof (cases e)
  case (balanceChange a prev)
  then show ?thesis
    by (auto intro!: undone_with_object [OF assms(1) so_setBalance_def] simp: acct_of_changes)
next
  case (nonceChange a prev)
  then show ?thesis
    by (auto intro!: undone_with_object [OF assms(1) so_setNonce_def] simp: acct_of_changes)
next
  case (codeChange a prevcode prevhash)
  then show ?thesis
    by (auto intro!: undone_with_object [OF assms(1) so_setCode_def] simp: acct_of_changes)
next
  case (storageChange a key prevalue)
  then show ?thesis
    by (auto intro!: undone_with_object [OF assms(1) so_setState_def] simp: acct_of_changes)
next
  case (refundChange prev)
  then show ?thesis using assms by (simp add: becomes_def view_alt wf_objects_def frame_of_def)
qed (use assms in \<open>simp_all add: undone_suicide undone_log becomes_drop becomes_refl becomes_put(1) del: aundo.simps(3,10) undo.simps(3,10)\<close>)

lemma undo_all_areplay:
  assumes "wf_objects b s" "list_all entry_ok es"
  shows "undone b s (areplay b (sd_db s) (base b s) es (view b s)) (undo_all b es s)"
  using assms
proof (induction es arbitrary: s)
  case Nil
  then show ?case by (simp add: becomes_refl)
next
  case (Cons e es)
  have u: "undone b s (aundo b (sd_db s) (base b s) e (view b s)) (undo b e s)"
    using Cons.prems by (intro undo_aundo) simp_all
  show ?case
  proof (cases "aundo b (sd_db s) (base b s) e (view b s)")
    case None
    then show ?thesis using u by (simp add: undone_def)
  next
    case (Some v)
    then obtain s1 where s1: "undo b e s = Ret s1" "becomes b s [] v s1" using u by (auto simp: undone_def)
    note d = becomesD [OF s1(2)]
    have "undone b s1 (areplay b (sd_db s) (base b s) es v) (undo_all b es s1)"
      using Cons.IH [of s1] Cons.prems d by simp
    then show ?thesis using s1 Some becomes_trans [OF s1(2)]
      by (fastforce simp: undone_def split: option.splits)
  qed
qed

end
