(* ===== verification/State_Effects.thy ===== *)
theory State_Effects
  imports State_Undo
begin

text \<open>
  The effect of every operation of the database on the view, and that the journal entries it adds lead
  back to the view before it.
\<close>

section \<open>Objects that are created on demand\<close>

definition fresh_acct :: "('t, 'd) Backend \<Rightarrow> 'd \<Rightarrow> address \<Rightarrow> acct" where
  "fresh_acct b d a = acct_of b d (newObject b a 0 None zero_hash None)"

lemma fresh_acct_sel [simp]:
  "a_nonce (fresh_acct b d a) = 0" "a_balance (fresh_acct b d a) = 0" "a_codehash (fresh_acct b d a) = emptyCodeHash b"
  "a_code (fresh_acct b d a) = None" "a_suicided (fresh_acct b d a) = False"
  "a_touched (fresh_acct b d a) = (a = ripemd)"
  by (simp_all add: fresh_acct_def acct_simps reload_def newObject_def)

definition got :: "('t, 'd) Backend \<Rightarrow> ('t, 'd) state_db \<Rightarrow> address \<Rightarrow> acct" where
  "got b s a = (case v_acct (view b s) a of Some x \<Rightarrow> x | None \<Rightarrow> fresh_acct b (sd_db s) a)"

definition news :: "aview \<Rightarrow> address \<Rightarrow> 't journalEntry list" where
  "news v a = (if v_acct v a = None then [createObjectChange a] else [])"

lemma createObject_effect:
  assumes "wf_objects b s" "createObject b s a = ((n, prev), s')"
  shows "map_option (acct_of b (sd_db s)) prev = v_acct (view b s) a" "acct_of b (sd_db s) n = fresh_acct b (sd_db s) a"
    "so_address n = a" "\<not> so_deleted n" "\<not> so_onDirty n"
    "becomes b s [case prev of None \<Rightarrow> createObjectChange a | Some p \<Rightarrow> resetObjectChange p]
       (set_acct a (Some (fresh_acct b (sd_db s) a)) (view b s)) s'"
    "prev = Some p \<Longrightarrow> so_address p = a"
proof -
  obtain r s1 where g: "GetStateObject b s a = (r, s1)" by fastforce
  note v = GetStateObject_view [OF assms(1) g]
  define e where "e = (case prev of None \<Rightarrow> createObjectChange a | Some p \<Rightarrow> resetObjectChange p)"
  define n' :: "'a StateObject" where "n' = (newObject b a 0 None zero_hash None)\<lparr>so_onDirty := False\<rparr>"
  have eq: "prev = r" "n = n'" "s' = setStateObject (journal_add (MarkStateObjectDirty s1 a) e) n'"
    using assms(2) g by (auto simp: createObject_def Let_def n'_def e_def)
  show "map_option (acct_of b (sd_db s)) prev = v_acct (view b s) a" using v(4) eq by simp
  show "acct_of b (sd_db s) n = fresh_acct b (sd_db s) a" "so_address n = a" "\<not> so_deleted n" "\<not> so_onDirty n"
    by (simp_all add: eq n'_def fresh_acct_def)
  show "prev = Some p \<Longrightarrow> so_address p = a" using v(5) eq by simp
  have ok: "entry_ok e" using v(5) eq(1) by (auto simp: e_def split: option.splits)
  have m: "becomes b s1 [] (view b s1) (MarkStateObjectDirty s1 a)"
    using v(3) by (simp add: becomes_def MarkStateObjectDirty_def view_alt wf_objects_def frame_of_def)
  have add: "becomes b s [e] (view b s) (journal_add (MarkStateObjectDirty s1 a) e)"
    using becomes_trans [OF becomes_get [OF assms(1) g] becomes_trans [OF m becomes_add [OF _ ok]]] becomesD [OF m] v(1)
    by simp
  have "becomes b s [e] (set_acct a (Some (fresh_acct b (sd_db s) a)) (view b s)) s'"
    using becomes_trans [OF add becomes_put(1) [of _ _ n']] becomesD [OF add]
    by (simp add: eq(3)) (simp add: n'_def fresh_acct_def)
  then show "becomes b s [case prev of None \<Rightarrow> createObjectChange a | Some p \<Rightarrow> resetObjectChange p]
       (set_acct a (Some (fresh_acct b (sd_db s) a)) (view b s)) s'" by (simp add: e_def)
qed

lemma GetOrNew_effect:
  assumes "wf_objects b s" "GetOrNewStateObject b s a = (so, s')"
  shows "becomes b s (news (view b s) a) (set_acct a (Some (got b s a)) (view b s)) s'"
    "acct_of b (sd_db s) so = got b s a" "so_address so = a" "\<not> so_deleted so"
proof -
  obtain r s1 where g: "GetStateObject b s a = (r, s1)" by fastforce
  note v = GetStateObject_view [OF assms(1) g]
  have "becomes b s (news (view b s) a) (set_acct a (Some (got b s a)) (view b s)) s' \<and>
    acct_of b (sd_db s) so = got b s a \<and> so_address so = a \<and> \<not> so_deleted so"
  proof (cases r)
    case (Some ob)
    then have "so = ob" "s' = s1" using assms(2) g v(5) by (auto simp: GetOrNewStateObject_def)
    then show ?thesis using Some v becomes_get [OF assms(1) g] by (auto simp: news_def got_def)
  next
    case None
    obtain n prev s2 where c: "createObject b s1 a = ((n, prev), s2)" by (metis prod.collapse)
    then have n: "so = n" "s' = s2" using assms(2) g None by (auto simp: GetOrNewStateObject_def)
    have d: "sd_db s1 = sd_db s" using v(2) by (simp add: frame_of_def)
    note e = createObject_effect [OF v(3) c]
    have "prev = None" using e(1) v(1,4) None by (auto simp: d)
    then have "becomes b s [createObjectChange a] (set_acct a (Some (fresh_acct b (sd_db s) a)) (view b s)) s2"
      using becomes_trans [OF becomes_get [OF assms(1) g] e(6)] v(1) by (simp add: d)
    then show ?thesis using e(2-4) n None v(4) by (simp add: news_def got_def d)
  qed
  then show "becomes b s (news (view b s) a) (set_acct a (Some (got b s a)) (view b s)) s'"
    "acct_of b (sd_db s) so = got b s a" "so_address so = a" "\<not> so_deleted so" by auto
qed

text \<open>An operation that gets the object of an account, records an entry and changes the object.\<close>

lemma becomes_write:
  assumes "wf_objects b s" "GetOrNewStateObject b s a = (so, s1)" "entry_ok e"
    "so_address so' = so_address so" "so_deleted so' = so_deleted so" "acct_of b (sd_db s) so' = f (acct_of b (sd_db s) so)"
  shows "becomes b s (e # news (view b s) a) (set_acct a (Some (f (got b s a))) (view b s)) (dirtied (journal_add s1 e) so')"
proof -
  note g = GetOrNew_effect [OF assms(1,2)]
  note d = becomesD [OF g(1)]
  have j: "becomes b s (e # news (view b s) a) (set_acct a (Some (got b s a)) (view b s)) (journal_add s1 e)"
    using becomes_trans [OF g(1) becomes_add [OF d(1) assms(3)]] d(2) by simp
  show ?thesis
    using becomes_trans [OF j becomes_put(2) [of b _ so']] becomesD [OF j] assms(4-6) g by simp
qed

section \<open>Effects\<close>

lemma SetNonce_effect:
  assumes "wf_objects b s"
  shows "becomes b s (nonceChange a (a_nonce (got b s a)) # news (view b s) a)
    (set_acct a (Some ((got b s a)\<lparr>a_nonce := n\<rparr>)) (view b s)) (SetNonce b s a n)"
proof -
  obtain so s1 where g: "GetOrNewStateObject b s a = (so, s1)" by fastforce
  note e = GetOrNew_effect [OF assms g]
  have "acc_Nonce (so_data so) = a_nonce (got b s a)" by (simp add: e(2) [symmetric] acct_of_def)
  then show ?thesis
    using becomes_write [OF assms g, of "nonceChange a (a_nonce (got b s a))" _ "\<lambda>x. x\<lparr>a_nonce := n\<rparr>"]
    by (simp add: SetNonce_def g so_SetNonce_def so_setNonce_def e(3) acct_of_nonce)
qed

lemma SetBalance_effect:
  assumes "wf_objects b s" "GetOrNewStateObject b s a = (so, s1)"
  shows "becomes b s (balanceChange a (a_balance (got b s a)) # news (view b s) a)
    (set_acct a (Some ((got b s a)\<lparr>a_balance := x\<rparr>)) (view b s)) (so_SetBalance s1 so x)"
    "acc_Balance (so_data so) = a_balance (got b s a)"
proof -
  note e = GetOrNew_effect [OF assms]
  show "acc_Balance (so_data so) = a_balance (got b s a)" by (simp add: e(2) [symmetric] acct_of_def)
  then show "becomes b s (balanceChange a (a_balance (got b s a)) # news (view b s) a)
    (set_acct a (Some ((got b s a)\<lparr>a_balance := x\<rparr>)) (view b s)) (so_SetBalance s1 so x)"
    using becomes_write [OF assms, of "balanceChange a (a_balance (got b s a))" _ "\<lambda>y. y\<lparr>a_balance := x\<rparr>"]
    by (simp add: so_SetBalance_def so_setBalance_def e(3) acct_of_balance)
qed

lemma big_BitLen_0: "big_BitLen x = 0 \<longleftrightarrow> x = 0"
  by (simp add: big_BitLen_def bit_len.simps [of "nat _"])

definition acct_empty :: "('t, 'd) Backend \<Rightarrow> acct \<Rightarrow> bool" where
  "acct_empty b x \<longleftrightarrow> a_nonce x = 0 \<and> a_balance x = 0 \<and> a_codehash x = emptyCodeHash b"

lemma so_empty_acct: "so_empty b so = acct_empty b (acct_of b d so)"
  by (auto simp: so_empty_def acct_empty_def acct_of_def big_BitLen_0)

lemma AddBalance_effect:
  assumes "wf_objects b s"
  shows "x \<noteq> 0 \<Longrightarrow> becomes b s (balanceChange a (a_balance (got b s a)) # news (view b s) a)
      (set_acct a (Some ((got b s a)\<lparr>a_balance := a_balance (got b s a) + x\<rparr>)) (view b s)) (AddBalance b s a x)"
    and "x = 0 \<Longrightarrow> \<not> acct_empty b (got b s a) \<Longrightarrow>
      becomes b s (news (view b s) a) (set_acct a (Some (got b s a)) (view b s)) (AddBalance b s a x)"
    and "x = 0 \<Longrightarrow> acct_empty b (got b s a) \<Longrightarrow>
      \<exists>t. (a_touched (got b s a) \<longleftrightarrow> t \<or> a = ripemd) \<and>
        becomes b s (touchChange a t # news (view b s) a)
          (set_acct a (Some ((got b s a)\<lparr>a_touched := True\<rparr>)) (view b s)) (AddBalance b s a x)"
proof -
  obtain so s1 where g: "GetOrNewStateObject b s a = (so, s1)" by fastforce
  note e = GetOrNew_effect [OF assms g]
  have emp: "so_empty b so = acct_empty b (got b s a)" using so_empty_acct [of b so "sd_db s"] e(2) by simp
  show "x \<noteq> 0 \<Longrightarrow> becomes b s (balanceChange a (a_balance (got b s a)) # news (view b s) a)
      (set_acct a (Some ((got b s a)\<lparr>a_balance := a_balance (got b s a) + x\<rparr>)) (view b s)) (AddBalance b s a x)"
    using SetBalance_effect [OF assms g] by (simp add: AddBalance_def g so_AddBalance_def)
  show "x = 0 \<Longrightarrow> \<not> acct_empty b (got b s a) \<Longrightarrow>
      becomes b s (news (view b s) a) (set_acct a (Some (got b s a)) (view b s)) (AddBalance b s a x)"
    using e(1) by (simp add: AddBalance_def g so_AddBalance_def emp)
  have "a_touched (got b s a) \<longleftrightarrow> so_touched so \<or> a = ripemd" using e(3) by (simp add: e(2) [symmetric] acct_of_def)
  moreover have "becomes b s (touchChange a (so_touched so) # news (view b s) a)
          (set_acct a (Some ((got b s a)\<lparr>a_touched := True\<rparr>)) (view b s)) (touch s1 so)"
    using becomes_write [OF assms g, of "touchChange a (so_touched so)" _ "\<lambda>x. x\<lparr>a_touched := True\<rparr>"]
    by (simp add: touch_def e(3) acct_of_touched)
  ultimately show "x = 0 \<Longrightarrow> acct_empty b (got b s a) \<Longrightarrow>
      \<exists>t. (a_touched (got b s a) \<longleftrightarrow> t \<or> a = ripemd) \<and>
        becomes b s (touchChange a t # news (view b s) a)
          (set_acct a (Some ((got b s a)\<lparr>a_touched := True\<rparr>)) (view b s)) (AddBalance b s a x)"
    by (auto simp: AddBalance_def g so_AddBalance_def emp)
qed

lemma SubBalance_effect:
  assumes "wf_objects b s"
  shows "x \<noteq> 0 \<Longrightarrow> becomes b s (balanceChange a (a_balance (got b s a)) # news (view b s) a)
      (set_acct a (Some ((got b s a)\<lparr>a_balance := a_balance (got b s a) - x\<rparr>)) (view b s)) (SubBalance b s a x)"
    and "x = 0 \<Longrightarrow> becomes b s (news (view b s) a) (set_acct a (Some (got b s a)) (view b s)) (SubBalance b s a x)"
proof -
  obtain so s1 where g: "GetOrNewStateObject b s a = (so, s1)" by fastforce
  show "x \<noteq> 0 \<Longrightarrow> becomes b s (balanceChange a (a_balance (got b s a)) # news (view b s) a)
      (set_acct a (Some ((got b s a)\<lparr>a_balance := a_balance (got b s a) - x\<rparr>)) (view b s)) (SubBalance b s a x)"
    "x = 0 \<Longrightarrow> becomes b s (news (view b s) a) (set_acct a (Some (got b s a)) (view b s)) (SubBalance b s a x)"
    using SetBalance_effect [OF assms g] GetOrNew_effect [OF assms g] by (simp_all add: SubBalance_def g so_SubBalance_def)
qed

lemma SetState_effect:
  assumes "wf_objects b s"
  shows "becomes b s (storageChange a k (a_storage (got b s a) k) # news (view b s) a)
    (set_acct a (Some ((got b s a)\<lparr>a_storage := (a_storage (got b s a))(k := x)\<rparr>)) (view b s)) (SetState b s a k x)"
proof -
  obtain so s1 where g: "GetOrNewStateObject b s a = (so, s1)" by fastforce
  note e = GetOrNew_effect [OF assms g]
  obtain p so' where p: "so_GetState b (sd_db s) so k = (p, so')" by fastforce
  obtain tr er cs where q: "so' = so\<lparr>so_trie := tr, so_dbErr := er, so_cachedStorage := cs\<rparr>"
    "\<And>x. fst (so_GetState b (sd_db s) so' x) = fst (so_GetState b (sd_db s) so x)"
    by (rule snd_so_GetState [OF p]) (rule that)
  have so': "so_address so' = a" "so_deleted so' = so_deleted so" "acct_of b (sd_db s) so' = acct_of b (sd_db s) so"
    using q e(3) by (simp_all add: acct_of_def fst_so_Code)
  have "p = a_storage (got b s a) k" using p by (simp add: e(2) [symmetric] acct_of_def)
  then show ?thesis
    using becomes_write [OF assms g, of "storageChange a k p"
        "so'\<lparr>so_cachedStorage := (so_cachedStorage so')(k \<mapsto> x), so_dirtyStorage := (so_dirtyStorage so')(k \<mapsto> x)\<rparr>"
        "\<lambda>y. y\<lparr>a_storage := (a_storage y)(k := x)\<rparr>"] so' e(2,3) becomesD(3) [OF e(1)]
    by (simp add: SetState_def g so_SetState_def so_setState_def p acct_of_storage)
qed

lemma SetCode_effect:
  assumes "wf_objects b s"
  shows "becomes b s (codeChange a (a_code (got b s a)) (a_codehash (got b s a)) # news (view b s) a)
    (set_acct a (Some ((got b s a)\<lparr>a_codehash := BytesToHash (b_Keccak256 b c), a_code := Some c\<rparr>)) (view b s))
    (SetCode b s a c)"
proof -
  obtain so s1 where g: "GetOrNewStateObject b s a = (so, s1)" by fastforce
  note e = GetOrNew_effect [OF assms g]
  obtain p so' where p: "so_Code b (sd_db s) so = (p, so')" by fastforce
  obtain er co where q: "so' = so\<lparr>so_dbErr := er, so_code := co\<rparr>" "fst (so_Code b (sd_db s) so') = fst (so_Code b (sd_db s) so)"
    by (rule snd_so_Code [OF p]) (rule that)
  have so': "so_address so' = a" "so_deleted so' = so_deleted so" "acct_of b (sd_db s) so' = acct_of b (sd_db s) so"
    "so_data so' = so_data so"
    using q e(3) by (simp_all add: acct_of_def fst_so_GetState)
  have "p = a_code (got b s a)" "acc_CodeHash (so_data so') = a_codehash (got b s a)"
    using p so'(4) by (simp_all add: e(2) [symmetric] acct_of_def)
  then show ?thesis
    using becomes_write [OF assms g, of "codeChange a p (a_codehash (got b s a))"
        "so'\<lparr>so_code := Some c, so_data := (so_data so')\<lparr>acc_CodeHash := BytesToHash (b_Keccak256 b c)\<rparr>, so_dirtyCode := True\<rparr>"
        "\<lambda>y. y\<lparr>a_codehash := BytesToHash (b_Keccak256 b c), a_code := Some c\<rparr>"] so'(1-3) e(2,3) becomesD(3) [OF e(1)]
    by (simp add: SetCode_def g so_SetCode_def so_setCode_def p acct_of_code reload_def)
qed

lemma dirtied_object:
  "\<exists>so'. sd_stateObjects (dirtied s so) (so_address so) = Some so' \<and> so_address so' = so_address so \<and>
    so_deleted so' = so_deleted so \<and> acct_of b d so' = acct_of b d so"
  by (cases "so_onDirty so") (simp_all add: dirtied_def)

lemma Suicide_effect:
  assumes "wf_objects b s" "v_acct (view b s) a = Some x"
  shows "becomes b s [suicideChange a (a_suicided x) (a_balance x)]
    (set_acct a (Some (x\<lparr>a_suicided := True, a_balance := 0\<rparr>)) (view b s)) (snd (Suicide b s a))"
proof -
  obtain r s1 where g: "GetStateObject b s a = (r, s1)" by fastforce
  note v = GetStateObject_view [OF assms(1) g]
  obtain so where r: "r = Some so" "acct_of b (sd_db s) so = x" using v(4) assms(2) by auto
  note so = v(5) [OF r(1)]
  define e :: "'a journalEntry" where "e = suicideChange a (a_suicided x) (a_balance x)"
  define so1 where "so1 = so\<lparr>so_suicided := True\<rparr>"
  have x: "so_suicided so = a_suicided x" "acc_Balance (so_data so) = a_balance x" by (simp_all add: r(2) [symmetric] acct_of_def)
  have j: "becomes b s [e] (view b s) (journal_add s1 e)"
    using becomes_trans [OF becomes_get [OF assms(1) g] becomes_add [OF v(3), of e]] v(1) by (simp add: e_def)
  have m: "becomes b s [e] (set_acct a (Some (x\<lparr>a_suicided := True\<rparr>)) (view b s)) (dirtied (journal_add s1 e) so1)"
    using becomes_trans [OF j becomes_put(2) [of b _ so1]] becomesD [OF j] so r(2)
    by (simp add: so1_def acct_of_suicided)
  obtain so2 where so2: "sd_stateObjects (dirtied (journal_add s1 e) so1) a = Some so2" "so_address so2 = a"
    "\<not> so_deleted so2" "acct_of b (sd_db s) so2 = x\<lparr>a_suicided := True\<rparr>"
    using dirtied_object [of "journal_add s1 e" so1 b "sd_db s"] so r(2) by (auto simp: so1_def acct_of_suicided)
  have "becomes b s [e] (set_acct a (Some (x\<lparr>a_suicided := True, a_balance := 0\<rparr>)) (view b s))
      (setStateObject (dirtied (journal_add s1 e) so1) (so2\<lparr>so_data := (so_data so2)\<lparr>acc_Balance := 0\<rparr>\<rparr>))"
    using becomes_trans [OF m becomes_put(1) [of b _ "so2\<lparr>so_data := (so_data so2)\<lparr>acc_Balance := 0\<rparr>\<rparr>"]] becomesD [OF m] so2
    by (simp add: acct_of_balance)
  then show ?thesis using g r so2(1) by (simp add: Suicide_def Let_def markSuicided_def x e_def so1_def)
qed

lemma CreateAccount_effect:
  assumes "wf_objects b s"
  shows "v_acct (view b s) a = None \<Longrightarrow>
      becomes b s [createObjectChange a] (set_acct a (Some (fresh_acct b (sd_db s) a)) (view b s)) (CreateAccount b s a)"
    and "v_acct (view b s) a = Some x \<Longrightarrow> \<exists>p. acct_of b (sd_db s) p = x \<and> so_address p = a \<and>
      becomes b s [resetObjectChange p] (set_acct a (Some ((fresh_acct b (sd_db s) a)\<lparr>a_balance := a_balance x\<rparr>)) (view b s))
        (CreateAccount b s a)"
proof -
  obtain n prev s1 where c: "createObject b s a = ((n, prev), s1)" by (metis prod.collapse)
  note e = createObject_effect [OF assms c]
  note d = becomesD [OF e(6)]
  show "v_acct (view b s) a = None \<Longrightarrow>
      becomes b s [createObjectChange a] (set_acct a (Some (fresh_acct b (sd_db s) a)) (view b s)) (CreateAccount b s a)"
    using e(1,6) by (cases prev) (auto simp: CreateAccount_def c)
  show "\<exists>p. acct_of b (sd_db s) p = x \<and> so_address p = a \<and>
      becomes b s [resetObjectChange p] (set_acct a (Some ((fresh_acct b (sd_db s) a)\<lparr>a_balance := a_balance x\<rparr>)) (view b s))
        (CreateAccount b s a)" if x: "v_acct (view b s) a = Some x"
  proof -
    obtain p where p: "prev = Some p" "acct_of b (sd_db s) p = x" using e(1) x by auto
    have bal: "acc_Balance (so_data p) = a_balance x" by (simp add: p(2) [symmetric] acct_of_def)
    define n' where "n' = n\<lparr>so_data := (so_data n)\<lparr>acc_Balance := a_balance x\<rparr>\<rparr>"
    have "becomes b s [resetObjectChange p]
        (set_acct a (Some ((fresh_acct b (sd_db s) a)\<lparr>a_balance := a_balance x\<rparr>)) (view b s)) (dirtied s1 n')"
      using becomes_trans [OF e(6) becomes_put(2) [of b s1 n']] d e(2-4) p
      by (simp add: n'_def acct_of_balance)
    then show ?thesis using p e(7) by (auto simp: CreateAccount_def c so_setBalance_def bal n'_def)
  qed
qed

lemma AddRefund_effect:
  assumes "wf_objects b s"
  shows "becomes b s [refundChange (v_refund (view b s))] ((view b s)\<lparr>v_refund := v_refund (view b s) + g\<rparr>) (AddRefund s g)"
  using assms by (simp add: becomes_def AddRefund_def journal_add_def view_alt wf_objects_def frame_of_def)

lemma AddLog_effect:
  assumes "wf_objects b s"
  shows "\<exists>l'. becomes b s [addLogChange (sd_thash s)]
    ((view b s)\<lparr>v_logs := (v_logs (view b s))(sd_thash s := v_logs (view b s) (sd_thash s) @ [l'])\<rparr>) (AddLog s l)"
  using assms
  by (auto simp: becomes_def AddLog_def journal_add_def view_alt wf_objects_def frame_of_def Let_def fun_eq_iff
      split: option.splits)

end
