(* ===== verification/State_Revert.thy ===== *)
theory State_Revert
  imports State_Effects
begin

text \<open>
  Snapshots. Every valid revision stands for the view that was current when it was taken; the operations
  keep these views, and a revert restores one of them.
\<close>

section \<open>Steps that can be undone\<close>

definition does :: "('t, 'd) Backend \<Rightarrow> ('t, 'd) state_db \<Rightarrow> aview \<Rightarrow> ('t, 'd) state_db \<Rightarrow> bool" where
  "does b s v s' \<longleftrightarrow>
     (\<exists>es. becomes b s es v s' \<and> areplay b (sd_db s) (base b s) es v = Some (view b s))"

lemma doesI: "becomes b s es v s' \<Longrightarrow> areplay b (sd_db s) (base b s) es v = Some (view b s) \<Longrightarrow> does b s v s'"
  by (auto simp: does_def)

lemma doesD:
  assumes "does b s v s'"
  shows "wf_objects b s'" "view b s' = v" "sd_db s' = sd_db s" "sd_trie s' = sd_trie s" "base b s' = base b s"
  using assms becomesD by (fastforce simp: does_def)+

lemma does_trans: "does b s v s' \<Longrightarrow> does b s' v' s'' \<Longrightarrow> does b s v' s''"
proof -
  assume a: "does b s v s'" "does b s' v' s''"
  then obtain es es' where e: "becomes b s es v s'" "areplay b (sd_db s) (base b s) es v = Some (view b s)"
    "becomes b s' es' v' s''" "areplay b (sd_db s) (base b s) es' v' = Some v"
    using doesD [OF a(1)] by (auto simp: does_def)
  show ?thesis using becomes_trans [OF e(1,3)] e(2,4) by (auto intro!: doesI simp: areplay_append)
qed

lemma does_same: "becomes b s [] (view b s) s' \<Longrightarrow> does b s (view b s) s'"
  by (rule doesI, assumption) simp

lemma base_None:
  assumes "wf_objects b s" "v_acct (view b s) a = None"
  shows "base b s a = None"
  using assms by (auto simp: view_alt base_def live_def wf_objects_def split: option.splits if_splits)

lemma areplay_news:
  "wf_objects b s \<Longrightarrow>
    areplay b d (base b s) (news (view b s) a) (set_acct a (Some (got b s a)) (view b s)) = Some (view b s)"
  by (cases "v_acct (view b s) a") (simp_all add: news_def got_def base_None)

lemma does_write:
  assumes "wf_objects b s" "becomes b s (e # news (view b s) a) (set_acct a (Some y) (view b s)) s'"
    "aundo b (sd_db s) (base b s) e (set_acct a (Some y) (view b s)) = Some (set_acct a (Some (got b s a)) (view b s))"
  shows "does b s (set_acct a (Some y) (view b s)) s'"
  using assms by (auto intro!: doesI simp: areplay_news)

lemma got_acct_of: "\<exists>so. got b s a = acct_of b (sd_db s) so"
  by (auto simp: got_def fresh_acct_def view_alt split: option.splits)

lemma got_reload: "reload b (sd_db s) (a_codehash (got b s a)) (a_code (got b s a)) = a_code (got b s a)"
proof -
  obtain so where "got b s a = acct_of b (sd_db s) so" using got_acct_of by blast
  then show ?thesis by (auto simp: acct_simps reload_def split: option.splits)
qed

lemma does_SetNonce:
  "wf_objects b s \<Longrightarrow> does b s (set_acct a (Some ((got b s a)\<lparr>a_nonce := n\<rparr>)) (view b s)) (SetNonce b s a n)"
  by (rule does_write [OF _ SetNonce_effect]) (simp_all add: change_acct_def)

lemma does_SetState:
  "wf_objects b s \<Longrightarrow>
    does b s (set_acct a (Some ((got b s a)\<lparr>a_storage := (a_storage (got b s a))(k := x)\<rparr>)) (view b s)) (SetState b s a k x)"
  by (rule does_write [OF _ SetState_effect]) (simp_all add: change_acct_def)

lemma does_SetCode:
  "wf_objects b s \<Longrightarrow> length (a_codehash (got b s a)) = 32 \<Longrightarrow>
    does b s (set_acct a (Some ((got b s a)\<lparr>a_codehash := BytesToHash (b_Keccak256 b c), a_code := Some c\<rparr>)) (view b s))
      (SetCode b s a c)"
  by (rule does_write [OF _ SetCode_effect]) (simp_all add: change_acct_def BytesToHash_id got_reload)

lemma does_SubBalance:
  "wf_objects b s \<Longrightarrow>
    does b s (set_acct a (Some ((got b s a)\<lparr>a_balance := a_balance (got b s a) - x\<rparr>)) (view b s)) (SubBalance b s a x)"
proof (cases "x = 0")
  case True
  assume w: "wf_objects b s"
  show ?thesis using doesI [OF SubBalance_effect(2) [OF w True]] areplay_news [OF w] True by simp
next
  case False
  assume w: "wf_objects b s"
  show ?thesis by (rule does_write [OF w SubBalance_effect(1) [OF w False]]) (simp add: change_acct_def)
qed

lemma does_AddBalance:
  assumes "wf_objects b s" "x \<noteq> 0 \<or> \<not> acct_empty b (got b s a)"
  shows "does b s (set_acct a (Some ((got b s a)\<lparr>a_balance := a_balance (got b s a) + x\<rparr>)) (view b s)) (AddBalance b s a x)"
proof (cases "x = 0")
  case True
  then show ?thesis
    using doesI [OF AddBalance_effect(2) [OF assms(1) True]] assms areplay_news [OF assms(1)] by simp
next
  case False
  show ?thesis by (rule does_write [OF assms(1) AddBalance_effect(1) [OF assms(1) False]]) (simp add: change_acct_def)
qed

text \<open>
  A touch is undone by dropping the object. This restores the account if it was as in the trie, or was
  created together with the touch.
\<close>

lemma does_touch:
  assumes "wf_objects b s" "acct_empty b (got b s a)"
    and "\<And>x. v_acct (view b s) a = Some x \<Longrightarrow> \<not> a_touched x \<Longrightarrow> base b s a = Some x"
  shows "does b s (set_acct a (Some ((got b s a)\<lparr>a_touched := True\<rparr>)) (view b s)) (AddBalance b s a 0)"
proof -
  obtain t where t: "a_touched (got b s a) \<longleftrightarrow> t \<or> a = ripemd"
    "becomes b s (touchChange a t # news (view b s) a) (set_acct a (Some ((got b s a)\<lparr>a_touched := True\<rparr>)) (view b s))
       (AddBalance b s a 0)"
    using AddBalance_effect(3) [OF assms(1) refl assms(2)] by blast
  show ?thesis
  proof (cases "a_touched (got b s a)")
    case True
    then have eq: "(got b s a)\<lparr>a_touched := True\<rparr> = got b s a" by simp
    show ?thesis using doesI [OF t(2)] t(1) True areplay_news [OF assms(1)] unfolding eq by auto
  next
    case False
    then have "set_acct a (base b s a) (view b s) = view b s"
      using assms(3) base_None [OF assms(1), of a] by (cases "v_acct (view b s) a") (auto simp: got_def)
    then show ?thesis using doesI [OF t(2)] t(1) False by (simp add: news_def)
  qed
qed

lemma does_create_touch:
  assumes "wf_objects b s" "v_acct (view b s) a = None"
    "becomes b s [touchChange a t, createObjectChange a] (set_acct a (Some y) (view b s)) s'"
  shows "does b s (set_acct a (Some y) (view b s)) s'"
  by (rule doesI [OF assms(3)]) (use assms base_None [OF assms(1,2)] in simp)

lemma does_Suicide:
  "wf_objects b s \<Longrightarrow> v_acct (view b s) a = Some x \<Longrightarrow>
    does b s (set_acct a (Some (x\<lparr>a_suicided := True, a_balance := 0\<rparr>)) (view b s)) (snd (Suicide b s a))"
  by (rule doesI [OF Suicide_effect]) simp_all

lemma does_CreateAccount:
  assumes "wf_objects b s"
  shows "does b s (set_acct a (Some ((fresh_acct b (sd_db s) a)\<lparr>a_balance := a_balance (got b s a)\<rparr>)) (view b s))
    (CreateAccount b s a)"
proof (cases "v_acct (view b s) a")
  case None
  then have "(fresh_acct b (sd_db s) a)\<lparr>a_balance := a_balance (got b s a)\<rparr> = fresh_acct b (sd_db s) a"
    using fresh_acct_sel(2) [of b "sd_db s" a] by (simp add: got_def)
  then show ?thesis using CreateAccount_effect(1) [OF assms None] None base_None [OF assms None] by (auto intro!: doesI)
next
  case (Some x)
  then show ?thesis using CreateAccount_effect(2) [OF assms Some] by (auto intro!: doesI simp: got_def)
qed

lemma does_AddRefund: "wf_objects b s \<Longrightarrow> does b s ((view b s)\<lparr>v_refund := v_refund (view b s) + g\<rparr>) (AddRefund s g)"
  by (rule doesI [OF AddRefund_effect]) simp_all

lemma does_AddLog:
  "wf_objects b s \<Longrightarrow> \<exists>v. v_acct v = v_acct (view b s) \<and> v_refund v = v_refund (view b s) \<and> does b s v (AddLog s l)"
proof -
  assume w: "wf_objects b s"
  obtain l' where "becomes b s [addLogChange (sd_thash s)]
    ((view b s)\<lparr>v_logs := (v_logs (view b s))(sd_thash s := v_logs (view b s) (sd_thash s) @ [l'])\<rparr>) (AddLog s l)"
    using AddLog_effect [OF w] by blast
  then show ?thesis by (intro exI conjI, rule_tac [3] doesI) auto
qed

section \<open>Revisions\<close>

definition find_rev :: "revision list \<Rightarrow> nat \<Rightarrow> nat option" where
  "find_rev rs n =
     (case dropWhile (\<lambda>r. rev_id r > n) rs of
        [] \<Rightarrow> None
      | r # rest \<Rightarrow> if rev_id r = n then Some (journalIndex r) else None)"

definition view_at :: "('t, 'd) Backend \<Rightarrow> ('t, 'd) state_db \<Rightarrow> nat \<Rightarrow> aview option" where
  "view_at b s i = areplay b (sd_db s) (base b s) (take (length (sd_journal s) - i) (sd_journal s)) (view b s)"

definition saved :: "('t, 'd) Backend \<Rightarrow> ('t, 'd) state_db \<Rightarrow> nat \<Rightarrow> aview option" where
  "saved b s n = Option.bind (find_rev (sd_validRevisions s) n) (view_at b s)"

definition revs_ok :: "('t, 'd) state_db \<Rightarrow> bool" where
  "revs_ok s \<longleftrightarrow>
     sorted_wrt (\<lambda>r q. rev_id q < rev_id r \<and> journalIndex q \<le> journalIndex r) (sd_validRevisions s) \<and>
     (\<forall>r\<in>set (sd_validRevisions s). rev_id r < sd_nextRevisionId s \<and> journalIndex r \<le> length (sd_journal s))"

lemma find_rev_Nil [simp]: "find_rev [] n = None"
  by (simp add: find_rev_def)

lemma find_rev_Cons:
  "find_rev (r # rs) n =
     (if rev_id r > n then find_rev rs n else if rev_id r = n then Some (journalIndex r) else None)"
  by (simp add: find_rev_def)

lemma find_rev_in: "find_rev rs n = Some i \<Longrightarrow> \<exists>r\<in>set rs. rev_id r = n \<and> journalIndex r = i"
  by (induction rs) (auto simp: find_rev_Cons split: if_splits)

lemma dropWhile_ConsD: "dropWhile P xs = y # ys \<Longrightarrow> y \<in> set xs \<and> \<not> P y \<and> (\<exists>zs. xs = zs @ y # ys \<and> (\<forall>z\<in>set zs. P z))"
proof -
  assume d: "dropWhile P xs = y # ys"
  have "xs = takeWhile P xs @ y # ys" using d takeWhile_dropWhile_id [of P xs] by simp
  moreover have "\<forall>z\<in>set (takeWhile P xs). P z" by (auto dest: set_takeWhileD)
  moreover have "\<not> P y" using d hd_dropWhile [of P xs] by auto
  ultimately show ?thesis by (metis in_set_conv_decomp)
qed

lemma does_saved:
  assumes "does b s v s'" "revs_ok s"
  shows "saved b s' = saved b s" "revs_ok s'"
proof -
  obtain es where e: "becomes b s es v s'" "areplay b (sd_db s) (base b s) es v = Some (view b s)"
    using assms(1) by (auto simp: does_def)
  have j: "sd_journal s' = es @ sd_journal s" "sd_validRevisions s' = sd_validRevisions s"
    "sd_nextRevisionId s' = sd_nextRevisionId s"
    using e(1) by (simp_all add: becomes_def frame_of_def)
  show "revs_ok s'" using assms(2) j by (auto simp: revs_ok_def)
  have "view_at b s' i = view_at b s i" if "i \<le> length (sd_journal s)" for i
    using that e(2) doesD [OF assms(1)] by (simp add: view_at_def j(1) areplay_append)
  then show "saved b s' = saved b s"
    using assms(2) j(2)
    by (fastforce simp: saved_def fun_eq_iff revs_ok_def dest: find_rev_in intro!: bind_option_cong)
qed

lemma saved_less:
  assumes "revs_ok s" "saved b s n = Some v"
  shows "n < sd_nextRevisionId s"
  using assms by (auto simp: saved_def revs_ok_def bind_eq_Some_conv dest!: find_rev_in)

lemma Snapshot_saved:
  assumes "revs_ok s" "wf_objects b s" "Snapshot s = (n, s')"
  shows "revs_ok s'" "view b s' = view b s" "base b s' = base b s" "wf_objects b s'" "sd_journal s' = sd_journal s"
    "saved b s' n = Some (view b s)" "m < n \<Longrightarrow> saved b s' m = saved b s m" "saved b s' m = Some v \<Longrightarrow> m \<le> n"
    "saved b s m = Some v \<Longrightarrow> m < n"
proof -
  have n: "n = sd_nextRevisionId s"
    and s': "s' = s\<lparr>sd_nextRevisionId := n + 1, sd_validRevisions := \<lparr>rev_id = n, journalIndex = length (sd_journal s)\<rparr> # sd_validRevisions s\<rparr>"
    using assms(3) by (auto simp: Snapshot_def)
  show r: "revs_ok s'" using assms(1) by (auto simp: revs_ok_def s' n)
  have o: "view b s' = view b s" "base b s' = base b s" "sd_db s' = sd_db s" "sd_journal s' = sd_journal s"
    by (simp_all add: s' view_alt base_def fun_eq_iff)
  then show "view b s' = view b s" "base b s' = base b s" "sd_journal s' = sd_journal s" by simp_all
  show "wf_objects b s'" using assms(2) by (simp add: s' wf_objects_def)
  show "saved b s' n = Some (view b s)" "m < n \<Longrightarrow> saved b s' m = saved b s m"
    using o by (simp_all add: saved_def view_at_def [abs_def] find_rev_Cons s')
  show "saved b s' m = Some v \<Longrightarrow> m \<le> n" using saved_less [OF r] by (fastforce simp: s' n)
  show "saved b s m = Some v \<Longrightarrow> m < n" using saved_less [OF assms(1)] n by blast
qed

text \<open>A revert leads to the view of its revision. Older revisions stay valid, and no newer one does.\<close>

lemma RevertToSnapshot_saved:
  assumes "wf_objects b s" "list_all entry_ok (sd_journal s)" "revs_ok s" "saved b s n = Some v"
  shows "\<exists>s'. RevertToSnapshot b s n = Ret s' \<and> view b s' = v \<and> wf_objects b s' \<and> base b s' = base b s \<and>
    list_all entry_ok (sd_journal s') \<and> revs_ok s' \<and>
    (\<forall>m. saved b s' m = (if m < n then saved b s m else None))"
proof -
  obtain r rest where r: "dropWhile (\<lambda>r. rev_id r > n) (sd_validRevisions s) = r # rest" "rev_id r = n"
    "areplay b (sd_db s) (base b s) (take (length (sd_journal s) - journalIndex r) (sd_journal s)) (view b s) = Some v"
    using assms(4) by (auto simp: saved_def find_rev_def view_at_def split: list.splits if_splits)
  define k where "k = length (sd_journal s) - journalIndex r"
  obtain zs where zs: "sd_validRevisions s = zs @ r # rest" "\<forall>z\<in>set zs. rev_id z > n"
    using dropWhile_ConsD [OF r(1)] by auto
  have idx: "journalIndex r \<le> length (sd_journal s)" "\<And>q. q \<in> set rest \<Longrightarrow> journalIndex q \<le> journalIndex r \<and> rev_id q < n"
    using assms(3) zs(1) r(2) by (auto simp: revs_ok_def sorted_wrt_append)
  obtain s1 where s1: "undo_all b (take k (sd_journal s)) s = Ret s1" "becomes b s [] v s1"
    using undo_all_areplay [OF assms(1), of "take k (sd_journal s)"] assms(2) r(3)
    by (auto simp: undone_def k_def list_all_iff dest: in_set_takeD)
  define s' where "s' = s1\<lparr>sd_journal := drop k (sd_journal s1), sd_validRevisions := rest\<rparr>"
  have f: "sd_journal s1 = sd_journal s" "sd_nextRevisionId s1 = sd_nextRevisionId s" "sd_db s1 = sd_db s" "sd_trie s1 = sd_trie s"
    using s1(2) by (simp_all add: becomes_def frame_of_def)
  have g: "view b s' = v" "wf_objects b s'" "base b s' = base b s" "sd_db s' = sd_db s"
    using becomesD [OF s1(2)] by (simp_all add: s'_def view_alt wf_objects_def base_def fun_eq_iff)
  have len: "length (sd_journal s') = journalIndex r" using idx(1) f(1) by (simp add: s'_def k_def)
  have ok: "revs_ok s'" using assms(3) zs(1) idx len
    by (auto simp: revs_ok_def sorted_wrt_append) (simp_all add: s'_def f(2))
  have "saved b s' m = saved b s m" if "m < n" for m
  proof -
    have d: "find_rev (sd_validRevisions s) m = find_rev rest m"
      using zs(2) that r(2) unfolding zs(1) by (induction zs) (auto simp: find_rev_Cons)
    have "view_at b s i = view_at b s' i" if "i \<le> journalIndex r" for i
    proof -
      have "length (sd_journal s) - i = k + (journalIndex r - i)" using idx(1) that by (simp add: k_def)
      then show ?thesis using r(3) g len
        by (simp add: view_at_def take_add areplay_append k_def) (simp add: s'_def f k_def)
    qed
    moreover have "i \<le> journalIndex r" if "find_rev rest m = Some i" for i
      using find_rev_in [OF that] idx(2) by auto
    ultimately show ?thesis by (simp add: saved_def d) (auto simp: s'_def intro!: bind_option_cong)
  qed
  moreover have "saved b s' m = None" if "\<not> m < n" for m
  proof -
    have "find_rev rest m = None" using find_rev_in [of rest m] idx(2) that by (cases "find_rev rest m") auto
    then show ?thesis by (simp add: saved_def s'_def)
  qed
  moreover have "list_all entry_ok (sd_journal s')"
    using assms(2) by (auto simp: s'_def f list_all_iff dest: in_set_dropD)
  moreover have "RevertToSnapshot b s n = Ret s'"
    using r(1,2) s1(1) by (simp add: RevertToSnapshot_def Let_def k_def [symmetric] s'_def)
  ultimately show ?thesis using g ok by auto
qed

end
