(* ===== verification/VM_Price.thy ===== *)
theory VM_Price
  imports VM_Run
begin

text \<open>
  What an instruction needs and what its price guarantees: the stack effect of every opcode, the
  regions of memory it reads and writes, and the relation between its price, the growth of the memory
  and the gas it passes on. The price that \<open>calculateGasAndSize\<close> computes before the instruction runs
  covers all of these, so that a paid instruction finds its operands and its memory.
\<close>

section \<open>The fee of the memory\<close>

definition memfee :: "int \<Rightarrow> int" where
  "memfee w = w * MemoryGas + w ^ 2 div QuadCoeffDiv"

definition fee :: "bytes \<Rightarrow> int" where
  "fee mem = memfee (toWordSize (int (length mem)))"

definition grown :: "bytes \<Rightarrow> int \<Rightarrow> int" where
  "grown mem ms = (if ms > int (length mem) then memfee (toWordSize ms) - fee mem else 0)"

lemma memfee_mono: "0 \<le> v \<Longrightarrow> v \<le> w \<Longrightarrow> memfee v \<le> memfee w"
  unfolding memfee_def gas_prices
  by (intro add_mono zdiv_mono1 power_mono) auto

lemma memfee_nonneg: "0 \<le> w \<Longrightarrow> 0 \<le> memfee w"
  using memfee_mono [of 0 w] by (simp add: memfee_def)

lemma toWordSize_mono: "a \<le> b \<Longrightarrow> toWordSize a \<le> toWordSize b"
  unfolding toWordSize_def by (intro zdiv_mono1) auto

lemma toWordSize_nonneg: "0 \<le> a \<Longrightarrow> 0 \<le> toWordSize a"
  by (simp add: toWordSize_def)

lemma fee_nonneg: "0 \<le> fee mem"
  by (simp add: fee_def memfee_nonneg toWordSize_nonneg)

lemma fee_Nil [simp]: "fee [] = 0"
  by (simp add: fee_def memfee_def toWordSize_def)

lemma grown_nonneg: "0 \<le> grown mem ms"
  by (simp add: grown_def fee_def memfee_mono toWordSize_mono toWordSize_nonneg)

lemma toWordSize_words: "toWordSize (toWordSize a * 32) = toWordSize a"
  by (simp add: toWordSize_def)

lemma toWordSize_ge: "a \<le> toWordSize a * 32"
  by (simp add: toWordSize_def)

lemma quadMemGas_grown:
  assumes "0 \<le> sz"
  shows "\<exists>ms. quadMemGas mem sz gas = (ms, gas + grown mem ms) \<and> sz \<le> ms"
proof (cases "sz = 0")
  case True
  then show ?thesis by (simp add: quadMemGas_def grown_def)
next
  case False
  define ms where "ms = toWordSize sz * 32"
  have w: "toWordSize ms = toWordSize sz" by (simp add: ms_def toWordSize_words)
  have "quadMemGas mem sz gas = (ms, gas + grown mem ms)"
    using False assms w
    by (simp add: quadMemGas_def Let_def ms_def [symmetric] grown_def fee_def memfee_def)
  moreover have "sz \<le> ms" by (simp add: ms_def toWordSize_ge)
  ultimately show ?thesis by blast
qed

text \<open>The quadratic part keeps a paid memory far below the range of the machine integers.\<close>

lemma memfee_bound:
  assumes "memfee (toWordSize ms) < 2 ^ 63" "0 \<le> ms"
  shows "ms < 2 ^ 42"
proof (rule ccontr)
  assume "\<not> ms < 2 ^ 42"
  then have "toWordSize (2 ^ 42) \<le> toWordSize ms" by (intro toWordSize_mono) simp
  then have "2 ^ 37 \<le> toWordSize ms" by (simp add: toWordSize_def)
  then have "memfee (2 ^ 37) \<le> memfee (toWordSize ms)" by (intro memfee_mono) simp_all
  with assms(1) show False by (simp add: memfee_def gas_prices)
qed

lemma paid_memory:
  assumes "fee mem + gas < 2 ^ 63" "grown mem ms \<le> gas" "0 \<le> gas" "0 \<le> ms"
  shows "ms < 2 ^ 42" "int (length mem) < 2 ^ 42"
    and "int (length (mem_Resize mem (big_Uint64 ms))) = max (int (length mem)) ms"
    and "fee (mem_Resize mem (big_Uint64 ms)) = fee mem + grown mem ms"
proof -
  have l: "int (length mem) < 2 ^ 42"
    using assms(1,3) by (intro memfee_bound) (simp_all add: fee_def [symmetric])
  show ms: "ms < 2 ^ 42"
  proof (cases "ms > int (length mem)")
    case True
    then show ?thesis using assms by (intro memfee_bound) (simp_all add: grown_def)
  qed (use l in simp)
  have u: "unat (big_Uint64 ms) = nat ms" using ms assms(4) by (intro unat_big_Uint64) simp_all
  show len: "int (length (mem_Resize mem (big_Uint64 ms))) = max (int (length mem)) ms"
    using assms(4) by (auto simp: mem_Resize_def u)
  show "fee (mem_Resize mem (big_Uint64 ms)) = fee mem + grown mem ms"
    unfolding fee_def len by (simp add: grown_def fee_def max_def)
  show "int (length mem) < 2 ^ 42" by (rule l)
qed

section \<open>Access to the memory\<close>

text \<open>A region is covered when it is empty or ends within the memory.\<close>

definition covered :: "bytes \<Rightarrow> int \<times> int \<Rightarrow> bool" where
  "covered mem r \<longleftrightarrow> (case r of (off, sz) \<Rightarrow> 0 \<le> off \<and> 0 \<le> sz \<and> calcMemSize off sz \<le> int (length mem))"

lemma covered_cases:
  assumes "covered mem (off, sz)" "int (length mem) < 2 ^ 42"
  obtains "sz = 0"
  | "0 \<le> off" "0 < sz" "off + sz \<le> int (length mem)" "big_Int64 off = off" "big_Int64 sz = sz"
    "unat (big_Uint64 off) = nat off" "unat (big_Uint64 sz) = nat sz"
proof (cases "sz = 0")
  case False
  then have c: "0 \<le> off" "0 < sz" "off + sz \<le> int (length mem)"
    using assms(1) by (auto simp: covered_def calcMemSize_def)
  then have "off < 2 ^ 63" "sz < 2 ^ 63" "off < 2 ^ 64" "sz < 2 ^ 64" using assms(2) by simp_all
  then show ?thesis using c that(2) by (simp add: big_Int64_id unat_big_Uint64)
qed (rule that(1))

lemma mem_Get_covered:
  assumes "covered mem (off, sz)" "int (length mem) < 2 ^ 42"
  shows "\<exists>d. mem_Get mem (big_Int64 off) (big_Int64 sz) = Ret d"
    and "\<exists>d. mem_GetPtr mem (big_Int64 off) (big_Int64 sz) = Ret d"
  using assms
  by (cases rule: covered_cases; simp add: mem_Get_def mem_GetPtr_def big_Int64_id)+

lemma mem_Set_covered:
  assumes "covered mem (off, sz)" "int (length mem) < 2 ^ 42"
  shows "\<exists>m. mem_Set mem (big_Uint64 off) (big_Uint64 sz) val = Ret m \<and> length m = length mem"
  using assms
proof (cases rule: covered_cases)
  case 1
  then show ?thesis by (simp add: mem_Set_def big_Uint64_def)
next
  case 2
  then show ?thesis by (auto simp: mem_Set_def Let_def word_less_nat_alt nat_le_iff min_def)
qed

section \<open>Stack effects and memory regions\<close>

fun arith_eff :: "arith_op \<Rightarrow> nat" where
  "arith_eff ADDMOD = 3"
| "arith_eff MULMOD = 3"
| "arith_eff _ = 2"

fun bit_eff :: "bit_op \<Rightarrow> nat" where
  "bit_eff ISZERO = 1"
| "bit_eff NOTop = 1"
| "bit_eff _ = 2"

fun closure_eff :: "closure_op \<Rightarrow> nat \<times> nat" where
  "closure_eff BALANCE = (1, 1)"
| "closure_eff CALLDATALOAD = (1, 1)"
| "closure_eff CALLDATACOPY = (3, 0)"
| "closure_eff CODECOPY = (3, 0)"
| "closure_eff EXTCODESIZE = (1, 1)"
| "closure_eff EXTCODECOPY = (4, 0)"
| "closure_eff _ = (0, 1)"

fun store_eff :: "store_op \<Rightarrow> nat \<times> nat" where
  "store_eff POP = (1, 0)"
| "store_eff MLOAD = (1, 1)"
| "store_eff MSTORE = (2, 0)"
| "store_eff MSTORE8 = (2, 0)"
| "store_eff SLOAD = (1, 1)"
| "store_eff SSTORE = (2, 0)"
| "store_eff JUMPDEST = (0, 0)"
| "store_eff _ = (0, 1)"

fun call_eff :: "call_op \<Rightarrow> nat" where
  "call_eff CREATE = 3"
| "call_eff DELEGATECALL = 6"
| "call_eff _ = 7"

text \<open>How many items an instruction takes from the stack and how many it leaves.\<close>

fun eff :: "opcode \<Rightarrow> nat \<times> nat" where
  "eff (Arith a) = (arith_eff a, 1)"
| "eff (Bitwise b) = (bit_eff b, 1)"
| "eff (Closure c) = closure_eff c"
| "eff (Block b) = (if b = BLOCKHASH then 1 else 0, 1)"
| "eff (Store s) = store_eff s"
| "eff (Call c) = (call_eff c, 1)"
| "eff SHA3 = (2, 1)"
| "eff JUMP = (1, 0)"
| "eff JUMPI = (2, 0)"
| "eff RETURN = (2, 0)"
| "eff SUICIDE = (1, 0)"
| "eff STOP = (0, 0)"
| "eff (PUSH n) = (0, 1)"
| "eff (DUP n) = (n, n + 1)"
| "eff (SWAP n) = (n + 1, n + 1)"
| "eff (LOG n) = (n + 2, 0)"
| "eff (UNDEF b) = (0, 0)"

text \<open>The regions of memory that an instruction uses.\<close>

fun regions :: "opcode \<Rightarrow> int list \<Rightarrow> (int \<times> int) list" where
  "regions SHA3 st = [(st ! 0, st ! 1)]"
| "regions RETURN st = [(st ! 0, st ! 1)]"
| "regions (LOG n) st = [(st ! 0, st ! 1)]"
| "regions (Closure CALLDATACOPY) st = [(st ! 0, st ! 2)]"
| "regions (Closure CODECOPY) st = [(st ! 0, st ! 2)]"
| "regions (Closure EXTCODECOPY) st = [(st ! 1, st ! 3)]"
| "regions (Store MLOAD) st = [(st ! 0, 32)]"
| "regions (Store MSTORE) st = [(st ! 0, 32)]"
| "regions (Store MSTORE8) st = [(st ! 0, 1)]"
| "regions (Call CREATE) st = [(st ! 1, st ! 2)]"
| "regions (Call DELEGATECALL) st = [(st ! 2, st ! 3), (st ! 4, st ! 5)]"
| "regions (Call op) st = [(st ! 3, st ! 4), (st ! 5, st ! 6)]"
| "regions op st = []"

text \<open>
  The gas that an instruction takes at least, apart from the growth of the memory: one unit for an
  instruction after which the run goes on, and what a call passes on, with the stipend that a transfer
  of value adds. A creation reserves a unit for each of the two nonces it sets.
\<close>

fun passed :: "opcode \<Rightarrow> int list \<Rightarrow> int" where
  "passed (Call CREATE) st = 2"
| "passed (Call DELEGATECALL) st = st ! 0"
| "passed (Call op) st = st ! 0 + (if st ! 2 = 0 then 0 else CallStipend)"
| "passed op st = 0"

definition halting :: "opcode \<Rightarrow> bool" where
  "halting op \<longleftrightarrow> (case op of STOP \<Rightarrow> True | RETURN \<Rightarrow> True | SUICIDE \<Rightarrow> True | UNDEF _ \<Rightarrow> True | _ \<Rightarrow> False)"

definition least :: "opcode \<Rightarrow> int list \<Rightarrow> int" where
  "least op st = (if halting op then 0 else 1) + passed op st"

section \<open>The price of an instruction\<close>

definition charged ::
  "'s Environment \<Rightarrow> Contract \<Rightarrow> opcode \<Rightarrow> bytes \<Rightarrow> int list \<Rightarrow> 's \<Rightarrow> int \<times> int \<times> int list \<times> 's \<Rightarrow> bool" where
  "charged env con op mem st db r \<longleftrightarrow>
     (case r of (ms, cost, st', db') \<Rightarrow>
        fst (eff op) \<le> length st \<and> length st - fst (eff op) + snd (eff op) \<le> StackLimit \<and>
        0 \<le> ms \<and> (\<forall>(off, sz) \<in> set (regions op st'). 0 \<le> off \<and> 0 \<le> sz \<and> calcMemSize off sz \<le> ms) \<and>
        length st' = length st \<and>
        least op st' + grown mem ms \<le> cost \<and>
        (cost \<le> c_Gas con \<longrightarrow> (\<forall>x\<in>set st'. 0 \<le> x)) \<and>
        (db' = db \<or> (\<exists>g\<ge>0. db' = sdb_AddRefund (StateOps env) db g)))"

definition price_ok :: "'s Environment \<Rightarrow> Contract \<Rightarrow> opcode \<Rightarrow> bytes \<Rightarrow> int list \<Rightarrow> 's \<Rightarrow> bool" where
  "price_ok env con op mem st db \<longleftrightarrow>
     (\<exists>e. calculateGasAndSize env con op mem st db = Ret (Inl e)) \<or>
     (\<exists>r. calculateGasAndSize env con op mem st db = Ret (Inr r) \<and> charged env con op mem st db r)"

lemma grown_0 [simp]: "grown mem 0 = 0"
  by (simp add: grown_def)

lemma calcMemSize_nonneg: "0 \<le> off \<Longrightarrow> 0 \<le> sz \<Longrightarrow> 0 \<le> calcMemSize off sz"
  by (simp add: calcMemSize_def)

lemma priced_ok:
  assumes "0 \<le> sz"
  obtains ms where "priced mem sz gas st db = Ret (Inr (ms, gas + grown mem ms, st, db))" "sz \<le> ms" "0 \<le> ms"
  using quadMemGas_grown [OF assms, of mem gas] assms by (auto simp: priced_def)

lemma refund_ex [simp]: "\<exists>g\<ge>0. sdb_AddRefund ops db (numeral n) = sdb_AddRefund ops db g"
  by (rule exI [of _ "numeral n"]) simp

lemmas price_simps = price_ok_def calculateGasAndSize.simps baseCheck_def st_require_def need_def charged_def
  least_def halting_def StackLimit_def gas_prices Let_def Suc_le_eq

lemma price_arith: "length st \<le> StackLimit \<Longrightarrow> \<forall>x\<in>set st. 0 \<le> x \<Longrightarrow> price_ok env con (Arith a) mem st db"
  using cfg_GasTable_pos(7) [of "chainConfig env" "Some (BlockNumber env)"]
  by (cases a) (auto simp: price_simps env_gasTable_def)

lemma price_bit: "length st \<le> StackLimit \<Longrightarrow> \<forall>x\<in>set st. 0 \<le> x \<Longrightarrow> price_ok env con (Bitwise a) mem st db"
  by (cases a) (auto simp: price_simps)

lemma price_block: "length st \<le> StackLimit \<Longrightarrow> \<forall>x\<in>set st. 0 \<le> x \<Longrightarrow> price_ok env con (Block a) mem st db"
  by (cases a) (auto simp: price_simps)

lemma price_flow:
  assumes "length st \<le> StackLimit" "\<forall>x\<in>set st. 0 \<le> x"
  shows "price_ok env con JUMP mem st db" "price_ok env con JUMPI mem st db" "price_ok env con STOP mem st db"
    "price_ok env con (UNDEF b) mem st db" "price_ok env con (PUSH n) mem st db" "price_ok env con (DUP n) mem st db"
    "price_ok env con (SWAP n) mem st db"
  using assms by (auto simp: price_simps)

text \<open>An instruction that uses one region of the memory.\<close>

lemma price_region:
  assumes "calculateGasAndSize env con op mem st db = priced mem (calcMemSize off sz) g st db"
    and "regions op st = [(off, sz)]" "0 \<le> off" "0 \<le> sz" "least op st \<le> g" "\<forall>x\<in>set st. 0 \<le> x"
    and "fst (eff op) \<le> length st" "length st - fst (eff op) + snd (eff op) \<le> StackLimit"
  shows "price_ok env con op mem st db"
proof -
  obtain ms where "priced mem (calcMemSize off sz) g st db = Ret (Inr (ms, g + grown mem ms, st, db))"
    "calcMemSize off sz \<le> ms" "0 \<le> ms"
    using priced_ok [OF calcMemSize_nonneg [OF assms(3,4)]] by metis
  then show ?thesis using assms by (auto simp: price_ok_def charged_def)
qed

lemma toWordSize_price: "0 \<le> a \<Longrightarrow> 0 \<le> (c :: int) \<Longrightarrow> 0 \<le> toWordSize a * c"
  by (simp add: toWordSize_nonneg)

lemma price_memory:
  assumes l: "length st \<le> StackLimit" and p: "\<forall>x\<in>set st. 0 \<le> x"
    and op: "op \<in> {SHA3, RETURN, Closure CALLDATACOPY, Closure CODECOPY, Closure EXTCODECOPY, Store MLOAD,
      Store MSTORE, Store MSTORE8, Call CREATE} \<or> (\<exists>n. op = LOG n)"
  shows "price_ok env con op mem st db"
proof (cases "fst (eff op) \<le> length st")
  case False
  then show ?thesis using op by (auto simp: price_ok_def calculateGasAndSize.simps baseCheck_def st_require_def Suc_le_eq)
next
  case True
  have "st \<noteq> []" using True op by auto
  then have h: "0 \<le> st ! 0" using p by (simp add: nth_mem)
  have w: "4 \<le> length st \<Longrightarrow> 0 \<le> toWordSize (st ! 3)" using p by (simp add: toWordSize_nonneg)
  note [simp] = calculateGasAndSize.simps baseCheck_def st_require_def need_def StackLimit_def Let_def
    least_def halting_def gas_prices toWordSize_price
  have x: "20 \<le> ExtcodeCopy (env_gasTable env)" by (simp add: env_gasTable_def cfg_GasTable_pos)
  from op consider "op = SHA3" | "op = RETURN" | "op = Closure CALLDATACOPY" | "op = Closure CODECOPY"
    | "op = Closure EXTCODECOPY" | "op = Store MLOAD" | "op = Store MSTORE" | "op = Store MSTORE8"
    | "op = Call CREATE" | n where "op = LOG n" by blast
  then show ?thesis
    by cases (use True l p x h w in \<open>auto intro!: price_region simp: Suc_le_eq add_nonneg_nonneg\<close>)
qed

lemma price_closure:
  assumes "length st \<le> StackLimit" "\<forall>x\<in>set st. 0 \<le> x"
  shows "price_ok env con (Closure c) mem st db"
proof (cases "c \<in> {CALLDATACOPY, CODECOPY, EXTCODECOPY}")
  case True
  then show ?thesis by (intro price_memory assms) auto
next
  case False
  have "20 \<le> gt_Balance (env_gasTable env)" "20 \<le> ExtcodeSize (env_gasTable env)"
    by (simp_all add: env_gasTable_def cfg_GasTable_pos)
  with False show ?thesis using assms by (cases c) (auto simp: price_simps)
qed

lemma price_store:
  assumes "length st \<le> StackLimit" "\<forall>x\<in>set st. 0 \<le> x"
  shows "price_ok env con (Store c) mem st db"
proof (cases "c \<in> {MLOAD, MSTORE, MSTORE8}")
  case True
  then show ?thesis by (intro price_memory assms) auto
next
  case False
  have "50 \<le> SLoad (env_gasTable env)" by (simp add: env_gasTable_def cfg_GasTable_pos)
  with False show ?thesis using assms by (cases c) (auto simp: price_simps sstore_price_def)
qed

lemma price_suicide:
  assumes "length st \<le> StackLimit" "\<forall>x\<in>set st. 0 \<le> x"
  shows "price_ok env con SUICIDE mem st db"
proof -
  have "0 \<le> gt_Suicide (env_gasTable env)" by (simp add: env_gasTable_def cfg_GasTable_pos)
  moreover have "CreateBySuicide (env_gasTable env) = Some g \<Longrightarrow> g = 25000" for g
    using cfg_GasTable_pos(8) by (simp add: env_gasTable_def)
  ultimately show ?thesis using assms
    by (cases "CreateBySuicide (env_gasTable env)") (auto simp: price_simps suicide_price_def)
qed

text \<open>
  A call. Where the gas it asks for is capped, the cap is negative when the base price exceeds the gas,
  and then the price exceeds the gas as well.
\<close>

lemma callGas_nonneg:
  assumes "base + callGas gt avail base cost \<le> avail" "0 \<le> cost"
  shows "0 \<le> callGas gt avail base cost"
proof (rule ccontr)
  assume n: "\<not> ?thesis"
  define a where "a = avail - base"
  have c: "callGas gt avail base cost = a - a div 64" "a - a div 64 < 0"
    using n assms(2) by (auto simp: callGas_def a_def Let_def split: if_splits)
  have "a < 0"
  proof (rule ccontr)
    assume "\<not> a < 0"
    then have "a div 64 \<le> a" by presburger
    with c show False by simp
  qed
  then have "a div 64 < 0" by simp
  with assms(1) c show False by (simp add: a_def)
qed

lemma call_extra_ge:
  assumes "0 \<le> st ! 2"
  shows "gas + (if st ! 2 = 0 then 0 else CallStipend) \<le> call_extra env op st db gas"
proof -
  have "big_BitLen (st ! 2) > 0 \<longleftrightarrow> st ! 2 \<noteq> 0" by (simp add: big_BitLen_def bit_len.simps [of "nat _"])
  then show ?thesis by (simp add: call_extra_def Let_def gas_prices)
qed

lemma price_call:
  assumes l: "length st \<le> StackLimit" and p: "\<forall>x\<in>set st. 0 \<le> x" and c: "c \<noteq> CREATE"
  shows "price_ok env con (Call c) mem st db"
proof (cases "call_eff c \<le> length st")
  case False
  then show ?thesis using c by (cases c) (auto simp: price_ok_def calculateGasAndSize.simps baseCheck_def st_require_def)
next
  case True
  define gt where "gt = env_gasTable env"
  define base where "base = (if c = DELEGATECALL then Calls gt else call_extra env c st db (Calls gt))"
  define x where "x = (if c = DELEGATECALL then calcMemSize (st ! 4) (st ! 5) else calcMemSize (st ! 5) (st ! 6))"
  define y where "y = (if c = DELEGATECALL then calcMemSize (st ! 2) (st ! 3) else calcMemSize (st ! 3) (st ! 4))"
  have nth: "0 \<le> st ! i" if "i < call_eff c" for i using that True p by simp
  have xy: "0 \<le> x" "0 \<le> y" using nth c by (cases c; simp add: x_def y_def calcMemSize_nonneg)+
  have "0 \<le> BigMax x y" using xy by (simp add: BigMax_def)
  then obtain ms where q: "quadMemGas mem (BigMax x y) base = (ms, base + grown mem ms)" "BigMax x y \<le> ms"
    using quadMemGas_grown by blast
  define cg where "cg = callGas gt (c_Gas con) (base + grown mem ms) (st ! 0)"
  have calc: "calculateGasAndSize env con (Call c) mem st db =
      Ret (Inr (ms, base + grown mem ms + cg, st[0 := cg], db))"
    using True c l q(1) unfolding cg_def x_def y_def base_def gt_def
    by (cases c) (auto simp: calculateGasAndSize.simps baseCheck_def st_require_def call_price_def need_def StackLimit_def Let_def)
  have b: "1 + (if c = DELEGATECALL \<or> st ! 2 = 0 then 0 else CallStipend) \<le> base"
  proof -
    have "40 \<le> Calls gt" by (simp add: gt_def env_gasTable_def cfg_GasTable_pos)
    then show ?thesis using call_extra_ge [of st "Calls gt" env c db] nth [of 2] c
      by (cases c) (auto simp: base_def)
  qed
  have m: "x \<le> ms" "y \<le> ms" "0 \<le> ms" using q(2) xy by (auto simp: BigMax_def split: if_splits)
  have cg: "0 \<le> cg" if "base + grown mem ms + cg \<le> c_Gas con"
    using that nth [of 0] c unfolding cg_def by (intro callGas_nonneg) (cases c; simp)+
  have "st \<noteq> []" using True by (cases c) auto
  then have h: "st[0 := cg] ! 0 = cg" by simp
  have "charged env con (Call c) mem st db (ms, base + grown mem ms + cg, st[0 := cg], db)"
    using True c l b m nth p cg h
    by (cases c) (auto simp: charged_def least_def halting_def StackLimit_def x_def y_def dest!: set_update_subset_insert [THEN subsetD])
  with calc show ?thesis by (auto simp: price_ok_def)
qed

theorem price_ok_all:
  assumes "length st \<le> StackLimit" "\<forall>x\<in>set st. 0 \<le> x"
  shows "price_ok env con op mem st db"
proof (cases op)
  case (Call c)
  then show ?thesis by (cases "c = CREATE") (auto intro: price_call [OF assms] price_memory [OF assms])
qed (use assms in \<open>simp_all add: price_arith price_bit price_block price_closure price_store price_flow price_suicide
  price_memory\<close>)

end
