(* ===== verification/VM_Safe.thy ===== *)
theory VM_Safe
  imports VM_Price
begin

text \<open>
  Safety of the virtual machine. The interface \<open>vm_state\<close> collects what the machine relies on in the
  state database; from it follow, for every contract, that a run returns once its fuel exceeds its
  gas, that it never panics, that it never gains gas, and that a failed call leaves no trace in the
  state.
\<close>

section \<open>Instructions on the stack alone\<close>

lemma arith_eff_pos [simp]: "arith_eff a \<noteq> 0" by (cases a) simp_all

lemma bit_eff_pos [simp]: "bit_eff b \<noteq> 0" by (cases b) simp_all

lemma le_lengths:
  "Suc 0 \<le> length st \<longleftrightarrow> (\<exists>a r. st = a # r)"
  "2 \<le> length st \<longleftrightarrow> (\<exists>a b r. st = a # b # r)"
  "3 \<le> length st \<longleftrightarrow> (\<exists>a b c r. st = a # b # c # r)"
  "4 \<le> length st \<longleftrightarrow> (\<exists>a b c d r. st = a # b # c # d # r)"
  "6 \<le> length st \<longleftrightarrow> (\<exists>a b c d e f r. st = a # b # c # d # e # f # r)"
  "7 \<le> length st \<longleftrightarrow> (\<exists>a b c d e f g r. st = a # b # c # d # e # f # g # r)"
  by (auto simp: Suc_le_length_iff numeral_eq_Suc)

lemma exec_arith_ok:
  assumes "arith_eff a \<le> length st" "\<forall>x\<in>set st. 0 \<le> x"
  shows "\<exists>r. exec_arith a st = Ret r \<and> length r = length st - arith_eff a + 1 \<and> (\<forall>x\<in>set r. 0 \<le> x)"
  using assms
  by (cases "(a, st)" rule: exec_arith.cases)
    (auto simp: opAdd_def opSub_def opMul_def opDiv_def opSdiv_def opMod_def opSmod_def opExp_def Exp_eq tt256_pos
      opSignExtend_def opAddmod_def opMulmod_def Let_def split: list.splits)

lemma exec_bitwise_ok:
  assumes "bit_eff b \<le> length st" "\<forall>x\<in>set st. 0 \<le> x"
  shows "\<exists>r. exec_bitwise b st = Ret r \<and> length r = length st - bit_eff b + 1 \<and> (\<forall>x\<in>set r. 0 \<le> x)"
  using assms
  by (cases "(b, st)" rule: exec_bitwise.cases)
    (auto simp: opLt_def opGt_def opSlt_def opSgt_def opEq_def opIszero_def opAnd_def opOr_def opXor_def opNot_def
      opByte_def Let_def)

lemma BytesToBig_nonneg [simp]: "0 \<le> BytesToBig b"
  by (simp add: BytesToBig_def)

lemma exec_block_ok:
  assumes "fst (eff (Block b)) \<le> length st" "\<forall>x\<in>set st. 0 \<le> x"
  shows "\<exists>r. exec_block env b st = Ret r \<and> length r = length st - fst (eff (Block b)) + 1 \<and> (\<forall>x\<in>set r. 0 \<le> x)"
  using assms by (cases b) (auto simp: opBlockhash_def Let_def split: list.splits)

section \<open>The interface to the state\<close>

text \<open>A bound of the balances of all accounts together.\<close>

definition supply_le :: "'s StateDB \<Rightarrow> 's \<Rightarrow> int \<Rightarrow> bool" where
  "supply_le ops db T \<longleftrightarrow> (\<forall>A. finite A \<longrightarrow> sum (sdb_GetBalance ops db) A \<le> T)"

text \<open>
  How a state may change while \<open>k\<close> units of gas are used: the invariant holds, snapshots stay valid,
  solid accounts stay solid, nonces do not fall to zero and grow by at most \<open>k\<close>, and the balances of
  all accounts together do not grow.
\<close>

definition evolves ::
  "'s StateDB \<Rightarrow> ('s \<Rightarrow> bool) \<Rightarrow> ('s \<Rightarrow> nat \<Rightarrow> 'v option) \<Rightarrow> ('s \<Rightarrow> address \<Rightarrow> bool) \<Rightarrow> int \<Rightarrow> 's \<Rightarrow> 's \<Rightarrow> bool" where
  "evolves ops I saved solid k db db' \<longleftrightarrow>
     I db' \<and>
     (\<forall>n v. saved db n = Some v \<longrightarrow> saved db' n = Some v) \<and>
     (\<forall>a. solid db a \<longrightarrow> solid db' a) \<and>
     (\<forall>a. sdb_GetNonce ops db a \<noteq> 0 \<longrightarrow> sdb_GetNonce ops db' a \<noteq> 0) \<and>
     (\<forall>B. (\<forall>a. uint (sdb_GetNonce ops db a) \<le> B) \<longrightarrow> (\<forall>a. uint (sdb_GetNonce ops db' a) \<le> B + k)) \<and>
     (\<forall>T. supply_le ops db T \<longrightarrow> supply_le ops db' T)"

lemma evolves_refl: "I db \<Longrightarrow> 0 \<le> k \<Longrightarrow> evolves ops I saved solid k db db"
  by (auto simp: evolves_def intro: order_trans)

lemma evolves_trans:
  assumes "evolves ops I saved solid k db db'" "evolves ops I saved solid l db' db''" "k + l \<le> m"
  shows "evolves ops I saved solid m db db''"
proof -
  have "uint (sdb_GetNonce ops db'' a) \<le> B + m" if "\<forall>a. uint (sdb_GetNonce ops db a) \<le> B" for a B
  proof -
    have "\<forall>a. uint (sdb_GetNonce ops db' a) \<le> B + k" using assms(1) that by (simp add: evolves_def)
    then have "\<forall>a. uint (sdb_GetNonce ops db'' a) \<le> B + k + l" using assms(2) by (simp add: evolves_def)
    then show ?thesis using assms(3) by (smt (verit))
  qed
  then show ?thesis using assms(1,2) by (auto simp: evolves_def)
qed

text \<open>
  The interface: a state with an invariant, the part \<open>view\<close> of it that a revert restores, the views
  \<open>saved\<close> under the identifiers of the valid snapshots, and the accounts that are \<open>solid\<close>, that is, that
  have a nonce or code. EIP 158 is in force, so that a contract has a nonce from its creation on.
\<close>

locale vm_state =
  fixes env :: "'s Environment"
    and I :: "'s \<Rightarrow> bool"
    and view :: "'s \<Rightarrow> 'v"
    and saved :: "'s \<Rightarrow> nat \<Rightarrow> 'v option"
    and solid :: "'s \<Rightarrow> address \<Rightarrow> bool"
  assumes eip158: "I db \<Longrightarrow> IsEIP158 (chainConfig env) (Some (BlockNumber env))"
    and keccak_length: "I db \<Longrightarrow> length (Keccak256 env x) = 32"
    and ecrecover_key: "I db \<Longrightarrow> Ecrecover env h s = Some p \<Longrightarrow> p \<noteq> []"
    and gas_price: "I db \<Longrightarrow> 0 \<le> GasPrice env"
    and balance_nonneg: "I db \<Longrightarrow> 0 \<le> sdb_GetBalance (StateOps env) db a"
    and code_size_nonneg: "I db \<Longrightarrow> 0 \<le> sdb_GetCodeSize (StateOps env) db a"
    and code_solid: "I db \<Longrightarrow> sdb_GetCode (StateOps env) db a \<noteq> [] \<Longrightarrow> solid db a"
    and nonce_solid: "I db \<Longrightarrow> sdb_GetNonce (StateOps env) db a \<noteq> 0 \<Longrightarrow> solid db a"
    and view_obs: "I db \<Longrightarrow> view db = view db' \<Longrightarrow>
      solid db = solid db' \<and> sdb_GetNonce (StateOps env) db = sdb_GetNonce (StateOps env) db' \<and>
      sdb_GetBalance (StateOps env) db = sdb_GetBalance (StateOps env) db'"
    and can_transfer: "I db \<Longrightarrow> CanTransfer env db a v \<longleftrightarrow> v \<le> sdb_GetBalance (StateOps env) db a"
    and add_refund: "I db \<Longrightarrow> 0 \<le> g \<Longrightarrow>
      evolves (StateOps env) I saved solid 0 db (sdb_AddRefund (StateOps env) db g)"
    and add_log: "I db \<Longrightarrow> evolves (StateOps env) I saved solid 0 db (sdb_AddLog (StateOps env) db l)"
    and set_state: "I db \<Longrightarrow> solid db a \<Longrightarrow>
      evolves (StateOps env) I saved solid 0 db (sdb_SetState (StateOps env) db a key val)"
    and suicide: "I db \<Longrightarrow> solid db a \<Longrightarrow>
      evolves (StateOps env) I saved solid 0 db
        (sdb_Suicide (StateOps env) (sdb_AddBalance (StateOps env) db r (sdb_GetBalance (StateOps env) db a)) a)"
    and set_code: "I db \<Longrightarrow> sdb_GetNonce (StateOps env) db a \<noteq> 0 \<Longrightarrow>
      evolves (StateOps env) I saved solid 0 db (sdb_SetCode (StateOps env) db a code)"
    and set_nonce: "I db \<Longrightarrow> sdb_GetNonce (StateOps env) db a + 1 \<noteq> 0 \<Longrightarrow>
      evolves (StateOps env) I saved solid 1 db
        (sdb_SetNonce (StateOps env) db a (sdb_GetNonce (StateOps env) db a + 1))"
    and set_nonce_obs: "I db \<Longrightarrow>
      sdb_GetNonce (StateOps env) (sdb_SetNonce (StateOps env) db a nn) a = nn \<and>
      sdb_GetBalance (StateOps env) (sdb_SetNonce (StateOps env) db a nn) = sdb_GetBalance (StateOps env) db"
    and begin_call: "I db \<Longrightarrow> solid db c \<Longrightarrow> 0 \<le> v \<Longrightarrow> v \<le> sdb_GetBalance (StateOps env) db c \<Longrightarrow>
      evolves (StateOps env) I saved solid 0 db
        (Transfer env (if \<not> sdb_Exist (StateOps env) db a then sdb_CreateAccount (StateOps env) db a else db) c a v)"
    and begin_create: "I db \<Longrightarrow> solid db c \<Longrightarrow> 0 \<le> v \<Longrightarrow> v \<le> sdb_GetBalance (StateOps env) db c \<Longrightarrow>
      db' = Transfer env (sdb_SetNonce (StateOps env) (sdb_CreateAccount (StateOps env) db a) a 1) c a v \<Longrightarrow>
      evolves (StateOps env) I saved solid 1 db db' \<and> sdb_GetNonce (StateOps env) db' a \<noteq> 0"
    and snapshot: "I db \<Longrightarrow> sdb_Snapshot (StateOps env) db = (n, db') \<Longrightarrow>
      I db' \<and> view db' = view db \<and> saved db' n = Some (view db) \<and>
      (\<forall>m v. saved db m = Some v \<longrightarrow> m < n \<and> saved db' m = Some v)"
    and revert: "I db \<Longrightarrow> saved db n = Some old \<Longrightarrow>
      \<exists>db'. sdb_RevertToSnapshot (StateOps env) db n = Ret db' \<and> I db' \<and> view db' = old \<and>
        (\<forall>m w. m < n \<longrightarrow> saved db m = Some w \<longrightarrow> saved db' m = Some w)"

section \<open>Frames\<close>

text \<open>
  The invariant of a running contract. The memory fee and the gas together stay below the range of
  machine integers, and every nonce has room for the increments that the gas can pay.
\<close>

definition nonce_room :: "'s StateDB \<Rightarrow> 's \<Rightarrow> int \<Rightarrow> bool" where
  "nonce_room ops db gas \<longleftrightarrow> (\<forall>a. uint (sdb_GetNonce ops db a) + gas < 2 ^ 64)"

definition frame_ok :: "'s StateDB \<Rightarrow> ('s \<Rightarrow> bool) \<Rightarrow> ('s \<Rightarrow> address \<Rightarrow> bool) \<Rightarrow> 's frame \<Rightarrow> bool" where
  "frame_ok ops I solid f \<longleftrightarrow>
     I (f_db f) \<and> length (f_stk f) \<le> StackLimit \<and> (\<forall>x\<in>set (f_stk f). 0 \<le> x) \<and>
     0 \<le> c_Gas (f_con f) \<and> fee (f_mem f) + c_Gas (f_con f) < 2 ^ 63 \<and> 0 \<le> c_value (f_con f) \<and>
     solid (f_db f) (c_self (f_con f)) \<and> nonce_room ops (f_db f) (c_Gas (f_con f))"

text \<open>What an instruction needs once it is paid for, and what it leaves.\<close>

definition ready :: "('s \<Rightarrow> bool) \<Rightarrow> ('s \<Rightarrow> address \<Rightarrow> bool) \<Rightarrow> opcode \<Rightarrow> 's frame \<Rightarrow> bool" where
  "ready I solid op f \<longleftrightarrow>
     I (f_db f) \<and> fst (eff op) \<le> length (f_stk f) \<and> (\<forall>x\<in>set (f_stk f). 0 \<le> x) \<and>
     0 \<le> c_Gas (f_con f) \<and> 0 \<le> c_value (f_con f) \<and> solid (f_db f) (c_self (f_con f)) \<and>
     int (length (f_mem f)) < 2 ^ 42 \<and> (\<forall>r\<in>set (regions op (f_stk f)). covered (f_mem f) r)"

definition left ::
  "'s StateDB \<Rightarrow> ('s \<Rightarrow> bool) \<Rightarrow> ('s \<Rightarrow> nat \<Rightarrow> 'v option) \<Rightarrow> ('s \<Rightarrow> address \<Rightarrow> bool) \<Rightarrow>
   nat \<Rightarrow> int \<Rightarrow> 's frame \<Rightarrow> 's frame \<Rightarrow> bool" where
  "left ops I saved solid n given f f' \<longleftrightarrow>
     length (f_stk f') = n \<and> (\<forall>x\<in>set (f_stk f'). 0 \<le> x) \<and> length (f_mem f') = length (f_mem f) \<and>
     c_self (f_con f') = c_self (f_con f) \<and> c_value (f_con f') = c_value (f_con f) \<and>
     0 \<le> c_Gas (f_con f') \<and> c_Gas (f_con f') \<le> c_Gas (f_con f) + given \<and>
     evolves ops I saved solid (given + c_Gas (f_con f) - c_Gas (f_con f')) (f_db f) (f_db f')"

lemma left_stack:
  assumes "I (f_db f)" "0 \<le> c_Gas (f_con f)" "length st = n" "\<forall>x\<in>set st. 0 \<le> x"
  shows "left ops I saved solid n 0 f (f\<lparr>f_stk := st\<rparr>)"
  using assms by (simp add: left_def evolves_refl)

context vm_state
begin

lemma stack_instr:
  assumes "exec = Ret st" "ready I solid op f" "length st = length (f_stk f) - fst (eff op) + snd (eff op)"
    "\<forall>x\<in>set st. 0 \<le> x"
  shows "\<exists>f'. lift_stack f exec = Ret f' \<and>
    left (StateOps env) I saved solid (length (f_stk f) - fst (eff op) + snd (eff op)) 0 f f'"
  using assms by (auto simp: lift_stack_def ready_def intro!: left_stack)

lemma exec_stack_left:
  "ready I solid (Arith a) f \<Longrightarrow> \<exists>f'. lift_stack f (exec_arith a (f_stk f)) = Ret f' \<and>
    left (StateOps env) I saved solid (length (f_stk f) - arith_eff a + 1) 0 f f'"
  "ready I solid (Bitwise b) f \<Longrightarrow> \<exists>f'. lift_stack f (exec_bitwise b (f_stk f)) = Ret f' \<and>
    left (StateOps env) I saved solid (length (f_stk f) - bit_eff b + 1) 0 f f'"
  "ready I solid (Block c) f \<Longrightarrow> \<exists>f'. lift_stack f (exec_block env c (f_stk f)) = Ret f' \<and>
    left (StateOps env) I saved solid (length (f_stk f) - fst (eff (Block c)) + 1) 0 f f'"
  using exec_arith_ok [of a "f_stk f"] exec_bitwise_ok [of b "f_stk f"] exec_block_ok [of c "f_stk f" env]
    stack_instr [of _ _ "Arith a" f] stack_instr [of _ _ "Bitwise b" f] stack_instr [of _ _ "Block c" f]
  by (auto simp: ready_def)

lemma copy_to_mem_left:
  assumes "covered (f_mem f) (mOff, l)" "int (length (f_mem f)) < 2 ^ 42" "I (f_db f)" "0 \<le> c_Gas (f_con f)"
    "length st = n" "\<forall>x\<in>set st. 0 \<le> x"
  shows "\<exists>f'. copy_to_mem f dat mOff cOff l st = Ret f' \<and> left (StateOps env) I saved solid n 0 f f'"
  using mem_Set_covered [OF assms(1,2), of "getData dat cOff l"] assms
  by (auto simp: copy_to_mem_def left_def evolves_refl)

lemma exec_closure_left:
  assumes "ready I solid (Closure c) f"
  shows "\<exists>f'. exec_closure env c f = Ret f' \<and>
    left (StateOps env) I saved solid (length (f_stk f) - fst (closure_eff c) + snd (closure_eff c)) 0 f f'"
proof -
  have r: "I (f_db f)" "0 \<le> c_Gas (f_con f)" "0 \<le> c_value (f_con f)" "\<forall>x\<in>set (f_stk f). 0 \<le> x"
    "int (length (f_mem f)) < 2 ^ 42" "fst (closure_eff c) \<le> length (f_stk f)"
    "\<forall>r\<in>set (regions (Closure c) (f_stk f)). covered (f_mem f) r"
    using assms by (auto simp: ready_def)
  show ?thesis
    using r balance_nonneg [OF r(1)] code_size_nonneg [OF r(1)] gas_price [OF r(1)]
    by (cases c) (auto intro!: left_stack copy_to_mem_left simp: le_lengths)
qed

lemma opSha3_left:
  assumes "ready I solid SHA3 f"
  shows "\<exists>f'. opSha3 env f = Ret f' \<and> left (StateOps env) I saved solid (length (f_stk f) - 2 + 1) 0 f f'"
proof -
  obtain off sz st where st: "f_stk f = off # sz # st" using assms by (auto simp: ready_def le_lengths)
  then obtain d where "mem_Get (f_mem f) (big_Int64 off) (big_Int64 sz) = Ret d"
    using assms mem_Get_covered(1) [of "f_mem f" off sz] by (auto simp: ready_def)
  then show ?thesis using assms st by (auto simp: opSha3_def ready_def intro!: left_stack)
qed

lemma mem_Set_32: "covered mem (off, 32) \<Longrightarrow> int (length mem) < 2 ^ 42 \<Longrightarrow>
    \<exists>m. mem_Set mem (big_Uint64 off) 32 val = Ret m \<and> length m = length mem"
  using mem_Set_covered [of mem off 32 val] by (simp add: big_Uint64_def)

lemma mem_Get_32: "covered mem (off, 32) \<Longrightarrow> int (length mem) < 2 ^ 42 \<Longrightarrow>
    \<exists>d. mem_Get mem (big_Int64 off) 32 = Ret d"
  using mem_Get_covered(1) [of mem off 32] by (simp add: big_Int64_id)

lemma opMstore8_left:
  assumes "covered (f_mem f) (off, 1)" "int (length (f_mem f)) < 2 ^ 42" "I (f_db f)" "0 \<le> c_Gas (f_con f)"
    "f_stk f = off # val # st" "\<forall>x\<in>set st. 0 \<le> x" "length st = n"
  shows "\<exists>f'. opMstore8 f = Ret f' \<and> left (StateOps env) I saved solid n 0 f f'"
  using assms(1,2) by (cases rule: covered_cases) (use assms in \<open>auto simp: opMstore8_def Let_def left_def evolves_refl\<close>)

lemma exec_store_left:
  assumes "ready I solid (Store c) f"
  shows "\<exists>f'. exec_store env c f = Ret f' \<and>
    left (StateOps env) I saved solid (length (f_stk f) - fst (store_eff c) + snd (store_eff c)) 0 f f'"
proof -
  have r: "I (f_db f)" "0 \<le> c_Gas (f_con f)" "\<forall>x\<in>set (f_stk f). 0 \<le> x" "solid (f_db f) (c_self (f_con f))"
    "int (length (f_mem f)) < 2 ^ 42" "fst (store_eff c) \<le> length (f_stk f)"
    "\<forall>r\<in>set (regions (Store c) (f_stk f)). covered (f_mem f) r"
    using assms by (auto simp: ready_def)
  show ?thesis
  proof (cases c)
    case MLOAD
    then obtain off st where st: "f_stk f = off # st" using r by (auto simp: le_lengths)
    then obtain d where "mem_Get (f_mem f) (big_Int64 off) 32 = Ret d" using r MLOAD mem_Get_32 by fastforce
    then show ?thesis using r st MLOAD by (auto simp: opMload_def intro!: left_stack)
  next
    case MSTORE
    then obtain off val st where st: "f_stk f = off # val # st" using r by (auto simp: le_lengths)
    then obtain m where "mem_Set (f_mem f) (big_Uint64 off) 32 (BigToBytes val 256) = Ret m" "length m = length (f_mem f)"
      using r MSTORE mem_Set_32 [of "f_mem f" off] by fastforce
    then show ?thesis using r st MSTORE by (auto simp: opMstore_def left_def evolves_refl)
  next
    case MSTORE8
    then obtain off val st where st: "f_stk f = off # val # st" using r by (auto simp: le_lengths)
    then show ?thesis using r MSTORE8 opMstore8_left [of f off val st] by auto
  next
    case SSTORE
    then obtain loc val st where st: "f_stk f = loc # val # st" using r by (auto simp: le_lengths)
    then show ?thesis using r SSTORE set_state [OF r(1,4)] by (auto simp: opSstore_def left_def)
  qed (use r in \<open>auto simp: le_lengths opSload_def left_def evolves_refl\<close>)
qed

lemma makePush_left:
  assumes "ready I solid (PUSH n) f"
  shows "\<exists>f'. makePush n f = Ret f' \<and> left (StateOps env) I saved solid (length (f_stk f) + 1) 0 f f'"
  using assms by (auto simp: makePush_def ready_def left_def evolves_refl)

lemma makeDup_left:
  assumes "ready I solid (DUP n) f" "n \<noteq> 0"
  shows "\<exists>f'. makeDup n f = Ret f' \<and> left (StateOps env) I saved solid (length (f_stk f) + 1) 0 f f'"
  using assms by (auto simp: makeDup_def st_dup_def ready_def left_def evolves_refl)

lemma makeSwap_left:
  assumes "ready I solid (SWAP n) f"
  shows "\<exists>f'. makeSwap n f = Ret f' \<and> left (StateOps env) I saved solid (length (f_stk f)) 0 f f'"
  using assms
  by (auto simp: makeSwap_def st_swap_def ready_def left_def evolves_refl
      dest!: set_update_subset_insert [THEN subsetD])

lemma makeLog_left:
  assumes "ready I solid (LOG n) f"
  shows "\<exists>f'. makeLog env n f = Ret f' \<and> left (StateOps env) I saved solid (length (f_stk f) - (n + 2)) 0 f f'"
proof -
  obtain off sz st where st: "f_stk f = off # sz # st"
    using assms by (cases "f_stk f"; cases "tl (f_stk f)") (auto simp: ready_def)
  then obtain d where "mem_Get (f_mem f) (big_Int64 off) (big_Int64 sz) = Ret d"
    using assms mem_Get_covered(1) [of "f_mem f" off sz] by (auto simp: ready_def)
  then show ?thesis using assms st add_log [of "f_db f"]
    by (auto simp: makeLog_def ready_def left_def dest: in_set_dropD)
qed

end

section \<open>Calls\<close>

text \<open>
  A function that runs contracts does so safely for contracts with at most \<open>G\<close> gas: it returns, does
  not gain gas, and the state evolves with the gas used.
\<close>

definition runs ::
  "'s StateDB \<Rightarrow> ('s \<Rightarrow> bool) \<Rightarrow> ('s \<Rightarrow> nat \<Rightarrow> 'v option) \<Rightarrow> ('s \<Rightarrow> address \<Rightarrow> bool) \<Rightarrow> int \<Rightarrow> 's runner \<Rightarrow> bool" where
  "runs ops I saved solid G run \<longleftrightarrow>
     (\<forall>depth db con input.
        I db \<longrightarrow> 0 \<le> c_Gas con \<longrightarrow> c_Gas con \<le> G \<longrightarrow> c_Gas con < 2 ^ 63 \<longrightarrow> 0 \<le> c_value con \<longrightarrow>
        (c_Code con \<noteq> [] \<longrightarrow> solid db (c_self con)) \<longrightarrow> nonce_room ops db (c_Gas con) \<longrightarrow>
        (\<exists>ret err con' db'. run depth db con input = Ret (ret, err, con', db') \<and>
           0 \<le> c_Gas con' \<and> c_Gas con' \<le> c_Gas con \<and>
           evolves ops I saved solid (c_Gas con - c_Gas con') db db'))"

text \<open>A reference after \<open>g\<close> units of gas have been returned to it.\<close>

definition refunded :: "ContractRef \<Rightarrow> int \<Rightarrow> ContractRef \<Rightarrow> bool" where
  "refunded r g r' \<longleftrightarrow>
     (case r of
        RefAccount a \<Rightarrow> r' = RefAccount a
      | RefContract c \<Rightarrow> \<exists>d. r' = RefContract (c\<lparr>c_Gas := c_Gas c + g, c_jumpdests := d\<rparr>))"

lemma refunded_ReturnGas: "refunded r g (ref_ReturnGas r g)"
proof (cases r)
  case (RefContract c)
  then show ?thesis
    unfolding refunded_def ref_ReturnGas_def c_ReturnGas_def
    by (cases c) (auto intro!: exI [of _ "c_jumpdests c"])
qed (simp add: refunded_def ref_ReturnGas_def)

lemma refunded_Finalise: "refunded r (c_Gas con) (Finalise r con)"
  by (cases r) (auto simp: refunded_def Finalise_def ref_ReturnGas_def c_ReturnGas_def)

lemma UseAllGas_gas [simp]: "c_Gas (UseAllGas con) = 0"
  by (simp add: UseAllGas_def UseGas_def useGas_def)

text \<open>The result of a call: gas comes back, and after an error the state looks as before.\<close>

definition called ::
  "'s StateDB \<Rightarrow> ('s \<Rightarrow> bool) \<Rightarrow> ('s \<Rightarrow> 'v) \<Rightarrow> ('s \<Rightarrow> nat \<Rightarrow> 'v option) \<Rightarrow> ('s \<Rightarrow> address \<Rightarrow> bool) \<Rightarrow>
   ContractRef \<Rightarrow> int \<Rightarrow> 's \<Rightarrow> 's called \<Rightarrow> bool" where
  "called ops I view saved solid caller gas db r \<longleftrightarrow>
     (\<exists>ret err caller' db' g. r = Ret (ret, err, caller', db') \<and> 0 \<le> g \<and> g \<le> gas \<and> refunded caller g caller' \<and>
        evolves ops I saved solid (gas - g) db db' \<and> (err \<noteq> None \<longrightarrow> view db' = view db))"

context vm_state
begin

lemma view_evolves:
  assumes "I db'" "view db' = view db" "\<forall>m v. saved db m = Some v \<longrightarrow> saved db' m = Some v" "0 \<le> k"
  shows "evolves (StateOps env) I saved solid k db db'"
proof -
  have "solid db' = solid db" "sdb_GetNonce (StateOps env) db' = sdb_GetNonce (StateOps env) db"
    "sdb_GetBalance (StateOps env) db' = sdb_GetBalance (StateOps env) db"
    using view_obs [OF assms(1,2)] by auto
  then show ?thesis using assms by (auto simp: evolves_def supply_le_def intro: order_trans)
qed

lemma evolves_same: "I db \<Longrightarrow> 0 \<le> k \<Longrightarrow> evolves (StateOps env) I saved solid k db db"
  by (rule evolves_refl)

lemma snapshot_evolves:
  assumes "I db" "sdb_Snapshot (StateOps env) db = (n, db')"
  shows "evolves (StateOps env) I saved solid 0 db db'"
  using snapshot [OF assms] by (intro view_evolves) auto

lemma called_unchanged:
  assumes "I db" "0 \<le> gas" "view db' = view db" "evolves (StateOps env) I saved solid 0 db db'"
  shows "called (StateOps env) I view saved solid caller gas db (Ret (ret, err, ref_ReturnGas caller gas, db'))"
  using assms refunded_ReturnGas unfolding called_def by fastforce

text \<open>A failed run is reverted to the snapshot, also past the snapshots that were taken in it.\<close>

lemma revert_restores:
  assumes "I db" "sdb_Snapshot (StateOps env) db = (n, db1)" "evolves (StateOps env) I saved solid k db1 db2" "0 \<le> l"
  shows "\<exists>db'. sdb_RevertToSnapshot (StateOps env) db2 n = Ret db' \<and> view db' = view db \<and>
    evolves (StateOps env) I saved solid l db db'"
proof -
  have s: "saved db1 n = Some (view db)" "\<And>m v. saved db m = Some v \<Longrightarrow> m < n \<and> saved db1 m = Some v"
    using snapshot [OF assms(1,2)] by auto
  have e: "I db2" "\<And>m v. saved db1 m = Some v \<Longrightarrow> saved db2 m = Some v" using assms(3) by (auto simp: evolves_def)
  obtain db' where r: "sdb_RevertToSnapshot (StateOps env) db2 n = Ret db'" "I db'" "view db' = view db"
    "\<And>m w. m < n \<Longrightarrow> saved db2 m = Some w \<Longrightarrow> saved db' m = Some w"
    using revert [OF e(1) e(2) [OF s(1)]] by auto
  then show ?thesis using s e assms(4) by (auto intro!: view_evolves)
qed

lemma after_run_called:
  assumes "I db" "sdb_Snapshot (StateOps env) db = (n, db1)" "0 \<le> c_Gas con" "c_Gas con \<le> gas"
    and "evolves (StateOps env) I saved solid (gas - c_Gas con) db1 db2"
  shows "called (StateOps env) I view saved solid caller gas db (after_run env caller n (ret, err, con, db2))"
proof (cases err)
  case None
  have "evolves (StateOps env) I saved solid (gas - c_Gas con) db db2"
    using evolves_trans [OF snapshot_evolves [OF assms(1,2)] assms(5)] by simp
  then show ?thesis using None assms refunded_Finalise [of caller con]
    unfolding called_def by (fastforce simp: after_run_def)
next
  case (Some e)
  obtain db' where "sdb_RevertToSnapshot (StateOps env) db2 n = Ret db'" "view db' = view db"
    "evolves (StateOps env) I saved solid gas db db'"
    using revert_restores [OF assms(1,2,5), of gas] assms by auto
  then show ?thesis using Some assms refunded_Finalise [of caller "UseAllGas con"]
    unfolding called_def by (fastforce simp: after_run_def)
qed

lemma runsD:
  assumes "runs (StateOps env) I saved solid G run" "I db" "0 \<le> c_Gas con" "c_Gas con \<le> G" "c_Gas con < 2 ^ 63"
    "0 \<le> c_value con" "c_Code con \<noteq> [] \<Longrightarrow> solid db (c_self con)" "nonce_room (StateOps env) db (c_Gas con)"
  obtains ret err con' db' where "run depth db con input = Ret (ret, err, con', db')" "0 \<le> c_Gas con'"
    "c_Gas con' \<le> c_Gas con" "evolves (StateOps env) I saved solid (c_Gas con - c_Gas con') db db'"
  using assms unfolding runs_def by blast

lemma nonce_room_evolves:
  assumes "nonce_room (StateOps env) db g" "evolves (StateOps env) I saved solid k db db'" "g' + k \<le> g"
  shows "nonce_room (StateOps env) db' g'"
proof -
  have "\<forall>a. uint (sdb_GetNonce (StateOps env) db a) \<le> 2 ^ 64 - 1 - g"
    using assms(1) by (smt (verit) nonce_room_def)
  then have "\<forall>a. uint (sdb_GetNonce (StateOps env) db' a) \<le> 2 ^ 64 - 1 - g + k"
    using assms(2) by (simp add: evolves_def)
  then show ?thesis using assms(3) by (smt (verit) nonce_room_def)
qed

lemma evolvesD: "evolves (StateOps env) I saved solid k db db' \<Longrightarrow> I db'"
  "evolves (StateOps env) I saved solid k db db' \<Longrightarrow> solid db a \<Longrightarrow> solid db' a"
  by (auto simp: evolves_def)

text \<open>The common end of the three kinds of call.\<close>

lemma run_called:
  assumes run: "runs (StateOps env) I saved solid G run"
    and "I db" "sdb_Snapshot (StateOps env) db = (n, db1)" "evolves (StateOps env) I saved solid 0 db1 db2"
    and "0 \<le> c_Gas con" "c_Gas con \<le> G" "c_Gas con < 2 ^ 63" "0 \<le> c_value con"
    and "c_Code con \<noteq> [] \<Longrightarrow> solid db2 (c_self con)" "nonce_room (StateOps env) db (c_Gas con)"
  shows "called (StateOps env) I view saved solid caller (c_Gas con) db
    (exec_bind (run depth db2 con input) (after_run env caller n))"
proof -
  have "evolves (StateOps env) I saved solid 0 db db2"
    by (rule evolves_trans [OF snapshot_evolves [OF assms(2,3)] assms(4)]) simp
  then have r: "nonce_room (StateOps env) db2 (c_Gas con)" "I db2"
    using nonce_room_evolves [OF assms(10)] by (auto intro: evolvesD)
  obtain ret err con' db3 where o: "run depth db2 con input = Ret (ret, err, con', db3)" "0 \<le> c_Gas con'"
    "c_Gas con' \<le> c_Gas con" "evolves (StateOps env) I saved solid (c_Gas con - c_Gas con') db2 db3"
    by (rule runsD [OF run r(2) assms(5-9) r(1)])
  have "evolves (StateOps env) I saved solid (c_Gas con - c_Gas con') db1 db3"
    using evolves_trans [OF assms(4) o(4)] by simp
  from after_run_called [OF assms(2,3) o(2,3) this] show ?thesis by (simp add: o(1))
qed

lemma SetCallCode_sel [simp]:
  "c_Gas (SetCallCode c a h code) = c_Gas c" "c_value (SetCallCode c a h code) = c_value c"
  "c_self (SetCallCode c a h code) = c_self c" "c_Code (SetCallCode c a h code) = code"
  by (simp_all add: SetCallCode_def)

lemma NewContract_sel [simp]:
  "c_Gas (NewContract r obj v g) = g" "c_value (NewContract r obj v g) = v" "c_self (NewContract r obj v g) = obj"
  by (simp_all add: NewContract_def)

lemma env_Call_called:
  assumes run: "runs (StateOps env) I saved solid G run"
    and "I db" "solid db (ref_Address caller)" "0 \<le> gas" "gas \<le> G" "gas < 2 ^ 63" "0 \<le> val"
    and "nonce_room (StateOps env) db gas"
  shows "called (StateOps env) I view saved solid caller gas db (env_Call run env depth db caller addr input gas val)"
proof -
  obtain n db1 where s: "sdb_Snapshot (StateOps env) db = (n, db1)" by (cases "sdb_Snapshot (StateOps env) db")
  note sn = snapshot [OF assms(2) s]
  have o: "solid db1 = solid db" "sdb_GetBalance (StateOps env) db1 = sdb_GetBalance (StateOps env) db"
    using view_obs [of db1 db] sn by auto
  define db2 where "db2 = Transfer env (if \<not> sdb_Exist (StateOps env) db1 addr then sdb_CreateAccount (StateOps env) db1 addr
    else db1) (ref_Address caller) addr val"
  define con where "con = SetCallCode (NewContract caller addr val gas) addr
    (sdb_GetCodeHash (StateOps env) db2 addr) (sdb_GetCode (StateOps env) db2 addr)"
  have same: "called (StateOps env) I view saved solid caller gas db (Ret (ret, err, ref_ReturnGas caller gas, db))"
    "called (StateOps env) I view saved solid caller gas db (Ret (ret, err, ref_ReturnGas caller gas, db1))" for ret err
    using sn snapshot_evolves [OF assms(2) s] assms by (auto intro!: called_unchanged evolves_refl)
  have "called (StateOps env) I view saved solid caller gas db
      (exec_bind (run depth db2 con input) (after_run env caller n))"
    if c: "CanTransfer env db (ref_Address caller) val"
  proof -
    have e: "evolves (StateOps env) I saved solid 0 db1 db2"
      unfolding db2_def using sn o c assms by (intro begin_call) (auto simp: can_transfer)
    have "solid db2 addr" if "c_Code con \<noteq> []"
      using that code_solid [OF evolvesD(1) [OF e]] by (simp add: con_def)
    then show ?thesis using run_called [OF run assms(2) s e, of con caller depth input] assms
      by (simp add: con_def)
  qed
  then show ?thesis using same
    by (auto simp: env_Call_def Let_def s db2_def con_def)
qed

lemma env_CallCode_called:
  assumes run: "runs (StateOps env) I saved solid G run"
    and "I db" "solid db (ref_Address caller)" "0 \<le> gas" "gas \<le> G" "gas < 2 ^ 63" "0 \<le> val"
    and "nonce_room (StateOps env) db gas"
  shows "called (StateOps env) I view saved solid caller gas db
    (env_CallCode run env depth db caller addr input gas val)"
proof -
  obtain n db1 where s: "sdb_Snapshot (StateOps env) db = (n, db1)" by (cases "sdb_Snapshot (StateOps env) db")
  have sn: "I db1" "solid db1 = solid db" using snapshot [OF assms(2) s] view_obs [of db1 db] by auto
  have same: "called (StateOps env) I view saved solid caller gas db (Ret (ret, err, ref_ReturnGas caller gas, db))" for ret err
    using assms by (auto intro!: called_unchanged evolves_refl)
  have "called (StateOps env) I view saved solid caller gas db
      (exec_bind (run depth db1 (SetCallCode (NewContract caller (ref_Address caller) val gas) a h code) input)
        (after_run env caller n))" for a h code
    using run_called [OF run assms(2) s evolves_same [OF sn(1)],
        of "SetCallCode (NewContract caller (ref_Address caller) val gas) a h code" caller depth input] assms sn
    by simp
  then show ?thesis using same by (auto simp: env_CallCode_def Let_def s)
qed

lemma env_DelegateCall_called:
  assumes run: "runs (StateOps env) I saved solid G run"
    and "I db" "solid db (c_self parent)" "0 \<le> gas" "gas \<le> G" "gas < 2 ^ 63" "0 \<le> c_value parent"
    and "nonce_room (StateOps env) db gas"
  shows "called (StateOps env) I view saved solid (RefContract parent) gas db
    (env_DelegateCall run env depth db (RefContract parent) addr input gas)"
proof -
  obtain n db1 where s: "sdb_Snapshot (StateOps env) db = (n, db1)" by (cases "sdb_Snapshot (StateOps env) db")
  have sn: "I db1" "solid db1 = solid db" using snapshot [OF assms(2) s] view_obs [of db1 db] by auto
  let ?r = "RefContract parent"
  define con where "con = SetCallCode (NewContract ?r (c_self parent) (c_value parent) gas
      \<lparr>c_CallerAddress := c_CallerAddress parent\<rparr>) addr (sdb_GetCodeHash (StateOps env) db1 addr)
      (sdb_GetCode (StateOps env) db1 addr)"
  have same: "called (StateOps env) I view saved solid ?r gas db (Ret (ret, err, ref_ReturnGas ?r gas, db))" for ret err
    using assms by (auto intro!: called_unchanged evolves_refl)
  have "called (StateOps env) I view saved solid ?r gas db (exec_bind (run depth db1 con input) (after_run env ?r n))"
    using run_called [OF run assms(2) s evolves_same [OF sn(1)], of con ?r depth input] assms sn
    by (simp add: con_def)
  then show ?thesis using same
    by (auto simp: env_DelegateCall_def Let_def s AsDelegate_def con_def ref_Address_def)
qed

lemma CreateAddress_ret: "I db \<Longrightarrow> \<exists>a. CreateAddress env b n = Ret a"
  by (simp add: CreateAddress_def Let_def keccak_length)

end

text \<open>
  The result of a creation. It sets two nonces besides running the code; after an error that reverts,
  only the nonce of the creator has changed.
\<close>

definition created ::
  "'s StateDB \<Rightarrow> ('s \<Rightarrow> bool) \<Rightarrow> ('s \<Rightarrow> 'v) \<Rightarrow> ('s \<Rightarrow> nat \<Rightarrow> 'v option) \<Rightarrow> ('s \<Rightarrow> address \<Rightarrow> bool) \<Rightarrow> bool \<Rightarrow>
   ContractRef \<Rightarrow> int \<Rightarrow> 's \<Rightarrow> (bytes \<times> address \<times> vm_err option \<times> ContractRef \<times> 's) exec \<Rightarrow> bool" where
  "created ops I view saved solid homestead caller gas db r \<longleftrightarrow>
     (\<exists>ret addr err caller' db' g. r = Ret (ret, addr, err, caller', db') \<and> 0 \<le> g \<and> g \<le> gas \<and>
        refunded caller g caller' \<and> evolves ops I saved solid (2 + gas - g) db db' \<and>
        (err \<noteq> None \<longrightarrow> homestead \<or> err \<noteq> Some CodeStoreOutOfGas \<longrightarrow>
           view db' = view db \<or>
           view db' = view (sdb_SetNonce ops db (ref_Address caller) (sdb_GetNonce ops db (ref_Address caller) + 1))))"

lemma evolves_mono:
  "evolves ops I saved solid k db db' \<Longrightarrow> k \<le> l \<Longrightarrow> evolves ops I saved solid l db db'"
  unfolding evolves_def by (smt (verit))

context vm_state
begin

text \<open>The end of a creation, after the code has run.\<close>

lemma create_end_created:
  assumes "I db1" "sdb_Snapshot (StateOps env) db1 = (n, db2)" "evolves (StateOps env) I saved solid 1 db2 db3"
    and "sdb_GetNonce (StateOps env) db3 addr \<noteq> 0" "0 \<le> c_Gas con" "c_Gas con \<le> gas"
    and "evolves (StateOps env) I saved solid (gas - c_Gas con) db3 db4"
  shows "\<exists>ret' err' caller' db' g.
    create_end env caller n addr (ret, err, con, db4) = Ret (ret', addr, err', caller', db') \<and> 0 \<le> g \<and> g \<le> gas \<and>
    refunded caller g caller' \<and> evolves (StateOps env) I saved solid (1 + gas - g) db1 db' \<and>
    (err' \<noteq> None \<longrightarrow> IsHomestead (chainConfig env) (Some (BlockNumber env)) \<or> err' \<noteq> Some CodeStoreOutOfGas \<longrightarrow>
       view db' = view db1)"
proof -
  let ?ops = "StateOps env" and ?h = "IsHomestead (chainConfig env) (Some (BlockNumber env))"
  define big where "big \<longleftrightarrow> length ret > MaxCodeSize"
  define r where "r = (if err = None \<and> \<not> big
    then (case UseGas con (int (length ret) * CreateDataGas) of
            (True, con) \<Rightarrow> (None, con, sdb_SetCode ?ops db4 addr ret)
          | (False, con) \<Rightarrow> (Some CodeStoreOutOfGas, con, db4))
    else (err, con, db4))"
  obtain err2 con2 db5 where r: "r = (err2, con2, db5)" by (cases r)
  have "I db4" "sdb_GetNonce ?ops db4 addr \<noteq> 0" using assms(4,7) by (auto simp: evolves_def)
  from set_code [OF this, of ret] have e5: "0 \<le> c_Gas con2" "c_Gas con2 \<le> gas"
    "evolves ?ops I saved solid (gas - c_Gas con2) db3 db5"
    using r assms(5-7) unfolding r_def
    by (auto simp: UseGas_def useGas_def gas_prices split: if_splits intro: evolves_mono evolves_trans)
  have e25: "evolves ?ops I saved solid (1 + gas - c_Gas con2) db2 db5" using evolves_trans [OF assms(3) e5(3)] by force
  have e15: "evolves ?ops I saved solid (1 + gas - c_Gas con2) db1 db5"
    using evolves_trans [OF snapshot_evolves [OF assms(1,2)] e25] by force
  obtain db6 where rv: "sdb_RevertToSnapshot ?ops db5 n = Ret db6" "view db6 = view db1"
    "evolves ?ops I saved solid (1 + gas) db1 db6"
    using revert_restores [OF assms(1,2) e25, of "1 + gas"] assms(5,6) by auto
  have eq: "create_end env caller n addr (ret, err, con, db4) =
    (if big \<or> (err2 \<noteq> None \<and> (?h \<or> err2 \<noteq> Some CodeStoreOutOfGas))
     then Ret ([], addr, err2, Finalise caller (UseAllGas con2), db6)
     else Ret (if err2 \<noteq> None then [] else ret, addr, err2, Finalise caller con2, db5))"
    unfolding create_end_def Let_def prod.case big_def [symmetric] r_def [symmetric] r by (auto simp: rv(1))
  show ?thesis
  proof (cases "big \<or> (err2 \<noteq> None \<and> (?h \<or> err2 \<noteq> Some CodeStoreOutOfGas))")
    case True
    then show ?thesis unfolding eq
      using refunded_Finalise [of caller "UseAllGas con2"] rv(2,3) assms(5,6) by (simp add: exI [of _ "0::int"])
  next
    case False
    then show ?thesis unfolding eq using refunded_Finalise [of caller con2] e15 e5 by auto
  qed
qed

text \<open>A creation from the state in which the nonce of the creator has been set.\<close>

lemma env_Create_paid:
  assumes run: "runs (StateOps env) I saved solid G run"
    and nonce: "nonce = sdb_GetNonce (StateOps env) db (ref_Address caller)"
    and db1: "db1 = sdb_SetNonce (StateOps env) db (ref_Address caller) (nonce + 1)"
    and "I db1" "solid db1 (ref_Address caller)" "0 \<le> gas" "gas \<le> G" "gas < 2 ^ 63" "0 \<le> val"
    and "val \<le> sdb_GetBalance (StateOps env) db1 (ref_Address caller)" "nonce_room (StateOps env) db1 (1 + gas)"
    and c: "CanTransfer env db (ref_Address caller) val" "\<not> (NoRecursion env \<and> depth > 0)" "\<not> depth > CallCreateDepth"
  shows "\<exists>ret addr err caller' db' g.
    env_Create run env depth db caller code gas val = Ret (ret, addr, err, caller', db') \<and> 0 \<le> g \<and> g \<le> gas \<and>
    refunded caller g caller' \<and> evolves (StateOps env) I saved solid (1 + gas - g) db1 db' \<and>
    (err \<noteq> None \<longrightarrow> IsHomestead (chainConfig env) (Some (BlockNumber env)) \<or> err \<noteq> Some CodeStoreOutOfGas \<longrightarrow>
       view db' = view db1)"
proof -
  let ?ops = "StateOps env" and ?c = "ref_Address caller"
  obtain n db2 where s: "sdb_Snapshot ?ops db1 = (n, db2)" by (cases "sdb_Snapshot ?ops db1")
  obtain addr where a: "CreateAddress env ?c nonce = Ret addr" using CreateAddress_ret [OF assms(4)] by blast
  define db3 where "db3 = Transfer env (sdb_SetNonce ?ops (sdb_CreateAccount ?ops db2 addr) addr 1) ?c addr val"
  define con where "con = SetCallCode (NewContract caller addr val gas) addr (Keccak256 env code) code"
  note sn = snapshot [OF assms(4) s]
  have o2: "solid db2 = solid db1" "sdb_GetBalance ?ops db2 = sdb_GetBalance ?ops db1"
    using view_obs [of db2 db1] sn by auto
  have e3: "evolves ?ops I saved solid 1 db2 db3" "sdb_GetNonce ?ops db3 addr \<noteq> 0"
    using begin_create [OF _ _ assms(9), of db2 ?c db3 addr] sn o2 assms(5,10) unfolding db3_def by auto
  have e13: "evolves ?ops I saved solid 1 db1 db3" using evolves_trans [OF snapshot_evolves [OF assms(4) s] e3(1)] by force
  have "nonce_room ?ops db3 gas" using nonce_room_evolves [OF assms(11) e13, of gas] by simp
  moreover have "solid db3 addr" using e3 nonce_solid evolvesD(1) by blast
  ultimately obtain ret err con' db4 where o: "run depth db3 con [] = Ret (ret, err, con', db4)" "0 \<le> c_Gas con'"
    "c_Gas con' \<le> gas" "evolves ?ops I saved solid (gas - c_Gas con') db3 db4"
    using run [unfolded runs_def, rule_format, of db3 con depth "[]"] evolvesD(1) [OF e3(1)] assms
    by (auto simp: con_def)
  have "env_Create run env depth db caller code gas val = create_end env caller n addr (ret, err, con', db4)"
    using c a o(1) s eip158 [OF assms(4)] unfolding env_Create_def Let_def nonce [symmetric] db1 [symmetric]
    by (auto simp: db3_def [symmetric] con_def [symmetric])
  then show ?thesis using create_end_created [OF assms(4) s e3 o(2-4), of caller ret err] by auto
qed

lemma env_Create_created:
  assumes run: "runs (StateOps env) I saved solid G run"
    and "I db" "0 \<le> gas" "gas \<le> G" "gas < 2 ^ 63" "0 \<le> val" "nonce_room (StateOps env) db (2 + gas)"
  shows "created (StateOps env) I view saved solid (IsHomestead (chainConfig env) (Some (BlockNumber env)))
    caller gas db (env_Create run env depth db caller code gas val)"
proof -
  let ?ops = "StateOps env" and ?c = "ref_Address caller" and ?h = "IsHomestead (chainConfig env) (Some (BlockNumber env))"
  define nonce where "nonce = sdb_GetNonce ?ops db ?c"
  define db1 where "db1 = sdb_SetNonce ?ops db ?c (nonce + 1)"
  have same: "created ?ops I view saved solid ?h caller gas db (Ret ([], replicate 20 0, err, ref_ReturnGas caller gas, db))" for err
    using assms refunded_ReturnGas evolves_same [OF assms(2), of 2] unfolding created_def by fastforce
  have n1: "nonce + 1 \<noteq> 0"
  proof -
    have "uint nonce + 1 < 2 ^ 64" using assms by (smt (verit) nonce_def nonce_room_def)
    then have "uint (nonce + 1) = uint nonce + 1" by (simp add: uint_word_ariths)
    then show ?thesis by (metis add.commute add_le_same_cancel1 not_one_le_zero uint_0_eq unsigned_greater_eq)
  qed
  have e1: "evolves ?ops I saved solid 1 db db1"
    unfolding db1_def nonce_def using assms(2) n1 by (intro set_nonce) (simp_all add: nonce_def)
  note obs1 = set_nonce_obs [OF assms(2), of ?c "nonce + 1", folded db1_def]
  have "I db1" using e1 by (rule evolvesD)
  then have I1: "I db1" "solid db1 ?c" "nonce_room ?ops db1 (1 + gas)"
    using obs1 n1 nonce_solid [of db1 ?c] nonce_room_evolves [OF assms(7) e1, of "1 + gas"] by auto
  show ?thesis
  proof (cases "CanTransfer env db ?c val \<and> \<not> (NoRecursion env \<and> depth > 0) \<and> \<not> depth > CallCreateDepth")
    case True
    then have "val \<le> sdb_GetBalance ?ops db1 ?c" using obs1 by (simp add: can_transfer [OF assms(2)])
    then obtain ret addr err caller' db' g where
      r: "env_Create run env depth db caller code gas val = Ret (ret, addr, err, caller', db')" "0 \<le> g" "g \<le> gas"
        "refunded caller g caller'" "evolves ?ops I saved solid (1 + gas - g) db1 db'"
        "err \<noteq> None \<longrightarrow> ?h \<or> err \<noteq> Some CodeStoreOutOfGas \<longrightarrow> view db' = view db1"
      using env_Create_paid [OF run nonce_def db1_def I1(1,2) assms(3-6) _ I1(3)] True by metis
    have "evolves ?ops I saved solid (2 + gas - g) db db'" using evolves_trans [OF e1 r(5)] by force
    then show ?thesis unfolding created_def r(1) using r(2-4,6) by (auto simp: db1_def nonce_def)
  next
    case False
    then show ?thesis using same by (auto simp: env_Create_def Let_def)
  qed
qed

text \<open>The instructions that start a contract.\<close>

lemma end_call_left:
  assumes "called (StateOps env) I view saved solid (RefContract (f_con f)) gas (f_db f) r" "gas \<le> given"
    and "covered (f_mem f) (off, sz)" "int (length (f_mem f)) < 2 ^ 42" "\<forall>x\<in>set st. 0 \<le> x" "0 \<le> c_Gas (f_con f)"
  shows "\<exists>f'. end_call f st off sz r = Ret f' \<and> left (StateOps env) I saved solid (length st + 1) given f f'"
proof -
  obtain ret err d db g where r: "r = Ret (ret, err, RefContract (f_con f\<lparr>c_Gas := c_Gas (f_con f) + g, c_jumpdests := d\<rparr>), db)"
    "0 \<le> g" "g \<le> gas" "evolves (StateOps env) I saved solid (gas - g) (f_db f) db"
    using assms(1) by (auto simp: called_def refunded_def)
  have "evolves (StateOps env) I saved solid (given - g) (f_db f) db" using r(4) assms(2) by (auto intro: evolves_mono)
  moreover obtain m where "mem_Set (f_mem f) (big_Uint64 off) (big_Uint64 sz) ret = Ret m" "length m = length (f_mem f)"
    using mem_Set_covered [OF assms(3,4)] by blast
  ultimately show ?thesis using assms r by (auto simp: end_call_def ref_contract_def left_def)
qed

definition call_ready where
  "call_ready G op f \<longleftrightarrow> ready I solid op f \<and> passed op (f_stk f) + c_Gas (f_con f) \<le> G \<and>
     passed op (f_stk f) + c_Gas (f_con f) < 2 ^ 63 \<and>
     nonce_room (StateOps env) (f_db f) (passed op (f_stk f) + c_Gas (f_con f))"

lemma nonce_room_less: "nonce_room ops db g \<Longrightarrow> h \<le> g \<Longrightarrow> nonce_room ops db h"
  unfolding nonce_room_def by (smt (verit))

lemma value_stipend: "(if 0 < length (big_Bytes (U256 v)) then CallStipend else 0) \<le> (if v = 0 then 0 else CallStipend)"
  by (auto simp: U256_def big_Bytes_def bigBytes.simps gas_prices)

lemma opCall_left:
  assumes run: "runs (StateOps env) I saved solid G run" and r: "call_ready G (Call CALL) f"
  shows "\<exists>f'. opCall run env depth f = Ret f' \<and>
    left (StateOps env) I saved solid (length (f_stk f) - 7 + 1) (passed (Call CALL) (f_stk f)) f f'"
proof -
  obtain gas addr val io iz ro rz st where st: "f_stk f = gas # addr # val # io # iz # ro # rz # st"
    using r by (auto simp: call_ready_def ready_def le_lengths)
  obtain args where args: "mem_Get (f_mem f) (big_Int64 io) (big_Int64 iz) = Ret args"
    using r st mem_Get_covered(1) [of "f_mem f" io iz] by (auto simp: call_ready_def ready_def)
  define g where "g = (if length (big_Bytes (U256 val)) > 0 then gas + CallStipend else gas)"
  have g: "0 \<le> g" "g \<le> passed (Call CALL) (f_stk f)"
    using r st value_stipend [of val] by (auto simp: g_def call_ready_def ready_def gas_prices split: if_splits)
  have op: "opCall run env depth f = end_call f st ro rz
    (env_Call run env depth (f_db f) (RefContract (f_con f)) (BigToAddress addr) args g (U256 val))"
    by (simp add: opCall_def st args g_def)
  have "called (StateOps env) I view saved solid (RefContract (f_con f)) g (f_db f)
    (env_Call run env depth (f_db f) (RefContract (f_con f)) (BigToAddress addr) args g (U256 val))"
    using r g
    by (intro env_Call_called [OF run]) (auto simp: call_ready_def ready_def ref_Address_def intro: nonce_room_less)
  from end_call_left [OF this g(2), of ro rz st] show ?thesis using r
    by (simp add: op st call_ready_def ready_def)
qed

lemma opCallCode_left:
  assumes run: "runs (StateOps env) I saved solid G run" and r: "call_ready G (Call CALLCODE) f"
  shows "\<exists>f'. opCallCode run env depth f = Ret f' \<and>
    left (StateOps env) I saved solid (length (f_stk f) - 7 + 1) (passed (Call CALLCODE) (f_stk f)) f f'"
proof -
  obtain gas addr val io iz ro rz st where st: "f_stk f = gas # addr # val # io # iz # ro # rz # st"
    using r by (auto simp: call_ready_def ready_def le_lengths)
  obtain args where args: "mem_Get (f_mem f) (big_Int64 io) (big_Int64 iz) = Ret args"
    using r st mem_Get_covered(1) [of "f_mem f" io iz] by (auto simp: call_ready_def ready_def)
  define g where "g = (if length (big_Bytes (U256 val)) > 0 then gas + CallStipend else gas)"
  have g: "0 \<le> g" "g \<le> passed (Call CALLCODE) (f_stk f)"
    using r st value_stipend [of val] by (auto simp: g_def call_ready_def ready_def gas_prices split: if_splits)
  have op: "opCallCode run env depth f = end_call f st ro rz
    (env_CallCode run env depth (f_db f) (RefContract (f_con f)) (BigToAddress addr) args g (U256 val))"
    by (simp add: opCallCode_def st args g_def)
  have "called (StateOps env) I view saved solid (RefContract (f_con f)) g (f_db f)
    (env_CallCode run env depth (f_db f) (RefContract (f_con f)) (BigToAddress addr) args g (U256 val))"
    using r g
    by (intro env_CallCode_called [OF run]) (auto simp: call_ready_def ready_def ref_Address_def intro: nonce_room_less)
  from end_call_left [OF this g(2), of ro rz st] show ?thesis using r
    by (simp add: op st call_ready_def ready_def)
qed

lemma opDelegateCall_left:
  assumes run: "runs (StateOps env) I saved solid G run" and r: "call_ready G (Call DELEGATECALL) f"
  shows "\<exists>f'. opDelegateCall run env depth f = Ret f' \<and>
    left (StateOps env) I saved solid (length (f_stk f) - 6 + 1) (passed (Call DELEGATECALL) (f_stk f)) f f'"
proof -
  obtain gas addr io iz ro rz st where st: "f_stk f = gas # addr # io # iz # ro # rz # st"
    using r by (auto simp: call_ready_def ready_def le_lengths)
  obtain args where args: "mem_Get (f_mem f) (big_Int64 io) (big_Int64 iz) = Ret args"
    using r st mem_Get_covered(1) [of "f_mem f" io iz] by (auto simp: call_ready_def ready_def)
  have "called (StateOps env) I view saved solid (RefContract (f_con f)) gas (f_db f)
    (env_DelegateCall run env depth (f_db f) (RefContract (f_con f)) (BigToAddress addr) args gas)"
    using r st
    by (intro env_DelegateCall_called [OF run]) (auto simp: call_ready_def ready_def intro: nonce_room_less)
  from end_call_left [OF this order_refl, of ro rz st] show ?thesis using r
    by (simp add: opDelegateCall_def args st call_ready_def ready_def)
qed

lemma opCreate_left:
  assumes run: "runs (StateOps env) I saved solid G run" and r: "call_ready G (Call CREATE) f"
  shows "\<exists>f'. opCreate run env depth f = Ret f' \<and>
    left (StateOps env) I saved solid (length (f_stk f) - 3 + 1) (passed (Call CREATE) (f_stk f)) f f'"
proof -
  obtain val off sz st where st: "f_stk f = val # off # sz # st"
    using r by (auto simp: call_ready_def ready_def le_lengths)
  obtain input where inp: "mem_Get (f_mem f) (big_Int64 off) (big_Int64 sz) = Ret input"
    using r st mem_Get_covered(1) [of "f_mem f" off sz] by (auto simp: call_ready_def ready_def)
  let ?g = "c_Gas (f_con f)" and ?num = "Some (BlockNumber env)"
  define gas where "gas = (if IsEIP150 (chainConfig env) ?num then ?g - ?g div 64 else ?g)"
  define con where "con = f_con f\<lparr>c_Gas := ?g - gas\<rparr>"
  have g: "0 \<le> ?g" using r by (auto simp: call_ready_def ready_def)
  then have "0 \<le> ?g div 64 \<and> ?g div 64 \<le> ?g" by presburger
  then have gas: "0 \<le> gas" "gas \<le> ?g" using g by (auto simp: gas_def)
  have con: "snd (UseGas (f_con f) gas) = con" using gas by (simp add: UseGas_def useGas_def con_def)
  have "created (StateOps env) I view saved solid (IsHomestead (chainConfig env) ?num) (RefContract con) gas (f_db f)
    (env_Create run env depth (f_db f) (RefContract con) input gas val)"
    using r gas st by (intro env_Create_created [OF run]) (auto simp: call_ready_def ready_def intro: nonce_room_less)
  then obtain ret addr err d db g' where o: "env_Create run env depth (f_db f) (RefContract con) input gas val =
      Ret (ret, addr, err, RefContract (con\<lparr>c_Gas := c_Gas con + g', c_jumpdests := d\<rparr>), db)" "0 \<le> g'" "g' \<le> gas"
    "evolves (StateOps env) I saved solid (2 + gas - g') (f_db f) db"
    unfolding created_def refunded_def ContractRef.case by blast
  moreover have "2 + gas - g' = 2 + (gas - g')" by simp
  ultimately show ?thesis using r gas
    by (auto simp: opCreate_def Let_def st inp gas_def [symmetric] con ref_contract_def left_def con_def call_ready_def
        ready_def)
qed

end

end
