(* ===== verification/VM_Steps.thy ===== *)
theory VM_Steps
  imports VM_Safe
begin

text \<open>
  The steps of the interpreter, and the loop that repeats them.
\<close>

context vm_state
begin

section \<open>One step\<close>

text \<open>An instruction of the jump table that has been paid for.\<close>

lemma exec_op_left:
  assumes run: "runs (StateOps env) I saved solid G run" and r: "call_ready G op f"
    and op: "\<not> halting op" "op \<noteq> JUMP" "op \<noteq> JUMPI" "op \<noteq> DUP 0"
  shows "\<exists>f'. exec_op run env depth op f = Ret f' \<and>
    left (StateOps env) I saved solid (length (f_stk f) - fst (eff op) + snd (eff op)) (passed op (f_stk f)) f f'"
proof -
  have r': "ready I solid op f" using r by (simp add: call_ready_def)
  show ?thesis
  proof (cases op)
    case (Call c)
    then show ?thesis
      using r opCall_left [OF run, of f depth] opCallCode_left [OF run, of f depth]
        opDelegateCall_left [OF run, of f depth] opCreate_left [OF run, of f depth]
      by (cases c) (auto simp: exec_op_def)
  next
    case (DUP n)
    then show ?thesis using r' op makeDup_left [of n f] by (auto simp: exec_op_def ready_def)
  next
    case (SWAP n)
    then have len: "length (f_stk f) - fst (eff op) + snd (eff op) = length (f_stk f)"
      using r' by (auto simp: ready_def)
    show ?thesis unfolding len using SWAP r' makeSwap_left [of n f] by (simp add: exec_op_def)
  qed (use r' op exec_stack_left exec_closure_left opSha3_left exec_store_left makePush_left makeLog_left
    in \<open>auto simp: exec_op_def halting_def ready_def\<close>)
qed

definition ended where
  "ended gas db out \<longleftrightarrow>
     (case out of (ret, err, con, db') \<Rightarrow>
        0 \<le> c_Gas con \<and> c_Gas con \<le> gas \<and> evolves (StateOps env) I saved solid (gas - c_Gas con) db db')"

definition continues where
  "continues op f f' \<longleftrightarrow>
     length (f_stk f') = length (f_stk f) - fst (eff op) + snd (eff op) \<and> (\<forall>x\<in>set (f_stk f'). 0 \<le> x) \<and>
     length (f_mem f') = length (f_mem f) \<and> c_self (f_con f') = c_self (f_con f) \<and>
     c_value (f_con f') = c_value (f_con f) \<and> 0 \<le> c_Gas (f_con f') \<and>
     c_Gas (f_con f') \<le> c_Gas (f_con f) + passed op (f_stk f) \<and>
     evolves (StateOps env) I saved solid (passed op (f_stk f) + c_Gas (f_con f) - c_Gas (f_con f')) (f_db f) (f_db f')"

lemma do_jump_ok:
  assumes "I (f_db f)" "0 \<le> c_Gas (f_con f)" "\<forall>x\<in>set (f_stk f). 0 \<le> x"
    "f_con f0 = f_con f" "f_db f0 = f_db f" "f_mem f0 = f_mem f" "fst (eff op) \<le> length (f_stk f0)" "snd (eff op) = 0"
    "length (f_stk f) = length (f_stk f0) - fst (eff op)" "passed op (f_stk f0) = 0"
  shows "(\<exists>f'. do_jump h dest f = Ret (Inl f') \<and> continues op f0 f') \<or>
    (\<exists>out. do_jump h dest f = Ret (Inr out) \<and> ended (c_Gas (f_con f0)) (f_db f0) out)"
  using assms evolves_same [OF assms(1), of 0]
  by (auto simp: do_jump_def Let_def halt_def continues_def ended_def split: prod.splits bool.splits)

lemma dispatch_ok:
  assumes run: "runs (StateOps env) I saved solid G run" and r: "ready I solid op f"
    and c: "\<not> halting op \<Longrightarrow> call_ready G op f" and op: "op \<noteq> DUP 0" "\<And>b. op \<noteq> UNDEF b"
  shows "(\<exists>f'. dispatch run env depth h op f = Ret (Inl f') \<and> \<not> halting op \<and> continues op f f') \<or>
    (\<exists>out. dispatch run env depth h op f = Ret (Inr out) \<and> ended (c_Gas (f_con f)) (f_db f) out)"
proof -
  have i: "I (f_db f)" "0 \<le> c_Gas (f_con f)" "solid (f_db f) (c_self (f_con f))" "\<forall>x\<in>set (f_stk f). 0 \<le> x"
    "fst (eff op) \<le> length (f_stk f)" using r by (auto simp: ready_def)
  note same = evolves_same [OF i(1), of 0]
  have stop: "ended (c_Gas (f_con f)) (f_db f) (ret, err, f_con f, f_db f)" for ret err
    using i same by (simp add: ended_def)
  have exec: ?thesis if n: "\<not> halting op" "op \<noteq> JUMP" "op \<noteq> JUMPI"
  proof -
    obtain f' where "exec_op run env depth op f = Ret f'"
      "left (StateOps env) I saved solid (length (f_stk f) - fst (eff op) + snd (eff op)) (passed op (f_stk f)) f f'"
      using exec_op_left [OF run c [OF n(1)] n op(1)] by blast
    moreover have "dispatch run env depth h op f = next_pc (exec_op run env depth op f)"
      using n by (cases op) (auto simp: dispatch_def halting_def)
    ultimately show ?thesis using n by (auto simp: next_pc_def left_def continues_def)
  qed
  show ?thesis
  proof (cases op)
    case STOP
    then show ?thesis using stop by (simp add: dispatch_def halt_def)
  next
    case JUMP
    then obtain d st where st: "f_stk f = d # st" using i by (auto simp: le_lengths)
    have "dispatch run env depth h op f = do_jump h d (f\<lparr>f_stk := st\<rparr>)" by (simp add: dispatch_def JUMP st)
    moreover have "(\<exists>f'. do_jump h d (f\<lparr>f_stk := st\<rparr>) = Ret (Inl f') \<and> continues op f f') \<or>
      (\<exists>out. do_jump h d (f\<lparr>f_stk := st\<rparr>) = Ret (Inr out) \<and> ended (c_Gas (f_con f)) (f_db f) out)"
      by (rule do_jump_ok) (use i st JUMP in simp_all)
    ultimately show ?thesis by (simp add: halting_def JUMP)
  next
    case JUMPI
    then obtain d x st where st: "f_stk f = d # x # st" using i by (auto simp: le_lengths)
    have "dispatch run env depth h op f =
        (if x \<ge> 1 then do_jump h d (f\<lparr>f_stk := st\<rparr>) else Ret (Inl (f\<lparr>f_pc := f_pc f + 1, f_stk := st\<rparr>)))"
      by (simp add: dispatch_def JUMPI st next_pc_def)
    moreover have "continues op f (f\<lparr>f_pc := f_pc f + 1, f_stk := st\<rparr>)"
      using i same st JUMPI by (simp add: continues_def)
    moreover have "(\<exists>f'. do_jump h d (f\<lparr>f_stk := st\<rparr>) = Ret (Inl f') \<and> continues op f f') \<or>
      (\<exists>out. do_jump h d (f\<lparr>f_stk := st\<rparr>) = Ret (Inr out) \<and> ended (c_Gas (f_con f)) (f_db f) out)"
      by (rule do_jump_ok) (use i st JUMPI in simp_all)
    ultimately show ?thesis by (auto simp: halting_def JUMPI)
  next
    case RETURN
    then obtain off sz st where st: "f_stk f = off # sz # st" using i by (auto simp: le_lengths)
    then obtain d where "mem_GetPtr (f_mem f) (big_Int64 off) (big_Int64 sz) = Ret d"
      using r RETURN mem_Get_covered(2) [of "f_mem f" off sz] by (auto simp: ready_def)
    then show ?thesis using RETURN st stop by (simp add: dispatch_def halt_def)
  next
    case SUICIDE
    then obtain a st where st: "f_stk f = a # st" using i by (auto simp: le_lengths)
    note suicide [OF i(1,3), of "BigToAddress a"]
    then show ?thesis using SUICIDE st i by (simp add: dispatch_def opSuicide_def halt_def ended_def Let_def)
  qed (use op exec in \<open>auto simp: halting_def\<close>)
qed

lemma op_of_DUP: "op_of b \<noteq> DUP 0"
proof
  assume "op_of b = DUP 0"
  then have "map_of opcode_table (unat b) = Some (DUP 0)"
    by (auto simp: op_of_def Let_def split: if_splits option.splits)
  then have "DUP 0 \<in> snd ` set opcode_table" by (force dest: map_of_SomeD)
  then show False by (simp add: opcode_table_def)
qed

lemma passed_nonneg: "fst (eff op) \<le> length st \<Longrightarrow> \<forall>x\<in>set st. 0 \<le> x \<Longrightarrow> 0 \<le> passed op st"
  by (cases "(op, st)" rule: passed.cases; cases st) (auto simp: gas_prices)

text \<open>One step of the interpreter.\<close>

lemma step_ok:
  assumes f: "frame_ok (StateOps env) I solid f"
    and run: "runs (StateOps env) I saved solid (c_Gas (f_con f) - 1) run"
  shows "(\<exists>f'. step run env depth h f = Ret (Inl f') \<and> frame_ok (StateOps env) I solid f' \<and>
      c_Gas (f_con f') < c_Gas (f_con f) \<and>
      evolves (StateOps env) I saved solid (c_Gas (f_con f) - c_Gas (f_con f')) (f_db f) (f_db f')) \<or>
    (\<exists>out. step run env depth h f = Ret (Inr out) \<and> ended (c_Gas (f_con f)) (f_db f) out)"
proof -
  let ?op = "GetOp (f_con f) (f_pc f)" and ?g = "c_Gas (f_con f)"
  have i: "I (f_db f)" "length (f_stk f) \<le> StackLimit" "\<forall>x\<in>set (f_stk f). 0 \<le> x" "0 \<le> ?g" "fee (f_mem f) + ?g < 2 ^ 63"
    "0 \<le> c_value (f_con f)" "solid (f_db f) (c_self (f_con f))" "nonce_room (StateOps env) (f_db f) ?g"
    using f by (auto simp: frame_ok_def)
  note same = evolves_same [OF i(1), of 0]
  from price_ok_all [OF i(2,3), of env "f_con f" ?op "f_mem f" "f_db f"] consider
    (err) e where "calculateGasAndSize env (f_con f) ?op (f_mem f) (f_stk f) (f_db f) = Ret (Inl e)"
  | (paid) ms cost st db where
      "calculateGasAndSize env (f_con f) ?op (f_mem f) (f_stk f) (f_db f) = Ret (Inr (ms, cost, st, db))"
      "charged env (f_con f) ?op (f_mem f) (f_stk f) (f_db f) (ms, cost, st, db)"
    by (auto simp: price_ok_def)
  then show ?thesis
  proof cases
    case err
    then show ?thesis using i same by (auto simp: step_def Let_def halt_def ended_def)
  next
    case paid
    have db: "evolves (StateOps env) I saved solid 0 (f_db f) db"
      using paid(2) same add_refund [OF i(1)] by (auto simp: charged_def)
    show ?thesis
    proof (cases "cost \<le> ?g")
      case False
      then show ?thesis using paid(1) i db
        by (auto simp: step_def Let_def halt_def ended_def UseGas_def useGas_def)
    next
      case True
      define f1 where "f1 = f\<lparr>f_mem := mem_Resize (f_mem f) (big_Uint64 ms), f_stk := st,
        f_con := f_con f\<lparr>c_Gas := ?g - cost\<rparr>, f_db := db\<rparr>"
      have step: "step run env depth h f = (if op_valid env ?op then dispatch run env depth h ?op f1
          else halt [] (Some (InvalidOpcode ?op)) f1)"
        using paid(1) True by (simp add: step_def UseGas_def useGas_def f1_def)
      have ch: "fst (eff ?op) \<le> length (f_stk f)" "length (f_stk f) - fst (eff ?op) + snd (eff ?op) \<le> StackLimit"
        "0 \<le> ms" "\<forall>(off, sz)\<in>set (regions ?op st). 0 \<le> off \<and> 0 \<le> sz \<and> calcMemSize off sz \<le> ms"
        "length st = length (f_stk f)" "least ?op st + grown (f_mem f) ms \<le> cost" "\<forall>x\<in>set st. 0 \<le> x"
        using paid(2) True by (auto simp: charged_def)
      have p0: "0 \<le> passed ?op st" using ch(1,5,7) by (intro passed_nonneg) simp_all
      have gr: "grown (f_mem f) ms \<le> ?g" "0 \<le> ?g - cost" "passed ?op st \<le> cost"
        using ch(6) p0 True grown_nonneg [of "f_mem f" ms] by (auto simp: least_def split: if_splits)
      note mem = paid_memory [OF i(5) gr(1) i(4) ch(3)]
      have db': "I db" "solid db (c_self (f_con f))" "nonce_room (StateOps env) db ?g"
        using db i nonce_room_evolves [OF i(8) db] by (auto simp: evolvesD)
      have cov: "covered (f_mem f1) r" if "r \<in> set (regions ?op st)" for r
        using that ch(4) mem(3) by (cases r) (auto simp: covered_def f1_def)
      have m42: "int (length (f_mem f1)) < 2 ^ 42" using mem by (simp add: f1_def)
      have sel: "f_stk f1 = st" "f_db f1 = db" "c_Gas (f_con f1) = ?g - cost" "c_self (f_con f1) = c_self (f_con f)"
        "c_value (f_con f1) = c_value (f_con f)" by (simp_all add: f1_def)
      have r1: "ready I solid ?op f1"
        unfolding ready_def sel using ch db' gr(2) i(6) m42 cov by simp
      have cr: "call_ready (?g - 1) ?op f1" if "\<not> halting ?op"
        unfolding call_ready_def sel using that r1 ch(6) grown_nonneg [of "f_mem f" ms] i(5) fee_nonneg [of "f_mem f"] db'(3)
        by (auto simp: least_def intro: nonce_room_less)
      have end': "ended ?g (f_db f) out" if "ended (?g - cost) db out" for out
        using that evolves_trans [OF db] gr(3) p0 by (fastforce simp: ended_def)
      show ?thesis
      proof (cases "op_valid env ?op")
        case False
        have "ended (?g - cost) db ([], Some (InvalidOpcode ?op), f_con f1, f_db f1)"
          using gr evolves_same [OF db'(1), of 0] by (simp add: ended_def sel)
        then show ?thesis using False step end' by (auto simp: halt_def)
      next
        case True
        have "?op \<noteq> DUP 0" "?op \<noteq> UNDEF b" for b using True by (auto simp: GetOp_def op_of_DUP op_valid_def)
        from dispatch_ok [OF run r1 cr this, of depth h]
        consider (cont) f' where "dispatch run env depth h ?op f1 = Ret (Inl f')" "\<not> halting ?op" "continues ?op f1 f'"
          | (fin) out where "dispatch run env depth h ?op f1 = Ret (Inr out)" "ended (?g - cost) db out"
          unfolding sel by blast
        then show ?thesis
        proof cases
          case cont
          then have c: "length (f_stk f') \<le> StackLimit" "\<forall>x\<in>set (f_stk f'). 0 \<le> x" "length (f_mem f') = length (f_mem f1)"
            "c_self (f_con f') = c_self (f_con f)" "c_value (f_con f') = c_value (f_con f)" "0 \<le> c_Gas (f_con f')"
            "c_Gas (f_con f') + cost \<le> ?g + passed ?op st"
            "evolves (StateOps env) I saved solid (passed ?op st + (?g - cost) - c_Gas (f_con f')) db (f_db f')"
            using ch(2,5) by (auto simp: continues_def sel)
          have less: "c_Gas (f_con f') + 1 + grown (f_mem f) ms \<le> ?g" using c(7) ch(6) cont(2) by (simp add: least_def)
          have e: "evolves (StateOps env) I saved solid (?g - c_Gas (f_con f')) (f_db f) (f_db f')"
            using gr(3) by (intro evolves_trans [OF db c(8)]) simp
          have "fee (f_mem f') = fee (f_mem f) + grown (f_mem f) ms"
            using mem(4) c(3) by (simp add: fee_def f1_def)
          then have "frame_ok (StateOps env) I solid f'"
            using c i less e nonce_room_evolves [OF i(8) e] by (auto simp: frame_ok_def evolvesD)
          then show ?thesis using cont(1) True step e less grown_nonneg [of "f_mem f" ms] by auto
        next
          case fin
          then show ?thesis using True step end' [OF fin(2)] by simp
        qed
      qed
    qed
  qed
qed

section \<open>Runs\<close>

lemma precompile_Gas_nonneg: "0 \<le> l \<Longrightarrow> 0 \<le> precompile_Gas p l"
  by (cases p) (simp_all add: gas_prices)

lemma precompile_Call_ret: "I db \<Longrightarrow> \<exists>r. precompile_Call env p inp = Ret r"
proof (cases p)
  assume i: "I db"
  case PEcrecover
  then show ?thesis using ecrecover_key [OF i]
    by (auto simp: ecrecoverFunc_def Let_def keccak_length [OF i] split: option.splits)
qed simp_all

lemma RunPrecompiled_ended:
  assumes "I db" "0 \<le> c_Gas con"
  shows "\<exists>out. RunPrecompiled env p inp con db = Ret out \<and> ended (c_Gas con) db out"
proof -
  obtain r where "precompile_Call env p inp = Ret r" using precompile_Call_ret [OF assms(1)] by blast
  then show ?thesis using assms precompile_Gas_nonneg [of "int (length inp)" p] evolves_same [OF assms(1)]
    by (auto simp: RunPrecompiled_def UseGas_def useGas_def ended_def)
qed

lemma Run_with_runs:
  assumes loop: "\<And>depth h f. frame_ok (StateOps env) I solid f \<Longrightarrow> c_Gas (f_con f) \<le> G \<Longrightarrow>
    \<exists>out. loop depth h f = Ret out \<and> ended (c_Gas (f_con f)) (f_db f) out"
  shows "runs (StateOps env) I saved solid G (Run_with loop env)"
  unfolding runs_def
proof (intro allI impI)
  fix depth :: nat and db :: "'s" and con :: Contract and input :: bytes
  assume a: "I db" "0 \<le> c_Gas con" "c_Gas con \<le> G" "c_Gas con < 2 ^ 63" "0 \<le> c_value con"
    "c_Code con \<noteq> [] \<longrightarrow> solid db (c_self con)" "nonce_room (StateOps env) db (c_Gas con)"
  have "\<exists>out. Run_with loop env depth db con input = Ret out \<and> ended (c_Gas con) db out"
  proof (cases "Option.bind (c_CodeAddr con) precompiled")
    case (Some p)
    then show ?thesis using RunPrecompiled_ended [OF a(1,2)] by (simp add: Run_with_def)
  next
    case None
    show ?thesis
    proof (cases "c_Code con = []")
      case True
      then show ?thesis using None a evolves_same [OF a(1), of 0] by (simp add: Run_with_def ended_def)
    next
      case False
      let ?f = "\<lparr>f_pc = 0, f_mem = [], f_stk = [], f_con = con\<lparr>c_Input := input\<rparr>, f_db = db\<rparr>"
      have "frame_ok (StateOps env) I solid ?f" using a False by (simp add: frame_ok_def)
      then show ?thesis using None False a(3) loop [of ?f] by (simp add: Run_with_def Let_def)
    qed
  qed
  then show "\<exists>ret err con' db'. Run_with loop env depth db con input = Ret (ret, err, con', db') \<and>
      0 \<le> c_Gas con' \<and> c_Gas con' \<le> c_Gas con \<and> evolves (StateOps env) I saved solid (c_Gas con - c_Gas con') db db'"
    by (auto simp: ended_def)
qed

text \<open>The loop returns when its fuel exceeds the gas, since every step that continues takes gas.\<close>

lemma run_loop_ended:
  "frame_ok (StateOps env) I solid f \<Longrightarrow> c_Gas (f_con f) < int fuel \<Longrightarrow>
    \<exists>out. run_loop fuel env depth h f = Ret out \<and> ended (c_Gas (f_con f)) (f_db f) out"
proof (induction fuel arbitrary: depth h f)
  case 0
  then show ?case by (simp add: frame_ok_def)
next
  case (Suc fuel)
  have "runs (StateOps env) I saved solid (c_Gas (f_con f) - 1) (Run_with (run_loop fuel env) env)"
    using Suc.prems(2) by (intro Run_with_runs Suc.IH) auto
  from step_ok [OF Suc.prems(1) this, of depth h] consider
    (cont) f' where "step (Run_with (run_loop fuel env) env) env depth h f = Ret (Inl f')"
      "frame_ok (StateOps env) I solid f'" "c_Gas (f_con f') < c_Gas (f_con f)"
      "evolves (StateOps env) I saved solid (c_Gas (f_con f) - c_Gas (f_con f')) (f_db f) (f_db f')"
  | (fin) out where "step (Run_with (run_loop fuel env) env) env depth h f = Ret (Inr out)"
      "ended (c_Gas (f_con f)) (f_db f) out" by blast
  then show ?case
  proof cases
    case cont
    then obtain out where o: "run_loop fuel env depth h f' = Ret out" "ended (c_Gas (f_con f')) (f_db f') out"
      using Suc.IH [of f' depth h] Suc.prems(2) by auto
    have "ended (c_Gas (f_con f)) (f_db f) out"
      using o(2) cont(3) evolves_trans [OF cont(4)] by (fastforce simp: ended_def)
    then show ?thesis using cont(1) o(1) by simp
  qed simp
qed

theorem Run_runs: "G < int fuel \<Longrightarrow> runs (StateOps env) I saved solid G (Run fuel env)"
  unfolding Run_def by (intro Run_with_runs run_loop_ended) auto

end

end
