(* ===== verification/State_Safe.thy ===== *)
theory State_Safe
  imports State_Revert VM_Steps
begin

text \<open>
  The state database as the state of the virtual machine: the invariant of the database, and that the
  database provides what the machine relies on.
\<close>

section \<open>Reading the view\<close>

definition nonce_of :: "aview \<Rightarrow> address \<Rightarrow> u64" where
  "nonce_of v a = (case v_acct v a of None \<Rightarrow> 0 | Some x \<Rightarrow> a_nonce x)"

definition balance_of :: "aview \<Rightarrow> address \<Rightarrow> int" where
  "balance_of v a = (case v_acct v a of None \<Rightarrow> 0 | Some x \<Rightarrow> a_balance x)"

definition code_of :: "aview \<Rightarrow> address \<Rightarrow> bytes" where
  "code_of v a = (case v_acct v a of None \<Rightarrow> [] | Some x \<Rightarrow> nil_bytes (a_code x))"

definition storage_of :: "aview \<Rightarrow> address \<Rightarrow> hash \<Rightarrow> hash" where
  "storage_of v a k = (case v_acct v a of None \<Rightarrow> zero_hash | Some x \<Rightarrow> a_storage x k)"

lemma reads_view:
  "fst (GetNonce b s a) = nonce_of (view b s) a" "fst (GetBalance b s a) = balance_of (view b s) a"
  "fst (GetCode b s a) = code_of (view b s) a" "fst (GetCodeSize b s a) = int (length (code_of (view b s) a))"
  "fst (GetState b s a k) = storage_of (view b s) a k" "fst (Exist b s a) = (v_acct (view b s) a \<noteq> None)"
proof -
  obtain r s' where g: "GetStateObject b s a = (r, s')" by fastforce
  have d: "sd_db s' = sd_db s" using g by (cases rule: GetStateObject_cases) simp_all
  show "fst (GetNonce b s a) = nonce_of (view b s) a" "fst (GetBalance b s a) = balance_of (view b s) a"
    "fst (GetCode b s a) = code_of (view b s) a" "fst (GetCodeSize b s a) = int (length (code_of (view b s) a))"
    "fst (GetState b s a k) = storage_of (view b s) a k" "fst (Exist b s a) = (v_acct (view b s) a \<noteq> None)"
    using g d by (auto simp: GetNonce_def GetBalance_def GetCode_def GetCodeSize_def GetState_def Exist_def view_def
        nonce_of_def balance_of_def code_of_def storage_of_def acct_of_def split: option.splits prod.splits)
qed

section \<open>The invariant\<close>

text \<open>
  An account is solid if it has a nonce or a code hash. Balances and the refund are not negative, and an account that
  is empty and was not touched is as in the trie, so that undoing a touch restores it.
\<close>

definition acct_solid :: "('t, 'd) Backend \<Rightarrow> acct \<Rightarrow> bool" where
  "acct_solid b x \<longleftrightarrow> a_nonce x \<noteq> 0 \<or> a_codehash x \<noteq> emptyCodeHash b"

definition acct_ok :: "('t, 'd) Backend \<Rightarrow> acct \<Rightarrow> bool" where
  "acct_ok b x \<longleftrightarrow>
     0 \<le> a_balance x \<and> length (a_codehash x) = 32 \<and> (nil_bytes (a_code x) \<noteq> [] \<longrightarrow> acct_solid b x)"

definition view_ok :: "('t, 'd) Backend \<Rightarrow> (address \<Rightarrow> acct option) \<Rightarrow> aview \<Rightarrow> bool" where
  "view_ok b old v \<longleftrightarrow>
     0 \<le> v_refund v \<and>
     (\<forall>a x. v_acct v a = Some x \<longrightarrow> acct_ok b x \<and> (acct_empty b x \<longrightarrow> \<not> a_touched x \<longrightarrow> old a = Some x))"

definition state_ok :: "('t, 'd) Backend \<Rightarrow> ('t, 'd) state_db \<Rightarrow> bool" where
  "state_ok b s \<longleftrightarrow>
     wf_objects b s \<and> list_all entry_ok (sd_journal s) \<and> revs_ok s \<and> view_ok b (base b s) (view b s) \<and>
     (\<forall>n v. saved b s n = Some v \<longrightarrow> view_ok b (base b s) v)"

definition solid_in :: "('t, 'd) Backend \<Rightarrow> aview \<Rightarrow> address \<Rightarrow> bool" where
  "solid_in b v a \<longleftrightarrow> (case v_acct v a of None \<Rightarrow> False | Some x \<Rightarrow> acct_solid b x)"

definition state_solid :: "('t, 'd) Backend \<Rightarrow> ('t, 'd) state_db \<Rightarrow> address \<Rightarrow> bool" where
  "state_solid b s a \<longleftrightarrow> solid_in b (view b s) a"

lemma state_okD:
  assumes "state_ok b s"
  shows "wf_objects b s" "list_all entry_ok (sd_journal s)" "revs_ok s" "view_ok b (base b s) (view b s)"
    "saved b s n = Some v \<Longrightarrow> view_ok b (base b s) v"
  using assms by (auto simp: state_ok_def)

lemma view_ok_set:
  assumes "view_ok b old v" "acct_ok b x" "acct_empty b x \<Longrightarrow> \<not> a_touched x \<Longrightarrow> old a = Some x"
  shows "view_ok b old (set_acct a (Some x) v)"
  using assms by (auto simp: view_ok_def)

lemma does_state_ok:
  assumes "state_ok b s" "does b s v s'" "view_ok b (base b s) v"
  shows "state_ok b s'"
proof -
  obtain es where "becomes b s es v s'" using assms(2) by (auto simp: does_def)
  then have "list_all entry_ok (sd_journal s')" using assms(1) by (simp add: becomes_def frame_of_def state_ok_def)
  then show ?thesis
    using assms doesD [OF assms(2)] does_saved [OF assms(2) state_okD(3) [OF assms(1)]]
    by (auto simp: state_ok_def)
qed

section \<open>Transfers\<close>

definition core_CanTransfer :: "'s StateDB \<Rightarrow> 's \<Rightarrow> address \<Rightarrow> int \<Rightarrow> bool" where
  "core_CanTransfer ops db addr amount \<longleftrightarrow> sdb_GetBalance ops db addr \<ge> amount"

definition core_Transfer :: "'s StateDB \<Rightarrow> 's \<Rightarrow> address \<Rightarrow> address \<Rightarrow> int \<Rightarrow> 's" where
  "core_Transfer ops db sender recipient amount =
     sdb_AddBalance ops (sdb_SubBalance ops db sender amount) recipient amount"

text \<open>
  An environment over the database, as \<open>NewEVMContext\<close> sets it up. Hashes have 32 bytes and a recovered
  public key is not empty.
\<close>

definition env_ok :: "('t, 'd) Backend \<Rightarrow> ('t, 'd) state_db Environment \<Rightarrow> bool" where
  "env_ok b env \<longleftrightarrow>
     StateOps env = state_ops b \<and> CanTransfer env = core_CanTransfer (state_ops b) \<and>
     Transfer env = core_Transfer (state_ops b) \<and> IsEIP158 (chainConfig env) (Some (BlockNumber env)) \<and>
     0 \<le> GasPrice env \<and> (\<forall>x. length (Keccak256 env x) = 32) \<and> b_Keccak256 b = Keccak256 env \<and>
     (\<forall>h sig. Ecrecover env h sig \<noteq> Some [])"

definition evm_ok :: "('t, 'd) Backend \<Rightarrow> ('t, 'd) state_db Environment \<Rightarrow> ('t, 'd) state_db \<Rightarrow> bool" where
  "evm_ok b env s \<longleftrightarrow> env_ok b env \<and> state_ok b s"

section \<open>Growth\<close>

text \<open>How a step may change the nonces, and that solid accounts stay solid.\<close>

definition grows :: "('t, 'd) Backend \<Rightarrow> int \<Rightarrow> aview \<Rightarrow> aview \<Rightarrow> bool" where
  "grows b k v v' \<longleftrightarrow>
     (\<forall>a. solid_in b v a \<longrightarrow> solid_in b v' a) \<and>
     (\<forall>a. nonce_of v a \<noteq> 0 \<longrightarrow> nonce_of v' a \<noteq> 0) \<and>
     (\<forall>a. uint (nonce_of v' a) \<le> uint (nonce_of v a) + k)"

lemma grows_set:
  assumes "0 \<le> k" "solid_in b v a \<Longrightarrow> acct_solid b y"
    "nonce_of v a \<noteq> 0 \<Longrightarrow> a_nonce y \<noteq> 0" "uint (a_nonce y) \<le> uint (nonce_of v a) + k"
  shows "grows b k v (set_acct a (Some y) v)"
  using assms by (auto simp: grows_def nonce_of_def solid_in_def)

definition keeps ::
  "('t, 'd) Backend \<Rightarrow> ('t, 'd) state_db Environment \<Rightarrow> int \<Rightarrow> ('t, 'd) state_db \<Rightarrow> ('t, 'd) state_db \<Rightarrow> bool" where
  "keeps b env k s s' \<longleftrightarrow> evm_ok b env s' \<and> saved b s' = saved b s \<and> grows b k (view b s) (view b s')"

lemma grows_trans: "grows b k v v' \<Longrightarrow> grows b l v' v'' \<Longrightarrow> grows b (k + l) v v''"
  unfolding grows_def by (smt (verit))

lemma keeps_trans: "keeps b env k s s' \<Longrightarrow> keeps b env l s' s'' \<Longrightarrow> keeps b env (k + l) s s''"
  by (auto simp: keeps_def intro: grows_trans)

lemma keeps_does:
  assumes "evm_ok b env s" "does b s v s'" "view_ok b (base b s) v" "grows b k (view b s) v"
  shows "keeps b env k s s'"
  using assms does_state_ok [OF _ assms(2,3)] does_saved [OF assms(2)] doesD(2) [OF assms(2)]
  by (auto simp: keeps_def evm_ok_def state_ok_def)

lemma view_okD: "view_ok b old v \<Longrightarrow> v_acct v a = Some x \<Longrightarrow> acct_ok b x"
  by (simp add: view_ok_def)

lemma evm_okD:
  assumes "evm_ok b env s"
  shows "wf_objects b s" "revs_ok s" "view_ok b (base b s) (view b s)" "length (emptyCodeHash b) = 32"
  using assms by (auto simp: evm_ok_def state_ok_def env_ok_def emptyCodeHash_def)

lemma got_ok: "evm_ok b env s \<Longrightarrow> acct_ok b (got b s a)"
  using evm_okD by (fastforce simp: got_def acct_ok_def nil_bytes_def dest: view_okD split: option.splits)

lemma got_sel: "a_nonce (got b s a) = nonce_of (view b s) a" "a_balance (got b s a) = balance_of (view b s) a"
  by (simp_all add: got_def nonce_of_def balance_of_def split: option.splits)

lemma got_solid: "solid_in b (view b s) a \<Longrightarrow> acct_solid b (got b s a)"
  by (simp add: solid_in_def got_def split: option.splits)

text \<open>A step that changes one account.\<close>

lemma keeps_set:
  assumes "evm_ok b env s" "does b s (set_acct a (Some y) (view b s)) s'" "acct_ok b y"
    "acct_solid b y \<or> a_touched y \<or> 0 < a_balance y" "0 \<le> k"
    "solid_in b (view b s) a \<Longrightarrow> acct_solid b y" "nonce_of (view b s) a \<noteq> 0 \<Longrightarrow> a_nonce y \<noteq> 0"
    "uint (a_nonce y) \<le> uint (nonce_of (view b s) a) + k"
  shows "keeps b env k s s'"
  using assms evm_okD [OF assms(1)]
  by (auto intro!: keeps_does view_ok_set grows_set simp: acct_empty_def acct_solid_def)

lemma AddBalance_keeps:
  assumes "evm_ok b env s" "0 \<le> x"
  shows "keeps b env 0 s (AddBalance b s a x)"
proof (cases "x = 0 \<and> acct_empty b (got b s a)")
  case True
  have "base b s a = Some y" if "v_acct (view b s) a = Some y" "\<not> a_touched y" for y
    using True that evm_okD(3) [OF assms(1)] by (auto simp: got_def view_ok_def)
  then have "does b s (set_acct a (Some ((got b s a)\<lparr>a_touched := True\<rparr>)) (view b s)) (AddBalance b s a x)"
    using True does_touch [OF evm_okD(1) [OF assms(1)]] by simp
  then show ?thesis
    by (rule keeps_set [OF assms(1)])
      (use got_ok [OF assms(1), of a] got_solid [of b s a] in \<open>auto simp: acct_ok_def acct_solid_def got_sel\<close>)
next
  case False
  then have "does b s (set_acct a (Some ((got b s a)\<lparr>a_balance := a_balance (got b s a) + x\<rparr>)) (view b s)) (AddBalance b s a x)"
    by (intro does_AddBalance [OF evm_okD(1) [OF assms(1)]]) auto
  then show ?thesis
    by (rule keeps_set [OF assms(1)])
      (use False assms(2) got_ok [OF assms(1), of a] got_solid [of b s a] in
        \<open>auto simp: acct_ok_def acct_solid_def acct_empty_def got_sel\<close>)
qed

lemma SubBalance_keeps:
  assumes "evm_ok b env s" "x \<le> balance_of (view b s) a" "solid_in b (view b s) a"
  shows "keeps b env 0 s (SubBalance b s a x)"
  by (rule keeps_set [OF assms(1) does_SubBalance [OF evm_okD(1) [OF assms(1)]]])
    (use assms got_ok [OF assms(1), of a] got_solid [of b s a] in \<open>auto simp: acct_ok_def acct_solid_def got_sel\<close>)

lemma SetState_keeps:
  assumes "evm_ok b env s" "solid_in b (view b s) a"
  shows "keeps b env 0 s (SetState b s a k x)"
  by (rule keeps_set [OF assms(1) does_SetState [OF evm_okD(1) [OF assms(1)]]])
    (use assms got_ok [OF assms(1), of a] got_solid [of b s a] in \<open>auto simp: acct_ok_def acct_solid_def got_sel\<close>)

lemma SetCode_keeps:
  assumes "evm_ok b env s" "nonce_of (view b s) a \<noteq> 0"
  shows "keeps b env 0 s (SetCode b s a c)"
proof -
  have "length (a_codehash (got b s a)) = 32" using got_ok [OF assms(1)] by (simp add: acct_ok_def)
  from does_SetCode [OF evm_okD(1) [OF assms(1)] this] show ?thesis
    by (rule keeps_set [OF assms(1)])
      (use assms got_ok [OF assms(1), of a] in \<open>auto simp: acct_ok_def acct_solid_def got_sel\<close>)
qed

lemma SetNonce_keeps:
  assumes "evm_ok b env s" "n \<noteq> 0" "uint n \<le> uint (nonce_of (view b s) a) + 1"
  shows "keeps b env 1 s (SetNonce b s a n)"
  by (rule keeps_set [OF assms(1) does_SetNonce [OF evm_okD(1) [OF assms(1)]]])
    (use assms got_ok [OF assms(1), of a] in \<open>auto simp: acct_ok_def acct_solid_def\<close>)

lemma Suicide_keeps:
  assumes "evm_ok b env s" "solid_in b (view b s) a"
  shows "keeps b env 0 s (snd (Suicide b s a))"
proof -
  obtain x where x: "v_acct (view b s) a = Some x" "acct_solid b x" using assms(2) by (auto simp: solid_in_def split: option.splits)
  show ?thesis
    by (rule keeps_set [OF assms(1) does_Suicide [OF evm_okD(1) [OF assms(1)] x(1)]])
      (use x view_okD [OF evm_okD(3) [OF assms(1)] x(1)] in \<open>auto simp: acct_ok_def acct_solid_def nonce_of_def\<close>)
qed

lemma other_keeps:
  assumes "evm_ok b env s"
  shows "0 \<le> g \<Longrightarrow> keeps b env 0 s (AddRefund s g)"
    "keeps b env 0 s (AddLog s l)"
proof -
  have same: "view_ok b (base b s) v" "grows b 0 (view b s) v" if "v_acct v = v_acct (view b s)" "0 \<le> v_refund v" for v
    using that evm_okD(3) [OF assms] by (auto simp: view_ok_def grows_def solid_in_def nonce_of_def)
  have r: "0 \<le> v_refund (view b s)" using evm_okD(3) [OF assms] by (simp add: view_ok_def)
  show "keeps b env 0 s (AddRefund s g)" if "0 \<le> g"
    by (rule keeps_does [OF assms does_AddRefund [OF evm_okD(1) [OF assms]]]) (use that r in \<open>simp_all add: same\<close>)
  obtain v where "v_acct v = v_acct (view b s)" "v_refund v = v_refund (view b s)" "does b s v (AddLog s l)"
    using does_AddLog [OF evm_okD(1) [OF assms]] by blast
  then show "keeps b env 0 s (AddLog s l)" using r same [of v] by (simp add: keeps_does [OF assms])
qed

section \<open>The interface of the machine\<close>

lemma fresh_acct_balance: "(fresh_acct b d a)\<lparr>a_balance := 0\<rparr> = fresh_acct b d a"
  by (simp add: fresh_acct_def acct_of_def newObject_def)

lemma keeps_solid:
  assumes "keeps b env k s s'" "solid_in b (view b s) a"
  shows "evm_ok b env s'" "solid_in b (view b s') a"
  using assms by (auto simp: keeps_def grows_def)

lemma transfer_keeps:
  assumes "evm_ok b env s" "solid_in b (view b s) c" "0 \<le> v" "v \<le> balance_of (view b s) c"
  shows "keeps b env 0 s (AddBalance b (SubBalance b s c v) a v)"
proof -
  have e: "keeps b env 0 s (SubBalance b s c v)"
    using SubBalance_keeps [OF assms(1,4,2)] .
  show ?thesis using keeps_trans [OF e AddBalance_keeps [OF keeps_solid(1) [OF e assms(2)] assms(3)]] by simp
qed

text \<open>A transfer to an account that is created for it. A transfer of nothing touches the account.\<close>

lemma create_transfer_0:
  assumes "evm_ok b env s" "v_acct (view b s) c \<noteq> None" "v_acct (view b s) a = None"
  shows "keeps b env 0 s
    (AddBalance b (SubBalance b (CreateAccount b s a) c 0) a 0)"
proof -
  note w = evm_okD(1) [OF assms(1)]
  define s1 where "s1 = CreateAccount b s a"
  define s2 where "s2 = SubBalance b s1 c 0"
  have c1: "becomes b s [createObjectChange a] (set_acct a (Some (fresh_acct b (sd_db s) a)) (view b s)) s1"
    unfolding s1_def by (rule CreateAccount_effect(1) [OF w assms(3)])
  note d1 = becomesD [OF c1]
  have c2: "becomes b s1 [] (view b s1) s2"
    using SubBalance_effect(2) [OF d1(1), of 0 c] assms(2,3) d1(2)
    by (cases "c = a") (auto simp: s2_def news_def got_def)
  note d2 = becomesD [OF c2]
  have g: "got b s2 a = fresh_acct b (sd_db s) a" using d1 d2 by (simp add: got_def)
  then obtain t where "becomes b s2 [touchChange a t]
      (set_acct a (Some ((fresh_acct b (sd_db s) a)\<lparr>a_touched := True\<rparr>)) (view b s2)) (AddBalance b s2 a 0)"
    using AddBalance_effect(3) [OF d2(1) refl, of a] d1(2) d2(2) by (auto simp: acct_empty_def news_def)
  from becomes_trans [OF c1 becomes_trans [OF c2 this]]
  have "does b s (set_acct a (Some ((fresh_acct b (sd_db s) a)\<lparr>a_touched := True\<rparr>)) (view b s)) (AddBalance b s2 a 0)"
    using d1(2) d2(2) by (intro does_create_touch [OF w assms(3)]) simp
  then show ?thesis unfolding s2_def s1_def
    by (rule keeps_set [OF assms(1)])
      (use assms(3) evm_okD(4) [OF assms(1)] in \<open>auto simp: acct_ok_def acct_solid_def nil_bytes_def solid_in_def nonce_of_def\<close>)
qed

lemma create_transfer:
  assumes "evm_ok b env s" "solid_in b (view b s) c" "v_acct (view b s) a = None" "0 < v" "v \<le> balance_of (view b s) c"
  shows "keeps b env 0 s
    (AddBalance b (SubBalance b (CreateAccount b s a) c v) a v)"
proof -
  note w = evm_okD(1) [OF assms(1)]
  obtain x where x: "v_acct (view b s) c = Some x" "acct_solid b x"
    using assms(2) by (auto simp: solid_in_def split: option.splits)
  have ca: "c \<noteq> a" using x assms(3) by auto
  define f where "f = fresh_acct b (sd_db s) a"
  have c1: "does b s (set_acct a (Some f) (view b s)) (CreateAccount b s a)"
    using does_CreateAccount [OF w, of a] assms(3) by (simp add: got_def f_def fresh_acct_balance)
  note d1 = doesD [OF c1]
  note c2 = does_SubBalance [OF d1(1), of c v]
  note d2 = doesD [OF c2]
  note c3 = does_AddBalance [OF d2(1), of v a]
  have g: "got b (CreateAccount b s a) c = x" "got b (SubBalance b (CreateAccount b s a) c v) a = f"
    using d1 d2 x(1) ca by (simp_all add: got_def)
  let ?v = "set_acct c (Some (x\<lparr>a_balance := a_balance x - v\<rparr>)) (view b s)"
  let ?w = "set_acct a (Some (f\<lparr>a_balance := v\<rparr>)) ?v"
  have "does b s ?w (AddBalance b (SubBalance b (CreateAccount b s a) c v) a v)"
    using does_trans [OF c1 does_trans [OF c2 c3]] assms(4) d1(2) d2(2) g ca
    by (simp add: f_def set_acct_def fun_upd_twist)
  moreover have "view_ok b (base b s) ?w"
    using evm_okD(3,4) [OF assms(1)] assms(4,5) x view_okD [OF evm_okD(3) [OF assms(1)] x(1)]
    by (intro view_ok_set) (auto simp: acct_ok_def acct_solid_def acct_empty_def balance_of_def f_def nil_bytes_def)
  moreover have "grows b 0 (view b s) ?w"
    using x assms(3) ca by (auto simp: grows_def solid_in_def nonce_of_def acct_solid_def f_def)
  ultimately show ?thesis by (rule keeps_does [OF assms(1)])
qed

lemma begin_call_keeps:
  assumes "evm_ok b env s" "solid_in b (view b s) c" "0 \<le> v" "v \<le> balance_of (view b s) c"
  shows "keeps b env 0 s
    (AddBalance b (SubBalance b (if v_acct (view b s) a = None then CreateAccount b s a else s) c v) a v)"
proof (cases "v_acct (view b s) a = None")
  case True
  then show ?thesis
    using create_transfer [OF assms(1,2) True _ assms(4)] create_transfer_0 [OF assms(1) _ True, of c] assms(2,3)
    by (cases "v = 0") (auto simp: solid_in_def split: option.splits)
qed (use transfer_keeps [OF assms] in auto)

lemma create_nonce_keeps:
  assumes "evm_ok b env s" "s' = SetNonce b (CreateAccount b s a) a 1"
  shows "keeps b env 1 s s'"
    "balance_of (view b s') = balance_of (view b s)" "nonce_of (view b s') a = 1"
proof -
  note w = evm_okD(1) [OF assms(1)]
  note c1 = does_CreateAccount [OF w, of a]
  note d1 = doesD [OF c1]
  define y where "y = (fresh_acct b (sd_db s) a)\<lparr>a_balance := balance_of (view b s) a, a_nonce := 1\<rparr>"
  have c2: "does b s (set_acct a (Some y) (view b s)) s'"
    using does_trans [OF c1 does_SetNonce [OF d1(1), of a 1]] d1 by (simp add: y_def got_def [of b "CreateAccount b s a"] got_sel assms(2))
  note d2 = doesD [OF c2]
  show "balance_of (view b s') = balance_of (view b s)" "nonce_of (view b s') a = 1"
    using d2 by (auto simp: balance_of_def nonce_of_def y_def)
  show "keeps b env 1 s s'"
    by (rule keeps_set [OF assms(1) c2])
      (use got_ok [OF assms(1), of a] evm_okD(4) [OF assms(1)] in \<open>auto simp: y_def acct_ok_def acct_solid_def nil_bytes_def got_sel\<close>)
qed

lemma begin_create_keeps:
  assumes "evm_ok b env s" "solid_in b (view b s) c" "0 \<le> v" "v \<le> balance_of (view b s) c"
    "s' = AddBalance b (SubBalance b (SetNonce b (CreateAccount b s a) a 1) c v) a v"
  shows "keeps b env 1 s s'" "nonce_of (view b s') a \<noteq> 0"
proof -
  note e = create_nonce_keeps [OF assms(1) refl, of a]
  have e2: "keeps b env 0 (SetNonce b (CreateAccount b s a) a 1) s'"
    unfolding assms(5) using keeps_solid [OF e(1) assms(2)] assms(3,4) e(2) by (intro transfer_keeps) simp_all
  show "keeps b env 1 s s'" using keeps_trans [OF e(1) e2] by simp
  show "nonce_of (view b s') a \<noteq> 0" using e2 e(3) unfolding keeps_def grows_def by (metis zero_neq_one)
qed

lemma Snapshot_ok:
  assumes "evm_ok b env s" "Snapshot s = (n, s')"
  shows "evm_ok b env s' \<and> view b s' = view b s \<and> saved b s' n = Some (view b s) \<and>
    (\<forall>m v. saved b s m = Some v \<longrightarrow> m < n \<and> saved b s' m = Some v)"
proof -
  note r = Snapshot_saved [OF evm_okD(2,1) [OF assms(1)] assms(2)]
  have "view_ok b (base b s) v" if "saved b s' m = Some v" for m v
    using that r(6) r(7) [of m] r(8) [OF that] assms(1) by (cases "m = n") (auto simp: evm_ok_def state_ok_def)
  then have "evm_ok b env s'" using assms(1) r by (auto simp: evm_ok_def state_ok_def)
  then show ?thesis using r by (metis)
qed

lemma RevertToSnapshot_ok:
  assumes "evm_ok b env s" "saved b s n = Some v"
  shows "\<exists>s'. RevertToSnapshot b s n = Ret s' \<and> evm_ok b env s' \<and> view b s' = v \<and>
    (\<forall>m w. m < n \<longrightarrow> saved b s m = Some w \<longrightarrow> saved b s' m = Some w)"
proof -
  have "state_ok b s" using assms(1) by (simp add: evm_ok_def)
  note k = state_okD [OF this]
  obtain s' where s': "RevertToSnapshot b s n = Ret s'" "view b s' = v" "wf_objects b s'" "base b s' = base b s"
    "list_all entry_ok (sd_journal s')" "revs_ok s'" "\<And>m. saved b s' m = (if m < n then saved b s m else None)"
    using RevertToSnapshot_saved [OF k(1-3) assms(2)] by blast
  then have "evm_ok b env s'" using assms(1) k(5) [OF assms(2)] k(5)
    by (auto simp: evm_ok_def state_ok_def split: if_splits)
  then show ?thesis using s' by auto
qed

section \<open>Balances\<close>

lemma balance_of_set [simp]: "balance_of (set_acct a (Some y) v) = (balance_of v)(a := a_balance y)"
  by (auto simp: balance_of_def)

lemma balance_effects:
  assumes "wf_objects b s"
  shows "balance_of (view b (AddBalance b s a x)) = (balance_of (view b s))(a := balance_of (view b s) a + x)"
    "balance_of (view b (SubBalance b s a x)) = (balance_of (view b s))(a := balance_of (view b s) a - x)"
    "balance_of (view b (CreateAccount b s a)) = balance_of (view b s)"
    "balance_of (view b (SetNonce b s a n)) = balance_of (view b s)"
    "balance_of (view b (SetState b s a k w)) = balance_of (view b s)"
    "balance_of (view b (SetCode b s a c)) = balance_of (view b s)"
    "balance_of (view b (snd (Suicide b s a))) = (balance_of (view b s))(a := 0)"
proof -
  have idem: "(balance_of (view b s))(a := a_balance (got b s a)) = balance_of (view b s)" by (simp add: got_sel)
  show "balance_of (view b (AddBalance b s a x)) = (balance_of (view b s))(a := balance_of (view b s) a + x)"
    using AddBalance_effect [OF assms, where x = x and a = a] idem
    by (cases "x = 0"; cases "acct_empty b (got b s a)") (auto simp: becomesD(2) got_sel)
  show "balance_of (view b (SubBalance b s a x)) = (balance_of (view b s))(a := balance_of (view b s) a - x)"
    using SubBalance_effect [OF assms, where x = x and a = a] idem by (cases "x = 0") (simp_all add: becomesD(2) got_sel)
  show "balance_of (view b (CreateAccount b s a)) = balance_of (view b s)"
    using doesD(2) [OF does_CreateAccount [OF assms, of a]] idem by simp
  show "balance_of (view b (SetNonce b s a n)) = balance_of (view b s)"
    "balance_of (view b (SetState b s a k w)) = balance_of (view b s)"
    "balance_of (view b (SetCode b s a c)) = balance_of (view b s)"
    using becomesD(2) [OF SetNonce_effect [OF assms, of a n]] becomesD(2) [OF SetState_effect [OF assms, of a k w]]
      becomesD(2) [OF SetCode_effect [OF assms, of a c]] idem by simp_all
  show "balance_of (view b (snd (Suicide b s a))) = (balance_of (view b s))(a := 0)"
  proof (cases "v_acct (view b s) a")
    case None
    obtain r s' where g: "GetStateObject b s a = (r, s')" by fastforce
    then have "snd (Suicide b s a) = s'" "view b s' = view b s"
      using None GetStateObject_view(1,4) [OF assms g] by (simp_all add: Suicide_def)
    then show ?thesis using None by (auto simp: balance_of_def)
  next
    case (Some y)
    then show ?thesis using becomesD(2) [OF Suicide_effect [OF assms Some]] by simp
  qed
qed

definition bounded :: "(address \<Rightarrow> int) \<Rightarrow> int \<Rightarrow> bool" where
  "bounded f T \<longleftrightarrow> (\<forall>A. finite A \<longrightarrow> sum f A \<le> T)"

lemma bounded_mono: "bounded f T \<Longrightarrow> (\<And>a. g a \<le> f a) \<Longrightarrow> bounded g T"
  unfolding bounded_def by (meson order_trans sum_mono)

lemma bounded_move:
  assumes "bounded f T" "\<And>a. 0 \<le> f a" "0 \<le> x" "x \<le> f c" "g = f(c := f c - x)" "h = g(a := g a + x)"
  shows "bounded h T"
  unfolding bounded_def
proof (intro allI impI)
  fix A :: "address set" assume A: "finite A"
  show "sum h A \<le> T"
  proof (cases "a = c")
    case True
    then have "h = f" using assms(5,6) by auto
    then show ?thesis using assms(1) A by (simp add: bounded_def)
  next
    case False
    let ?B = "insert a (insert c A)"
    have split: "sum k ?B = k a + (k c + sum k (A - {a, c}))" for k :: "address \<Rightarrow> int"
      using A False by (simp add: sum.insert_remove insert_Diff_if Diff_insert2 [symmetric] insert_commute)
    have "sum h A \<le> sum h ?B" using A assms by (intro sum_mono2) auto
    also have "\<dots> = sum f ?B" unfolding split using False assms(5,6) by (auto intro!: sum.cong)
    also have "\<dots> \<le> T" using assms(1) A by (simp add: bounded_def)
    finally show ?thesis .
  qed
qed

section \<open>The database provides the interface\<close>

lemma evm_StateOps:
  assumes "evm_ok b env s"
  shows "StateOps env = state_ops b" "CanTransfer env = core_CanTransfer (state_ops b)"
    "Transfer env = core_Transfer (state_ops b)"
  using assms by (simp_all add: evm_ok_def env_ok_def)

lemmas ops_simps = state_ops_def core_CanTransfer_def core_Transfer_def reads_view state_solid_def

lemma supply_bounded: "supply_le (state_ops b) s T \<longleftrightarrow> bounded (balance_of (view b s)) T"
  by (simp add: supply_le_def bounded_def state_ops_def reads_view)

lemma evolves_keeps:
  assumes "keeps b env k s s'" "\<And>T. bounded (balance_of (view b s)) T \<Longrightarrow> bounded (balance_of (view b s')) T"
  shows "evolves (state_ops b) (evm_ok b env) (saved b) (state_solid b) k s s'"
proof -
  have "uint (nonce_of (view b s') a) \<le> B + k" if "\<forall>a. uint (nonce_of (view b s) a) \<le> B" for a B
    using assms(1) that unfolding keeps_def grows_def by (smt (verit))
  then show ?thesis
    using assms
    by (auto simp: evolves_def keeps_def grows_def supply_bounded state_solid_def) (simp_all add: state_ops_def reads_view)
qed

lemma balance_nonneg_view: "evm_ok b env s \<Longrightarrow> 0 \<le> balance_of (view b s) a"
  using got_ok [of b env s a] by (simp add: acct_ok_def got_sel)

lemma transfer_bounded:
  assumes "evm_ok b env s" "wf_objects b s1" "balance_of (view b s1) = balance_of (view b s)" "wf_objects b (SubBalance b s1 c v)"
    "0 \<le> v" "v \<le> balance_of (view b s) c" "bounded (balance_of (view b s)) T"
  shows "bounded (balance_of (view b (AddBalance b (SubBalance b s1 c v) a v))) T"
  by (rule bounded_move [OF assms(7) _ assms(5,6) refl])
    (use assms balance_nonneg_view [OF assms(1)] in \<open>simp_all add: balance_effects\<close>)

lemma wf_effects:
  assumes "wf_objects b s"
  shows "wf_objects b (CreateAccount b s a)" "wf_objects b (SetNonce b s a n)" "wf_objects b (SubBalance b s a x)"
    "wf_objects b (AddBalance b s a x)"
proof -
  show "wf_objects b (CreateAccount b s a)" "wf_objects b (SetNonce b s a n)" "wf_objects b (SubBalance b s a x)"
    using doesD(1) [OF does_CreateAccount [OF assms]] doesD(1) [OF does_SetNonce [OF assms]]
      doesD(1) [OF does_SubBalance [OF assms]] by auto
  show "wf_objects b (AddBalance b s a x)"
    using AddBalance_effect [OF assms, where x = x and a = a]
    by (cases "x = 0"; cases "acct_empty b (got b s a)") (auto dest: becomesD(1))
qed

lemma suicide_evolves:
  assumes "evm_ok b env s" "solid_in b (view b s) a"
  shows "evolves (state_ops b) (evm_ok b env) (saved b) (state_solid b) 0 s
    (snd (Suicide b (AddBalance b s r (balance_of (view b s) a)) a))"
proof (rule evolves_keeps)
  let ?x = "balance_of (view b s) a"
  note x = balance_nonneg_view [OF assms(1)]
  have k: "keeps b env 0 s (AddBalance b s r ?x)" by (rule AddBalance_keeps [OF assms(1) x])
  show "keeps b env 0 s (snd (Suicide b (AddBalance b s r ?x) a))"
    using keeps_trans [OF k Suicide_keeps [OF keeps_solid [OF k assms(2)]]] by simp
  note w = evm_okD(1) [OF assms(1)]
  fix T assume T: "bounded (balance_of (view b s)) T"
  let ?f = "balance_of (view b s)"
  have "bounded ((?f(a := ?f a - ?x))(r := (?f(a := ?f a - ?x)) r + ?x)) T"
    by (rule bounded_move [OF T x x order_refl refl refl])
  then show "bounded (balance_of (view b (snd (Suicide b (AddBalance b s r ?x) a)))) T"
    by (rule bounded_mono) (use x in \<open>auto simp: balance_effects w wf_effects\<close>)
qed

lemma same_balance_evolves:
  assumes "keeps b env k s s'" "balance_of (view b s') = balance_of (view b s)"
  shows "evolves (state_ops b) (evm_ok b env) (saved b) (state_solid b) k s s'"
  using assms by (intro evolves_keeps) auto

lemma begin_call_evolves:
  assumes "evm_ok b env s" "solid_in b (view b s) c" "0 \<le> v" "v \<le> balance_of (view b s) c"
  shows "evolves (state_ops b) (evm_ok b env) (saved b) (state_solid b) 0 s
    (AddBalance b (SubBalance b (if v_acct (view b s) a = None then CreateAccount b s a else s) c v) a v)"
  by (rule evolves_keeps [OF begin_call_keeps [OF assms] transfer_bounded [OF assms(1) _ _ _ assms(3,4)]])
    (auto simp: wf_effects balance_effects evm_okD(1) [OF assms(1)])

lemma begin_create_evolves:
  assumes "evm_ok b env s" "solid_in b (view b s) c" "0 \<le> v" "v \<le> balance_of (view b s) c"
  shows "evolves (state_ops b) (evm_ok b env) (saved b) (state_solid b) 1 s
    (AddBalance b (SubBalance b (SetNonce b (CreateAccount b s a) a 1) c v) a v)"
  by (rule evolves_keeps [OF begin_create_keeps(1) [OF assms refl] transfer_bounded [OF assms(1) _ _ _ assms(3,4)]])
    (auto simp: wf_effects balance_effects evm_okD(1) [OF assms(1)])

lemma SetNonce_view:
  assumes "evm_ok b env s"
  shows "nonce_of (view b (SetNonce b s a n)) a = n"
  using doesD(2) [OF does_SetNonce [OF evm_okD(1) [OF assms], of a n]] by (auto simp: nonce_of_def)

interpretation evm: vm_state env "evm_ok b env" "view b" "saved b" "state_solid b"
  for b :: "('t, 'd) Backend" and env :: "('t, 'd) state_db Environment"
proof (unfold_locales, goal_cases)
  case (5 s a)
  then show ?case using balance_nonneg_view [OF 5, of a] by (simp add: evm_StateOps [OF 5] ops_simps)
next
  case (6 s a)
  then show ?case by (simp add: evm_StateOps [OF 6] ops_simps)
next
  case (7 s a)
  then show ?case using evm_okD(3) [OF 7(1)]
    by (auto simp: evm_StateOps [OF 7(1)] ops_simps code_of_def solid_in_def view_ok_def acct_ok_def split: option.splits)
next
  case (8 s a)
  then show ?case
    by (auto simp: evm_StateOps [OF 8(1)] ops_simps nonce_of_def solid_in_def acct_solid_def split: option.splits)
next
  case (9 s s')
  then show ?case by (simp add: evm_StateOps [OF 9(1)] ops_simps fun_eq_iff)
next
  case (10 s a v)
  then show ?case by (simp add: evm_StateOps [OF 10] ops_simps)
next
  case (11 s g)
  then show ?case using same_balance_evolves [OF other_keeps(1) [OF 11]] doesD(2) [OF does_AddRefund [OF evm_okD(1) [OF 11(1)]]]
    by (simp add: evm_StateOps [OF 11(1)] balance_of_def [abs_def]) (simp add: state_ops_def)
next
  case (12 s l)
  obtain v where "v_acct v = v_acct (view b s)" "does b s v (AddLog s l)" using does_AddLog [OF evm_okD(1) [OF 12]] by blast
  then show ?case using same_balance_evolves [OF other_keeps(2) [OF 12], of l] doesD(2)
    by (fastforce simp: evm_StateOps [OF 12] balance_of_def [abs_def] state_ops_def)
next
  case (13 s a k x)
  then show ?case using same_balance_evolves [OF SetState_keeps [OF 13(1)]] balance_effects(5) [OF evm_okD(1) [OF 13(1)]]
    by (simp add: evm_StateOps [OF 13(1)] state_solid_def) (simp add: state_ops_def)
next
  case (14 s a r)
  then show ?case using suicide_evolves [OF 14(1)] by (simp add: evm_StateOps [OF 14(1)] state_solid_def) (simp add: ops_simps)
next
  case (15 s a c)
  then show ?case using same_balance_evolves [OF SetCode_keeps [OF 15(1)]] balance_effects(6) [OF evm_okD(1) [OF 15(1)]]
    by (simp add: evm_StateOps [OF 15(1)]) (simp add: ops_simps)
next
  case (16 s a)
  then show ?case
    using same_balance_evolves [OF SetNonce_keeps [OF 16(1), of "nonce_of (view b s) a + 1" a]]
      balance_effects(4) [OF evm_okD(1) [OF 16(1)]] uint_add_le [of "nonce_of (view b s) a" 1]
    by (simp add: evm_StateOps [OF 16(1)]) (simp add: ops_simps)
next
  case (17 s a n)
  then show ?case using SetNonce_view [OF 17] balance_effects(4) [OF evm_okD(1) [OF 17]]
    by (simp add: evm_StateOps [OF 17] ops_simps fun_eq_iff)
next
  case (18 s c v a)
  then show ?case using begin_call_evolves [OF 18(1), of c v a]
    by (simp add: evm_StateOps [OF 18(1)] state_solid_def) (auto simp: ops_simps split: if_splits)
next
  case (19 s c v s' a)
  then show ?case using begin_create_evolves [OF 19(1), of c v a] begin_create_keeps(2) [OF 19(1), of c v s' a]
    by (simp add: evm_StateOps [OF 19(1)] state_solid_def) (simp add: ops_simps)
next
  case (20 s n s')
  then show ?case using Snapshot_ok [OF 20(1)] by (simp add: evm_StateOps [OF 20(1)] state_ops_def)
next
  case (21 s n v)
  then show ?case using RevertToSnapshot_ok [OF 21] by (simp add: evm_StateOps [OF 21(1)] state_ops_def)
qed (auto simp: evm_ok_def env_ok_def)

end
