(* ===== verification/EVM_Props.thy ===== *)
theory EVM_Props
  imports State_Safe
begin

text \<open>
  What contracts can and cannot do: the properties of the virtual machine over the state database, and
  those of the snapshots of the database.
\<close>

section \<open>An instance\<close>

text \<open>
  A small instance of the parameters, at which the hypotheses of the properties hold: tries and the
  store are association lists, and a hash is a prefix.
\<close>

definition assoc_get :: "(bytes \<times> bytes) list \<Rightarrow> bytes \<Rightarrow> bytes" where
  "assoc_get t k = (case map_of t k of None \<Rightarrow> [] | Some v \<Rightarrow> v)"

definition assoc_del :: "(bytes \<times> bytes) list \<Rightarrow> bytes \<Rightarrow> (bytes \<times> bytes) list" where
  "assoc_del t k = filter (\<lambda>(k', _). k' \<noteq> k) t"

definition ex_backend :: "((bytes \<times> bytes) list, (bytes \<times> bytes) list) Backend" where
  "ex_backend =
     \<lparr>b_Keccak256 = (\<lambda>x. take 32 (x @ replicate 32 1)), b_NewSecure = (\<lambda>_ _. Some []), b_emptyTrie = (\<lambda>_. []),
      b_Get = assoc_get, b_Update = (\<lambda>t k v. (k, v) # assoc_del t k), b_Delete = assoc_del,
      b_Hash = (\<lambda>t. (replicate 32 0, t)), b_CommitTo = (\<lambda>t d. Some (replicate 32 0, t, d)),
      b_dbGet = map_of, b_dbPut = (\<lambda>d k v. Some ((k, v) # d))\<rparr>"

definition ex_config :: ChainConfig where
  "ex_config =
     \<lparr>ChainId = 1, HomesteadBlock = Some 0, DAOForkBlock = None, DAOForkSupport = False, EIP150Block = Some 0,
      EIP150Hash = replicate 32 0, EIP155Block = Some 0, EIP158Block = Some 0\<rparr>"

definition ex_env :: "((bytes \<times> bytes) list, (bytes \<times> bytes) list) state_db Environment" where
  "ex_env =
     \<lparr>CanTransfer = core_CanTransfer (state_ops ex_backend), Transfer = core_Transfer (state_ops ex_backend),
      GetHash = (\<lambda>_. replicate 32 0), Origin = replicate 20 0, GasPrice = 1, Coinbase = replicate 20 0,
      GasLimit = 4000000, BlockNumber = 10, Time = 0, Difficulty = 1, StateOps = state_ops ex_backend,
      chainConfig = ex_config, NoRecursion = False, Keccak256 = b_Keccak256 ex_backend, Sha256 = (\<lambda>x. x),
      Ripemd160 = (\<lambda>x. x), Ecrecover = (\<lambda>_ _. None)\<rparr>"

definition ex_addr :: address where
  "ex_addr = replicate 20 7"

definition ex_state :: "((bytes \<times> bytes) list, (bytes \<times> bytes) list) state_db" where
  "ex_state = SetNonce ex_backend (fresh_state [] [] []) ex_addr 1"

text \<open>The code stores 5 at the location 0.\<close>

definition ex_con :: Contract where
  "ex_con =
     \<lparr>c_CallerAddress = ex_addr, c_self = ex_addr, c_jumpdests = Map.empty, c_Code = [0x60, 5, 0x60, 0, 0x55],
      c_CodeHash = replicate 32 2, c_CodeAddr = None, c_Input = [], c_value = 0, c_Gas = 30000\<rparr>"

lemma fresh_state_view:
  "view b (fresh_state d t past) = \<lparr>v_acct = base b (fresh_state d t past), v_refund = 0, v_logs = (\<lambda>_. [])\<rparr>"
  by (simp add: view_alt base_def fresh_state_def live_def fun_eq_iff)

text \<open>A fresh state satisfies the invariant if the accounts of its trie are well formed.\<close>

lemma fresh_state_ok:
  assumes "\<And>a x. base b (fresh_state d t past) a = Some x \<Longrightarrow> acct_ok b x"
  shows "state_ok b (fresh_state d t past)"
proof -
  have "wf_objects b (fresh_state d t past)" "sd_journal (fresh_state d t past) = []" "revs_ok (fresh_state d t past)"
    by (simp_all add: wf_objects_def fresh_state_def revs_ok_def)
  moreover have "saved b (fresh_state d t past) n = None" for n by (simp add: saved_def) (simp add: fresh_state_def)
  ultimately show ?thesis using assms by (simp add: state_ok_def view_ok_def fresh_state_view)
qed

lemma ex_ok: "env_ok ex_backend ex_env" "state_ok ex_backend (fresh_state [] [] [])"
proof -
  show "env_ok ex_backend ex_env" by (auto simp: env_ok_def ex_env_def ex_backend_def IsEIP158_def ex_config_def min_def)
  have "base ex_backend (fresh_state [] [] []) a = None" for a
    by (simp add: base_def load_def fresh_state_def ex_backend_def assoc_get_def)
  then show "state_ok ex_backend (fresh_state [] [] [])" by (intro fresh_state_ok) simp
qed

lemma ex_state_ok: "state_ok ex_backend ex_state" "nonce_of (view ex_backend ex_state) a = (if a = ex_addr then 1 else 0)"
  "state_solid ex_backend ex_state ex_addr"
proof -
  have ok: "evm_ok ex_backend ex_env (fresh_state [] [] [])" using ex_ok by (simp add: evm_ok_def)
  have n0: "nonce_of (view ex_backend (fresh_state [] [] [])) a = 0" for a
    by (simp add: nonce_of_def fresh_state_view base_def load_def) (simp add: fresh_state_def ex_backend_def assoc_get_def)
  have "evm_ok ex_backend ex_env ex_state"
    using SetNonce_keeps [OF ok, of 1 ex_addr] n0 by (simp add: keeps_def ex_state_def)
  then show "state_ok ex_backend ex_state" by (simp add: evm_ok_def)
  show n: "nonce_of (view ex_backend ex_state) a = (if a = ex_addr then 1 else 0)" for a
    using doesD(2) [OF does_SetNonce [OF evm_okD(1) [OF ok], of ex_addr 1]] n0 [of a]
    by (simp add: ex_state_def nonce_of_def)
  show "state_solid ex_backend ex_state ex_addr" using n [of ex_addr]
    by (auto simp: state_solid_def solid_in_def nonce_of_def acct_solid_def split: option.splits)
qed

section \<open>Running contracts\<close>

text \<open>
  A contract that can be run: the environment and the database are well formed, gas and value are in
  range, an account with code has a nonce or a code hash, and no nonce can overflow.
\<close>

definition room_for :: "('t, 'd) Backend \<Rightarrow> ('t, 'd) state_db \<Rightarrow> int \<Rightarrow> bool" where
  "room_for b s gas \<longleftrightarrow> 0 \<le> gas \<and> gas < 2 ^ 63 \<and> (\<forall>a. uint (nonce_of (view b s) a) + gas < 2 ^ 64)"

definition startable ::
  "('t, 'd) Backend \<Rightarrow> ('t, 'd) state_db Environment \<Rightarrow> ('t, 'd) state_db \<Rightarrow> Contract \<Rightarrow> bool" where
  "startable b env s con \<longleftrightarrow>
     env_ok b env \<and> state_ok b s \<and> room_for b s (c_Gas con) \<and> 0 \<le> c_value con \<and>
     (c_Code con \<noteq> [] \<longrightarrow> state_solid b s (c_self con))"

lemma room_nonce: "room_for b s gas \<Longrightarrow> nonce_room (state_ops b) s gas"
  by (simp add: nonce_room_def room_for_def state_ops_def reads_view)

lemma Run_evolves:
  assumes "startable b env s con" "c_Gas con < int fuel"
  shows "\<exists>ret err con' s'. Run fuel env depth s con input = Ret (ret, err, con', s') \<and>
    0 \<le> c_Gas con' \<and> c_Gas con' \<le> c_Gas con \<and>
    evolves (state_ops b) (evm_ok b env) (saved b) (state_solid b) (c_Gas con - c_Gas con') s s'"
proof -
  have s: "env_ok b env" "state_ok b s" "room_for b s (c_Gas con)" "0 \<le> c_value con"
    "c_Code con \<noteq> [] \<Longrightarrow> state_solid b s (c_self con)" using assms(1) by (auto simp: startable_def)
  have ok: "evm_ok b env s" using s by (simp add: evm_ok_def)
  note o = evm_StateOps(1) [OF ok]
  note r = evm.Run_runs [where b = b and env = env, OF assms(2)]
  show ?thesis
    using r [unfolded runs_def o, rule_format, OF ok, of con depth input] s(3-5) room_nonce [OF s(3)]
    by (auto simp: room_for_def)
qed


lemma ex_startable: "startable ex_backend ex_env ex_state ex_con"
  using ex_ok ex_state_ok by (simp add: startable_def room_for_def ex_con_def)



lemma ex_balance: "fst (GetBalance ex_backend ex_state a) = 0"
proof -
  have "wf_objects ex_backend (fresh_state [] [] [])" using ex_ok(2) by (simp add: state_ok_def)
  then have "balance_of (view ex_backend ex_state) = balance_of (view ex_backend (fresh_state [] [] []))"
    by (simp add: ex_state_def balance_effects)
  then show ?thesis
    by (simp add: reads_view balance_of_def fresh_state_view base_def load_def)
      (simp add: fresh_state_def ex_backend_def assoc_get_def)
qed


section \<open>Calls\<close>

lemma Run_runs_evm:
  assumes "env_ok b env" "state_ok b s" "gas < int fuel"
  shows "runs (StateOps env) (evm_ok b env) (saved b) (state_solid b) gas (Run fuel env)" "evm_ok b env s"
    "StateOps env = state_ops b"
proof -
  show ok: "evm_ok b env s" using assms by (simp add: evm_ok_def)
  show "StateOps env = state_ops b" by (rule evm_StateOps [OF ok])
  show "runs (StateOps env) (evm_ok b env) (saved b) (state_solid b) gas (Run fuel env)"
    by (rule evm.Run_runs [OF assms(3)])
qed






definition ex_frame :: "((bytes \<times> bytes) list, (bytes \<times> bytes) list) state_db frame" where
  "ex_frame = \<lparr>f_pc = 0, f_mem = [], f_stk = [], f_con = ex_con, f_db = ex_state\<rparr>"

lemma ex_frame_ok: "frame_ok (state_ops ex_backend) (evm_ok ex_backend ex_env) (state_solid ex_backend) ex_frame"
  using ex_ok ex_state_ok
  by (simp add: frame_ok_def ex_frame_def ex_con_def evm_ok_def nonce_room_def)
    (simp add: state_ops_def reads_view ex_state_ok(2))


end
