(* ===== verification/State_Props.thy ===== *)
theory State_Props
  imports EVM_Props
begin

text \<open>
  Properties of the state database on its own: reading what was written, the journal as a refinement of
  undoing on views, and sequences of operations under snapshots.
\<close>

section \<open>Reading after writing\<close>

text \<open>The trie of the zero root is empty.\<close>

definition empty_root :: "('t, 'd) Backend \<Rightarrow> bool" where
  "empty_root b \<longleftrightarrow> (\<forall>d k. case b_NewSecure b zero_hash d of None \<Rightarrow> False | Some t \<Rightarrow> b_Get b t k = [])"

lemma fresh_storage:
  assumes "empty_root b"
  shows "a_storage (fresh_acct b d a) k = zero_hash"
  using assms [unfolded empty_root_def, rule_format, of k d]
  by (auto simp: fresh_acct_def acct_simps newObject_def read_slot_def open_trie_def trie_value_def split: option.splits)

lemma view_write:
  assumes "becomes b s es (set_acct a (Some y) (view b s)) s'"
  shows "nonce_of (view b s') c = (if c = a then a_nonce y else nonce_of (view b s) c)"
    "balance_of (view b s') c = (if c = a then a_balance y else balance_of (view b s) c)"
    "storage_of (view b s') c k = (if c = a then a_storage y k else storage_of (view b s) c k)"
    "code_of (view b s') c = (if c = a then nil_bytes (a_code y) else code_of (view b s) c)"
  using becomesD(2) [OF assms] by (simp_all add: nonce_of_def balance_of_def storage_of_def code_of_def)

lemma got_storage: "empty_root b \<Longrightarrow> a_storage (got b s a) k = storage_of (view b s) a k"
  by (simp add: got_def storage_of_def fresh_storage split: option.splits)

text \<open>
  C21: what the database returns after a write is what was written, for the account that was written,
  and is as before for every other account and storage key.
\<close>

theorem read_after_write:
  assumes "wf_objects b s" "empty_root b"
  shows "fst (GetNonce b (SetNonce b s a n) c) = (if c = a then n else fst (GetNonce b s c)) \<and>
    fst (GetBalance b (AddBalance b s a x) c) = fst (GetBalance b s c) + (if c = a then x else 0) \<and>
    fst (GetBalance b (SubBalance b s a x) c) = fst (GetBalance b s c) - (if c = a then x else 0) \<and>
    fst (GetState b (SetState b s a k w) c q) = (if c = a \<and> q = k then w else fst (GetState b s c q)) \<and>
    fst (GetCode b (SetCode b s a code) c) = (if c = a then code else fst (GetCode b s c))"
  using view_write(1) [OF SetNonce_effect [OF assms(1), of a n], of c]
    view_write(3) [OF SetState_effect [OF assms(1), of a k w], of c q]
    view_write(4) [OF SetCode_effect [OF assms(1), of a code], of c]
  by (simp add: reads_view balance_effects [OF assms(1)] got_storage [OF assms(2)] nil_bytes_def)

lemma ex_wf: "wf_objects ex_backend ex_state" "empty_root ex_backend"
  using ex_state_ok(1) by (simp_all add: state_ok_def empty_root_def ex_backend_def assoc_get_def)

theorem read_after_write_witness:
  "fst (GetState ex_backend (SetState ex_backend ex_state ex_addr zero_hash (replicate 32 5)) ex_addr zero_hash) = replicate 32 5"
  using read_after_write [OF ex_wf, of ex_addr 0 ex_addr 0 zero_hash "replicate 32 5" zero_hash] by simp

section \<open>The journal\<close>

text \<open>
  C20: undoing journal entries is undoing on views: the entries lead to the view that \<open>areplay\<close>
  gives, without adding to the journal, and dereference nil exactly where it gives none.
\<close>

theorem undo_all_refines:
  assumes "wf_objects b s" "list_all entry_ok es"
  shows "case areplay b (sd_db s) (base b s) es (view b s) of
      None \<Rightarrow> undo_all b es s = Panicked
    | Some v \<Rightarrow> \<exists>s'. undo_all b es s = Ret s' \<and> wf_objects b s' \<and> view b s' = v \<and> sd_journal s' = sd_journal s"
  using undo_all_areplay [OF assms] by (auto simp: undone_def becomes_def frame_of_def split: option.splits)

theorem undo_all_refines_witness:
  "case areplay ex_backend (sd_db ex_state) (base ex_backend ex_state) (sd_journal ex_state) (view ex_backend ex_state) of
      None \<Rightarrow> undo_all ex_backend (sd_journal ex_state) ex_state = Panicked
    | Some v \<Rightarrow> \<exists>s'. undo_all ex_backend (sd_journal ex_state) ex_state = Ret s' \<and> wf_objects ex_backend s' \<and>
        view ex_backend s' = v \<and> sd_journal s' = sd_journal ex_state"
  by (rule undo_all_refines [OF ex_wf(1)]) (use ex_state_ok(1) in \<open>simp add: state_ok_def\<close>)

section \<open>Operations under a snapshot\<close>

datatype sd_op =
    OpAddBalance address int
  | OpSubBalance address int
  | OpSetBalance address int
  | OpSetNonce address u64
  | OpSetState address hash hash
  | OpSetCode address bytes
  | OpSuicide address
  | OpCreateAccount address
  | OpAddRefund int
  | OpAddLog Log
  | OpSnapshot
  | OpRevertToSnapshot nat

fun apply_op :: "('t, 'd) Backend \<Rightarrow> sd_op \<Rightarrow> ('t, 'd) state_db \<Rightarrow> ('t, 'd) state_db exec" where
  "apply_op b (OpAddBalance a x) s = Ret (AddBalance b s a x)"
| "apply_op b (OpSubBalance a x) s = Ret (SubBalance b s a x)"
| "apply_op b (OpSetBalance a x) s = Ret (SetBalance b s a x)"
| "apply_op b (OpSetNonce a n) s = Ret (SetNonce b s a n)"
| "apply_op b (OpSetState a k x) s = Ret (SetState b s a k x)"
| "apply_op b (OpSetCode a c) s = Ret (SetCode b s a c)"
| "apply_op b (OpSuicide a) s = Ret (snd (Suicide b s a))"
| "apply_op b (OpCreateAccount a) s = Ret (CreateAccount b s a)"
| "apply_op b (OpAddRefund g) s = Ret (AddRefund s g)"
| "apply_op b (OpAddLog l) s = Ret (AddLog s l)"
| "apply_op b OpSnapshot s = Ret (snd (Snapshot s))"
| "apply_op b (OpRevertToSnapshot n) s = RevertToSnapshot b s n"

fun apply_ops :: "('t, 'd) Backend \<Rightarrow> sd_op list \<Rightarrow> ('t, 'd) state_db \<Rightarrow> ('t, 'd) state_db exec" where
  "apply_ops b [] s = Ret s"
| "apply_ops b (p # ops) s = exec_bind (apply_op b p s) (apply_ops b ops)"

text \<open>
  Operations that a revert to the snapshot \<open>n\<close> undoes: they do not revert past it, and they touch no
  account that is empty although the trie has another account in its place.
\<close>

fun op_ok :: "('t, 'd) Backend \<Rightarrow> nat \<Rightarrow> sd_op \<Rightarrow> ('t, 'd) state_db \<Rightarrow> bool" where
  "op_ok b n (OpAddBalance a x) s \<longleftrightarrow>
     x \<noteq> 0 \<or>
     (case v_acct (view b s) a of
        None \<Rightarrow> True
      | Some y \<Rightarrow> \<not> acct_empty b y \<or> a_touched y \<or> base b s a = Some y)"
| "op_ok b n (OpRevertToSnapshot m) s \<longleftrightarrow> n < m"
| "op_ok b n _ s \<longleftrightarrow> True"

fun ops_ok :: "('t, 'd) Backend \<Rightarrow> nat \<Rightarrow> sd_op list \<Rightarrow> ('t, 'd) state_db \<Rightarrow> bool" where
  "ops_ok b n [] s \<longleftrightarrow> True"
| "ops_ok b n (p # ops) s \<longleftrightarrow>
     op_ok b n p s \<and> (case apply_op b p s of Ret s' \<Rightarrow> ops_ok b n ops s' | _ \<Rightarrow> True)"

text \<open>The invariant that is needed for this: code hashes are hashes.\<close>

definition hashes_ok :: "aview \<Rightarrow> bool" where
  "hashes_ok v \<longleftrightarrow> (\<forall>a x. v_acct v a = Some x \<longrightarrow> length (a_codehash x) = 32)"

definition sd_ok :: "('t, 'd) Backend \<Rightarrow> ('t, 'd) state_db \<Rightarrow> bool" where
  "sd_ok b s \<longleftrightarrow>
     wf_objects b s \<and> list_all entry_ok (sd_journal s) \<and> revs_ok s \<and> length (emptyCodeHash b) = 32 \<and>
     hashes_ok (view b s) \<and> (\<forall>n v. saved b s n = Some v \<longrightarrow> hashes_ok v)"

lemma does_sd_ok:
  assumes "sd_ok b s" "does b s v s'" "hashes_ok v"
  shows "sd_ok b s'" "saved b s' = saved b s"
proof -
  obtain es where "becomes b s es v s'" using assms(2) by (auto simp: does_def)
  then have "list_all entry_ok (sd_journal s')" using assms(1) by (simp add: becomes_def frame_of_def sd_ok_def)
  moreover show "saved b s' = saved b s" using does_saved(1) [OF assms(2)] assms(1) by (simp add: sd_ok_def)
  ultimately show "sd_ok b s'"
    using assms doesD(1,2) [OF assms(2)] does_saved(2) [OF assms(2)] by (auto simp: sd_ok_def)
qed

lemma hashes_set: "hashes_ok v \<Longrightarrow> length (a_codehash y) = 32 \<Longrightarrow> hashes_ok (set_acct a (Some y) v)"
  by (auto simp: hashes_ok_def)

lemma does_SetBalance:
  assumes "wf_objects b s"
  shows "does b s (set_acct a (Some ((got b s a)\<lparr>a_balance := x\<rparr>)) (view b s)) (SetBalance b s a x)"
proof -
  obtain so s1 where g: "GetOrNewStateObject b s a = (so, s1)" by fastforce
  have "SetBalance b s a x = so_SetBalance s1 so x" by (simp add: SetBalance_def g)
  then show ?thesis
    using does_write [OF assms SetBalance_effect(1) [OF assms g]] by (simp add: change_acct_def)
qed

text \<open>Every guarded operation is a step that can be undone.\<close>

lemma op_does:
  assumes "sd_ok b s" "op_ok b n p s" "\<forall>m. p \<noteq> OpRevertToSnapshot m" "p \<noteq> OpSnapshot"
  shows "\<exists>v s'. apply_op b p s = Ret s' \<and> does b s v s' \<and> hashes_ok v"
proof -
  have w: "wf_objects b s" and h: "hashes_ok (view b s)" and e: "length (emptyCodeHash b) = 32"
    using assms(1) by (auto simp: sd_ok_def)
  have g: "length (a_codehash (got b s a)) = 32" for a
    using h e by (auto simp: got_def hashes_ok_def split: option.splits)
  have step_ok: "\<exists>v. does b s v s' \<and> hashes_ok v"
    if "does b s (set_acct a (Some y) (view b s)) s'" "length (a_codehash y) = 32" for a y s'
    using that hashes_set [OF h] by blast
  show ?thesis
  proof (cases p)
    case (OpAddBalance a x)
    show ?thesis
    proof (cases "x = 0 \<and> acct_empty b (got b s a)")
      case True
      then have "does b s (set_acct a (Some ((got b s a)\<lparr>a_touched := True\<rparr>)) (view b s)) (AddBalance b s a 0)"
        using assms(2) OpAddBalance by (intro does_touch [OF w]) (auto simp: got_def split: option.splits)
      then show ?thesis using True OpAddBalance g by (auto intro!: exI hashes_set h)
    next
      case False
      then show ?thesis using does_AddBalance [OF w, of x a] OpAddBalance g by (auto intro!: exI hashes_set h)
    qed
  next
    case (OpSuicide a)
    show ?thesis
    proof (cases "v_acct (view b s) a")
      case None
      obtain r s' where g: "GetStateObject b s a = (r, s')" by fastforce
      have "snd (Suicide b s a) = s'" using None GetStateObject_view(4) [OF w g] g by (simp add: Suicide_def)
      then show ?thesis using OpSuicide does_same [OF becomes_get [OF w g]] h by auto
    next
      case (Some y)
      then have "length (a_codehash y) = 32" using h by (simp add: hashes_ok_def)
      then show ?thesis using does_Suicide [OF w Some] OpSuicide by (auto intro!: exI hashes_set h)
    qed
  next
    case (OpAddLog l)
    obtain v where "v_acct v = v_acct (view b s)" "does b s v (AddLog s l)" using does_AddLog [OF w] by blast
    then show ?thesis using OpAddLog h by (auto simp: hashes_ok_def)
  next
    case (OpAddRefund x)
    then show ?thesis using does_AddRefund [OF w, of x] h by (auto simp: hashes_ok_def)
  qed (use assms g e step_ok [OF does_SubBalance [OF w]] step_ok [OF does_SetBalance [OF w]] step_ok [OF does_SetNonce [OF w]]
      step_ok [OF does_SetState [OF w]] step_ok [OF does_SetCode [OF w g]] step_ok [OF does_CreateAccount [OF w]] in auto)
qed

lemma Snapshot_sd_ok:
  assumes "sd_ok b s" "Snapshot s = (m, s')"
  shows "sd_ok b s'" "saved b s' m = Some (view b s)" "saved b s n = Some v \<Longrightarrow> saved b s' n = Some v"
proof -
  have w: "revs_ok s" "wf_objects b s" using assms(1) by (simp_all add: sd_ok_def)
  note r = Snapshot_saved [OF w assms(2)]
  show "saved b s' m = Some (view b s)" by (rule r(6))
  show "saved b s n = Some v \<Longrightarrow> saved b s' n = Some v" using r(7,9) by metis
  have "hashes_ok v" if "saved b s' n = Some v" for n v
    using that r(6) r(7) [of n] r(8) [OF that] assms(1) by (cases "n = m") (auto simp: sd_ok_def)
  then show "sd_ok b s'" using assms(1) r by (auto simp: sd_ok_def)
qed

lemma RevertToSnapshot_sd_ok:
  assumes "sd_ok b s" "saved b s m = Some v"
  shows "\<exists>s'. RevertToSnapshot b s m = Ret s' \<and> view b s' = v \<and> sd_ok b s' \<and>
    (\<forall>n. n < m \<longrightarrow> saved b s' n = saved b s n)"
proof -
  have w: "wf_objects b s" "list_all entry_ok (sd_journal s)" "revs_ok s" using assms(1) by (simp_all add: sd_ok_def)
  obtain s' where "RevertToSnapshot b s m = Ret s'" "view b s' = v" "wf_objects b s'" "base b s' = base b s"
    "list_all entry_ok (sd_journal s')" "revs_ok s'" "\<And>n. saved b s' n = (if n < m then saved b s n else None)"
    using RevertToSnapshot_saved [OF w assms(2)] by blast
  then show ?thesis using assms by (auto simp: sd_ok_def split: if_splits)
qed

lemma RevertToSnapshot_Ret:
  assumes "sd_ok b s" "RevertToSnapshot b s m = Ret s'"
  shows "\<exists>v. saved b s m = Some v"
proof -
  obtain r rest where r: "dropWhile (\<lambda>r. rev_id r > m) (sd_validRevisions s) = r # rest" "rev_id r = m"
    using assms(2) by (auto simp: RevertToSnapshot_def split: list.splits if_splits)
  define es where "es = take (length (sd_journal s) - journalIndex r) (sd_journal s)"
  have "undo_all b es s \<noteq> Panicked" using assms(2) r by (auto simp: RevertToSnapshot_def Let_def es_def)
  moreover have "undone b s (areplay b (sd_db s) (base b s) es (view b s)) (undo_all b es s)"
    using assms(1) by (intro undo_all_areplay) (auto simp: sd_ok_def es_def list_all_iff dest: in_set_takeD)
  ultimately show ?thesis using r by (auto simp: saved_def find_rev_def view_at_def undone_def es_def split: option.splits)
qed

lemma op_saved:
  assumes "sd_ok b s" "op_ok b n p s" "apply_op b p s = Ret s'" "saved b s n = Some v"
  shows "sd_ok b s' \<and> saved b s' n = Some v"
proof (cases "p = OpSnapshot")
  case True
  then show ?thesis using assms Snapshot_sd_ok [OF assms(1), of "fst (Snapshot s)" s'] by auto
next
  case False
  show ?thesis
  proof (cases "\<exists>m. p = OpRevertToSnapshot m")
    case True
    then obtain m where m: "p = OpRevertToSnapshot m" "n < m" using assms(2) by auto
    then show ?thesis
      using assms RevertToSnapshot_Ret [OF assms(1), of m s'] RevertToSnapshot_sd_ok [OF assms(1), of m] by auto
  next
    case False
    then show ?thesis using assms \<open>p \<noteq> OpSnapshot\<close> op_does [OF assms(1,2)] does_sd_ok [OF assms(1)] by fastforce
  qed
qed

lemma ops_saved:
  assumes "sd_ok b s" "ops_ok b n ops s" "apply_ops b ops s = Ret s'" "saved b s n = Some v"
  shows "sd_ok b s' \<and> saved b s' n = Some v"
  using assms
proof (induction ops arbitrary: s)
  case (Cons p ops)
  from Cons.prems(3) obtain s1 where s1: "apply_op b p s = Ret s1" "apply_ops b ops s1 = Ret s'"
    by (cases "apply_op b p s") auto
  then show ?case using Cons.IH [of s1] Cons.prems op_saved [of b s n p s1 v] by auto
qed simp

text \<open>
  C4: a revert undoes operations: after a snapshot and any sequence of guarded operations, nested
  snapshots and reverts included, reverting to the snapshot succeeds and everything that can be read
  is as it was.
\<close>

theorem revert_undoes:
  assumes "sd_ok b s" "Snapshot s = (n, s1)" "ops_ok b n ops s1" "apply_ops b ops s1 = Ret s2"
  shows "\<exists>s3. RevertToSnapshot b s2 n = Ret s3 \<and> view b s3 = view b s \<and> sd_ok b s3"
proof -
  note sn = Snapshot_sd_ok [OF assms(1,2)]
  have "sd_ok b s2 \<and> saved b s2 n = Some (view b s)" using ops_saved [OF sn(1) assms(3,4) sn(2)] .
  then show ?thesis using RevertToSnapshot_sd_ok [of b s2 n "view b s"] by blast
qed

lemma ex_sd_ok: "sd_ok ex_backend ex_state"
  using ex_state_ok(1)
  by (auto simp: sd_ok_def state_ok_def hashes_ok_def view_ok_def acct_ok_def)
    (simp add: emptyCodeHash_def ex_backend_def)

theorem revert_undoes_witness:
  "\<exists>s3. RevertToSnapshot ex_backend (SetNonce ex_backend (snd (Snapshot ex_state)) (replicate 20 8) 3) (fst (Snapshot ex_state)) = Ret s3 \<and>
    view ex_backend s3 = view ex_backend ex_state \<and> sd_ok ex_backend s3"
  by (rule revert_undoes [OF ex_sd_ok, of _ "snd (Snapshot ex_state)" "[OpSetNonce (replicate 20 8) 3]"]) simp_all

section \<open>Undoing a touch\<close>

text \<open>The state after a snapshot and a touch.\<close>

lemma touched_saved:
  assumes "sd_ok b s" "v_acct (view b s) a = Some x" "acct_empty b x" "\<not> a_touched x" "Snapshot s = (n, s1)"
  shows "sd_journal (AddBalance b s1 a 0) = touchChange a False # sd_journal s"
    "saved b (AddBalance b s1 a 0) n = Some (set_acct a (base b s a) (view b s))"
    "wf_objects b (AddBalance b s1 a 0)" "revs_ok (AddBalance b s1 a 0)" "list_all entry_ok (sd_journal (AddBalance b s1 a 0))"
    "sd_validRevisions (AddBalance b s1 a 0) = \<lparr>rev_id = n, journalIndex = length (sd_journal s)\<rparr> # sd_validRevisions s"
    "base b (AddBalance b s1 a 0) = base b s" "sd_db (AddBalance b s1 a 0) = sd_db s"
proof -
  have w: "revs_ok s" "wf_objects b s" "list_all entry_ok (sd_journal s)" using assms(1) by (simp_all add: sd_ok_def)
  note sn = Snapshot_saved [OF w(1,2) assms(5)]
  have s1: "sd_db s1 = sd_db s" "sd_validRevisions s1 = \<lparr>rev_id = n, journalIndex = length (sd_journal s)\<rparr> # sd_validRevisions s"
    using assms(5) by (auto simp: Snapshot_def)
  have g: "got b s1 a = x" using sn(2) assms(2) by (simp add: got_def)
  obtain t where t: "a_touched x \<longleftrightarrow> t \<or> a = ripemd"
    "becomes b s1 [touchChange a t] (set_acct a (Some (x\<lparr>a_touched := True\<rparr>)) (view b s1)) (AddBalance b s1 a 0)"
    using AddBalance_effect(3) [OF sn(4) refl, of a] assms(2,3) sn(2) g by (auto simp: news_def)
  have f: "sd_journal (AddBalance b s1 a 0) = touchChange a False # sd_journal s"
    "sd_validRevisions (AddBalance b s1 a 0) = sd_validRevisions s1" "sd_nextRevisionId (AddBalance b s1 a 0) = sd_nextRevisionId s1"
    using t assms(4) sn(5) by (auto simp: becomes_def frame_of_def)
  note d = becomesD [OF t(2)]
  show "sd_journal (AddBalance b s1 a 0) = touchChange a False # sd_journal s" by (rule f(1))
  show "wf_objects b (AddBalance b s1 a 0)" by (rule d(1))
  show "revs_ok (AddBalance b s1 a 0)" using sn(1,5) f by (auto simp: revs_ok_def)
  show "list_all entry_ok (sd_journal (AddBalance b s1 a 0))" using w(3) f by simp
  show "sd_validRevisions (AddBalance b s1 a 0) = \<lparr>rev_id = n, journalIndex = length (sd_journal s)\<rparr> # sd_validRevisions s"
    using f s1 by simp
  show "base b (AddBalance b s1 a 0) = base b s" "sd_db (AddBalance b s1 a 0) = sd_db s" using d(3,5) sn(3) s1(1) by simp_all
  show "saved b (AddBalance b s1 a 0) n = Some (set_acct a (base b s a) (view b s))"
    using d(2,3,5) sn(2,3) t(1) assms(4) by (simp add: saved_def find_rev_Cons view_at_def f s1)
qed

text \<open>
  C31: undoing the touch of an empty account restores the account of the trie and not the account as
  it was: an account that was emptied since gets its balance back.
\<close>

theorem touch_revert_stale:
  assumes "sd_ok b s" "v_acct (view b s) a = Some x" "acct_empty b x" "\<not> a_touched x" "Snapshot s = (n, s1)"
  shows "\<exists>s2. RevertToSnapshot b (AddBalance b s1 a 0) n = Ret s2 \<and> v_acct (view b s2) a = base b s a"
  using RevertToSnapshot_saved [OF touched_saved(3,5,4,2) [OF assms]] by auto

text \<open>
  C32: a touch can make a later revert dereference nil: an account is created with a balance and loses
  it, is touched, the touch is reverted, and then the creation is reverted.
\<close>

theorem touch_revert_panics:
  assumes "sd_ok b s" "v_acct (view b s) a = None" "a \<noteq> ripemd" "x \<noteq> 0" "Snapshot s = (n, s1)"
    and "s2 = SubBalance b (AddBalance b s1 a x) a x" "Snapshot s2 = (m, s3)"
  shows "\<exists>s4. RevertToSnapshot b (AddBalance b s3 a 0) m = Ret s4 \<and> RevertToSnapshot b s4 n = Panicked"
proof -
  have w: "revs_ok s" "wf_objects b s" "length (emptyCodeHash b) = 32" using assms(1) by (simp_all add: sd_ok_def)
  note sn = Snapshot_saved [OF w(1,2) assms(5)]
  note ok1 = Snapshot_sd_ok [OF assms(1,5)]
  have s1: "sd_db s1 = sd_db s" "sd_validRevisions s1 = \<lparr>rev_id = n, journalIndex = length (sd_journal s)\<rparr> # sd_validRevisions s"
    using assms(5) by (auto simp: Snapshot_def)
  let ?f = "fresh_acct b (sd_db s) a"
  let ?s2 = "AddBalance b s1 a x"
  have g1: "got b s1 a = ?f" using sn(2) assms(2) s1 by (simp add: got_def)
  have e2: "becomes b s1 [balanceChange a 0, createObjectChange a] (set_acct a (Some (?f\<lparr>a_balance := x\<rparr>)) (view b s)) ?s2"
    using AddBalance_effect(1) [OF sn(4) assms(4), of a] g1 sn(2) assms(2) by (simp add: news_def)
  note d2 = becomesD [OF e2]
  have g2: "got b ?s2 a = ?f\<lparr>a_balance := x\<rparr>" using d2(2) by (simp add: got_def)
  have e3: "becomes b ?s2 [balanceChange a x] (set_acct a (Some (?f\<lparr>a_balance := 0\<rparr>)) (view b s)) s2"
    using SubBalance_effect(1) [OF d2(1) assms(4), of a] g2 d2(2) by (simp add: news_def assms(6))
  have ok3: "sd_ok b s2"
    using ops_saved [OF ok1(1) _ _ ok1(2), of "[OpAddBalance a x, OpSubBalance a x]" s2] assms(4,6) by simp
  have v3: "v_acct (view b s2) a = Some ?f"
    using becomesD(2) [OF e3] by (simp add: fresh_acct_balance)
  have j3: "sd_journal s2 = [balanceChange a x, balanceChange a 0, createObjectChange a] @ sd_journal s"
    "sd_validRevisions s2 = sd_validRevisions s1"
    using becomes_trans [OF e2 e3] sn(5) by (simp_all add: becomes_def frame_of_def)
  have base2: "base b s2 a = None" using becomesD(5) [OF e3] d2(5) sn(3) base_None [OF w(2) assms(2)] by simp
  have t: "acct_empty b ?f" "\<not> a_touched ?f" using assms(3) by (simp_all add: acct_empty_def)
  note ts = touched_saved [OF ok3 v3 t assms(7)]
  let ?t = "AddBalance b s3 a 0"
  define s4 where "s4 = (drop_object ?t a)\<lparr>sd_journal := sd_journal s2, sd_validRevisions := sd_validRevisions s2\<rparr>"
  have dr: "wf_objects b (drop_object ?t a)" "view b (drop_object ?t a) = set_acct a None (view b ?t)"
    "sd_journal (drop_object ?t a) = sd_journal ?t"
    using becomes_drop [OF ts(3), of a] base2 ts(7) by (simp_all add: becomes_def frame_of_def)
  have s4: "v_acct (view b s4) a = None" "wf_objects b s4"
    using dr by (simp_all add: s4_def view_alt wf_objects_def)
  have r4: "RevertToSnapshot b ?t m = Ret s4"
    using ts(1,6) assms(3) dr(3) by (simp add: RevertToSnapshot_def s4_def)
  have "areplay b (sd_db s4) (base b s4) [balanceChange a x, balanceChange a 0, createObjectChange a] (view b s4) = None"
    using s4(1) by (simp add: change_acct_def)
  then have "undo_all b [balanceChange a x, balanceChange a 0, createObjectChange a] s4 = Panicked"
    using undo_all_areplay [OF s4(2), of "[balanceChange a x, balanceChange a 0, createObjectChange a]"]
    unfolding undone_def by simp
  then have "RevertToSnapshot b s4 n = Panicked" using j3 s1(2) by (simp add: RevertToSnapshot_def s4_def)
  then show ?thesis using r4 by blast
qed

text \<open>A trie with one account, which has a balance of five and nothing else.\<close>

definition ex_account :: bytes where
  "ex_account = [0xf8, 68, 0x80, 5, 0xa0] @ replicate 32 0 @ [0xa0] @ replicate 32 1"

definition ex_five :: "((bytes \<times> bytes) list, (bytes \<times> bytes) list) state_db" where
  "ex_five = fresh_state [] [(ex_addr, ex_account)] []"

lemma ex_account_decode: "decodeAccount ex_account = Some (0, 5, replicate 32 0, replicate 32 1)"
  by code_simp

lemma ex_five_base: "base ex_backend ex_five c =
    (if c = ex_addr then Some (acct_of ex_backend [] (newObject ex_backend ex_addr 0 (Some 5) (replicate 32 0) (Some (replicate 32 1)))) else None)"
proof -
  have "ex_account \<noteq> []" by (simp add: ex_account_def)
  then show ?thesis
    by (simp add: base_def load_def ex_five_def fresh_state_def ex_backend_def assoc_get_def ex_account_decode)
qed

lemma not_ripemd: "x \<noteq> 0 \<Longrightarrow> replicate 20 x \<noteq> ripemd"
proof
  assume "x \<noteq> 0" "replicate 20 x = ripemd"
  then have "hd (replicate 20 x) = hd ripemd" "x \<noteq> 0" by simp_all
  then show False by (simp add: ripemd_def)
qed

lemma ex_emptyCodeHash: "emptyCodeHash ex_backend = replicate 32 1"
  by (simp add: emptyCodeHash_def ex_backend_def)

lemma ex_five_ok: "sd_ok ex_backend ex_five"
proof -
  have "state_ok ex_backend ex_five"
    unfolding ex_five_def
    by (rule fresh_state_ok, fold ex_five_def)
      (auto simp: ex_five_base acct_ok_def acct_of_def newObject_def fst_so_Code reload_def nil_bytes_def ex_emptyCodeHash
        split: if_splits)
  then show ?thesis
    by (auto simp: sd_ok_def state_ok_def hashes_ok_def view_ok_def acct_ok_def ex_emptyCodeHash)
qed

definition ex_spent :: "((bytes \<times> bytes) list, (bytes \<times> bytes) list) state_db" where
  "ex_spent = SubBalance ex_backend ex_five ex_addr 5"

lemma ex_spent_ok: "sd_ok ex_backend ex_spent" "base ex_backend ex_spent = base ex_backend ex_five"
  "\<exists>x. v_acct (view ex_backend ex_spent) ex_addr = Some x \<and> acct_empty ex_backend x \<and> \<not> a_touched x"
proof -
  have w: "wf_objects ex_backend ex_five" using ex_five_ok by (simp add: sd_ok_def)
  note d = does_SubBalance [OF w, of ex_addr 5, folded ex_spent_def]
  have v: "v_acct (view ex_backend ex_five) ex_addr = base ex_backend ex_five ex_addr"
    by (simp add: ex_five_def fresh_state_view)
  then have g: "got ex_backend ex_five ex_addr =
      acct_of ex_backend [] (newObject ex_backend ex_addr 0 (Some 5) (replicate 32 0) (Some (replicate 32 1)))"
    by (simp add: got_def ex_five_base)
  have "hashes_ok (view ex_backend ex_five)" using ex_five_ok by (simp add: sd_ok_def)
  then show "sd_ok ex_backend ex_spent"
    by (intro does_sd_ok(1) [OF ex_five_ok d] hashes_set) (simp_all add: g acct_of_def newObject_def)
  show "base ex_backend ex_spent = base ex_backend ex_five" by (rule doesD(5) [OF d])
  show "\<exists>x. v_acct (view ex_backend ex_spent) ex_addr = Some x \<and> acct_empty ex_backend x \<and> \<not> a_touched x"
    by (simp add: doesD(2) [OF d] g acct_of_def newObject_def acct_empty_def ex_emptyCodeHash)
      (simp add: ex_addr_def not_ripemd)
qed

theorem touch_revert_stale_witness:
  "fst (GetBalance ex_backend ex_spent ex_addr) = 0 \<and>
   (\<exists>s2. RevertToSnapshot ex_backend (AddBalance ex_backend (snd (Snapshot ex_spent)) ex_addr 0) (fst (Snapshot ex_spent)) = Ret s2 \<and>
     fst (GetBalance ex_backend s2 ex_addr) = 5)"
proof -
  obtain x where x: "v_acct (view ex_backend ex_spent) ex_addr = Some x" "acct_empty ex_backend x" "\<not> a_touched x"
    using ex_spent_ok(3) by blast
  obtain s2 where "RevertToSnapshot ex_backend (AddBalance ex_backend (snd (Snapshot ex_spent)) ex_addr 0) (fst (Snapshot ex_spent)) = Ret s2"
    "v_acct (view ex_backend s2) ex_addr = base ex_backend ex_spent ex_addr"
    using touch_revert_stale [OF ex_spent_ok(1) x, of "fst (Snapshot ex_spent)" "snd (Snapshot ex_spent)"] by auto
  then show ?thesis using x
    by (auto simp: reads_view balance_of_def ex_spent_ok(2) ex_five_base acct_of_def newObject_def acct_empty_def)
qed

theorem touch_revert_panics_witness:
  "\<exists>s4. RevertToSnapshot ex_backend (AddBalance ex_backend (snd (Snapshot (SubBalance ex_backend
      (AddBalance ex_backend (snd (Snapshot ex_five)) (replicate 20 8) 5) (replicate 20 8) 5))) (replicate 20 8) 0)
      (fst (Snapshot (SubBalance ex_backend (AddBalance ex_backend (snd (Snapshot ex_five)) (replicate 20 8) 5) (replicate 20 8) 5))) = Ret s4 \<and>
    RevertToSnapshot ex_backend s4 (fst (Snapshot ex_five)) = Panicked"
proof (rule touch_revert_panics [OF ex_five_ok _ _ _ _ refl])
  have "(replicate 20 8 :: bytes) \<noteq> ex_addr" by (simp add: ex_addr_def)
  then show "v_acct (view ex_backend ex_five) (replicate 20 8) = None"
    by (simp add: ex_five_def fresh_state_view) (simp add: ex_five_def [symmetric] ex_five_base)
qed (simp_all add: not_ripemd)

end
