(* ===== verification/Core_Tx.thy ===== *)
theory Core_Tx
  imports EVM_Props
begin

text \<open>
  The state transition of \<open>core/state_transition.go\<close> and the gas pool of \<open>core/gaspool.go\<close>: a message buys
  gas, pays its intrinsic gas, runs a call or a creation, gets a refund, and the miner is paid.

  The integer \<open>gas\<close> of the transition is shared with the contract that runs, which takes its gas from
  it. Here the sender enters the machine as a reference that collects the gas that comes back; that a
  plain account leads to the same result otherwise is \<open>call_ref\<close> below.
\<close>

section \<open>Gas pool\<close>

type_synonym GasPool = int

definition AddGas :: "GasPool \<Rightarrow> int \<Rightarrow> GasPool" where
  "AddGas gp amount = gp + amount"

datatype tx_err =
    NonceError u64 u64
  | GasLimitErr int int
  | InsufficientGasFunds int int
  | InvalidTxError vm_err

definition SubGas :: "GasPool \<Rightarrow> int \<Rightarrow> tx_err + GasPool" where
  "SubGas gp amount = (if gp < amount then Inl (GasLimitErr gp amount) else Inr (gp - amount))"

section \<open>Messages\<close>

record Message =
  m_From :: address
  m_To :: "address option"
  m_GasPrice :: int
  m_Gas :: int
  m_Value :: int
  m_Nonce :: u64
  m_CheckNonce :: bool
  m_Data :: bytes

definition MessageCreatesContract :: "Message \<Rightarrow> bool" where
  "MessageCreatesContract msg \<longleftrightarrow> m_To msg = None"

definition IntrinsicGas :: "bytes \<Rightarrow> bool \<Rightarrow> bool \<Rightarrow> int" where
  "IntrinsicGas dat contractCreation homestead =
     (let igas = (if contractCreation \<and> homestead then TxGasContractCreation else TxGas) in
      if length dat > 0 then
        (let nz = int (length (filter (\<lambda>byt. byt \<noteq> 0) dat))
         in igas + nz * TxDataNonZeroGas + (int (length dat) - nz) * TxDataZeroGas)
      else igas)"

section \<open>The transition\<close>

record 's StateTransition =
  st_gp :: GasPool
  st_msg :: Message
  st_gas :: int
  st_gasPrice :: int
  st_initialGas :: int
  st_value :: int
  st_data :: bytes
  st_state :: 's

definition NewStateTransition :: "Message \<Rightarrow> GasPool \<Rightarrow> 's \<Rightarrow> 's StateTransition" where
  "NewStateTransition msg gp db =
     \<lparr>st_gp = gp, st_msg = msg, st_gas = 0, st_gasPrice = m_GasPrice msg, st_initialGas = 0,
      st_value = m_Value msg, st_data = m_Data msg, st_state = db\<rparr>"

text \<open>Looking up the sender and the recipient creates their accounts if they do not exist.\<close>

definition st_account :: "'s StateDB \<Rightarrow> address \<Rightarrow> 's StateTransition \<Rightarrow> 's StateTransition" where
  "st_account ops a st =
     (if \<not> sdb_Exist ops (st_state st) a then st\<lparr>st_state := sdb_CreateAccount ops (st_state st) a\<rparr> else st)"

definition st_from :: "'s StateDB \<Rightarrow> 's StateTransition \<Rightarrow> address \<times> 's StateTransition" where
  "st_from ops st = (m_From (st_msg st), st_account ops (m_From (st_msg st)) st)"

definition st_useGas :: "'s StateTransition \<Rightarrow> int \<Rightarrow> vm_err option \<times> 's StateTransition" where
  "st_useGas st amount =
     (if st_gas st < amount then (Some OutOfGas, st) else (None, st\<lparr>st_gas := st_gas st - amount\<rparr>))"

definition st_addGas :: "'s StateTransition \<Rightarrow> int \<Rightarrow> 's StateTransition" where
  "st_addGas st amount = st\<lparr>st_gas := st_gas st + amount\<rparr>"

definition buyGas :: "'s StateDB \<Rightarrow> 's StateTransition \<Rightarrow> tx_err option \<times> 's StateTransition" where
  "buyGas ops st =
     (let mgas = m_Gas (st_msg st);
          mgval = mgas * st_gasPrice st;
          (sender, st) = st_from ops st
      in if sdb_GetBalance ops (st_state st) sender < mgval
         then (Some (InsufficientGasFunds mgval (sdb_GetBalance ops (st_state st) sender)), st)
         else
           (case SubGas (st_gp st) mgas of
              Inl err \<Rightarrow> (Some err, st)
            | Inr gp \<Rightarrow>
                (let st = st\<lparr>st_gp := gp\<rparr>;
                     st = st_addGas st mgas;
                     st = st\<lparr>st_initialGas := mgas\<rparr>
                 in (None, st\<lparr>st_state := sdb_SubBalance ops (st_state st) sender mgval\<rparr>))))"

definition preCheck :: "'s StateDB \<Rightarrow> 's StateTransition \<Rightarrow> tx_err option \<times> 's StateTransition" where
  "preCheck ops st =
     (let msg = st_msg st;
          (sender, st) = st_from ops st;
          n = sdb_GetNonce ops (st_state st) sender
      in if m_CheckNonce msg \<and> n \<noteq> m_Nonce msg then (Some (NonceError (m_Nonce msg) n), st)
         else buyGas ops st)"

definition gasUsed :: "'s StateTransition \<Rightarrow> int" where
  "gasUsed st = st_initialGas st - st_gas st"

definition refundGas :: "'s StateDB \<Rightarrow> 's StateTransition \<Rightarrow> 's StateTransition" where
  "refundGas ops st =
     (let (sender, st) = st_from ops st;
          remaining = st_gas st * st_gasPrice st;
          st = st\<lparr>st_state := sdb_AddBalance ops (st_state st) sender remaining\<rparr>;
          uhalf = gasUsed st div 2;
          refund = BigMin uhalf (sdb_GetRefund ops (st_state st));
          st = st\<lparr>st_gas := st_gas st + refund\<rparr>;
          st = st\<lparr>st_state := sdb_AddBalance ops (st_state st) sender (refund * st_gasPrice st)\<rparr>
      in st\<lparr>st_gp := AddGas (st_gp st) (st_gas st)\<rparr>)"

text \<open>The sender as a reference that collects gas.\<close>

definition sender_ref :: "address \<Rightarrow> ContractRef" where
  "sender_ref a =
     RefContract \<lparr>c_CallerAddress = a, c_self = a, c_jumpdests = Map.empty, c_Code = [], c_CodeHash = replicate 32 0,
       c_CodeAddr = None, c_Input = [], c_value = 0, c_Gas = 0\<rparr>"

definition ref_gas :: "ContractRef \<Rightarrow> int" where
  "ref_gas r = (case r of RefContract c \<Rightarrow> c_Gas c | RefAccount _ \<Rightarrow> 0)"

text \<open>
  The message itself. Before it is sent, a creation has only paid gas; a call has also incremented the
  nonce and created the recipient.
\<close>

definition send_message ::
  "'s runner \<Rightarrow> 's Environment \<Rightarrow> address \<Rightarrow> 's StateTransition \<Rightarrow> (bytes \<times> vm_err option \<times> 's StateTransition) exec" where
  "send_message run env sender st =
     (let ops = StateOps env in
      case m_To (st_msg st) of
        None \<Rightarrow>
          exec_bind (env_Create run env 0 (st_state st) (sender_ref sender) (st_data st) (st_gas st) (st_value st))
            (\<lambda>(ret, _, vmerr, caller, db). Ret (ret, vmerr, st\<lparr>st_gas := ref_gas caller, st_state := db\<rparr>))
      | Some to \<Rightarrow>
          (let st = st\<lparr>st_state := sdb_SetNonce ops (st_state st) sender (sdb_GetNonce ops (st_state st) sender + 1)\<rparr>;
               st = st_account ops to st
           in exec_bind (env_Call run env 0 (st_state st) (sender_ref sender) to (st_data st) (st_gas st) (st_value st))
             (\<lambda>(ret, vmerr, caller, db). Ret (ret, vmerr, st\<lparr>st_gas := ref_gas caller, st_state := db\<rparr>))))"

definition TransitionDb ::
  "'s runner \<Rightarrow> 's Environment \<Rightarrow> 's StateTransition \<Rightarrow> ((tx_err + bytes \<times> int \<times> int) \<times> 's StateTransition) exec" where
  "TransitionDb run env st =
     (let ops = StateOps env in
      case preCheck ops st of
        (Some err, st) \<Rightarrow> Ret (Inl err, st)
      | (None, st) \<Rightarrow>
          (let (sender, st) = st_from ops st;
               homestead = IsHomestead (chainConfig env) (Some (BlockNumber env));
               contractCreation = MessageCreatesContract (st_msg st)
           in case st_useGas st (IntrinsicGas (st_data st) contractCreation homestead) of
                (Some err, st) \<Rightarrow> Ret (Inl (InvalidTxError err), st)
              | (None, st) \<Rightarrow>
                  exec_bind (send_message run env sender st) (\<lambda>(ret, vmerr, st).
                    (if vmerr = Some InsufficientBalance then Ret (Inl (InvalidTxError InsufficientBalance), st)
                     else
                       (let requiredGas = gasUsed st;
                            st = refundGas ops st;
                            st = st\<lparr>st_state := sdb_AddBalance ops (st_state st) (Coinbase env) (gasUsed st * st_gasPrice st)\<rparr>
                        in Ret (Inr (ret, requiredGas, gasUsed st), st))))))"

definition ApplyMessage ::
  "'s runner \<Rightarrow> 's Environment \<Rightarrow> Message \<Rightarrow> GasPool \<Rightarrow> 's \<Rightarrow> ((tx_err + bytes \<times> int) \<times> GasPool \<times> 's) exec" where
  "ApplyMessage run env msg gp db =
     exec_bind (TransitionDb run env (NewStateTransition msg gp db)) (\<lambda>(r, st).
       Ret (case r of Inl e \<Rightarrow> Inl e | Inr (ret, _, used) \<Rightarrow> Inr (ret, used), st_gp st, st_state st))"

section \<open>Paying for the gas\<close>

text \<open>A reference only matters through its address and its cache of jump destinations.\<close>

definition of_exec :: "('a \<Rightarrow> 'b) \<Rightarrow> 'a exec \<Rightarrow> 'b exec" where
  "of_exec f r = exec_bind r (\<lambda>x. Ret (f x))"

lemma of_exec_bind [simp]: "of_exec f (exec_bind r g) = exec_bind r (\<lambda>x. of_exec f (g x))" "of_exec f (Ret x) = Ret (f x)"
  by (cases r) (simp_all add: of_exec_def)

lemma call_ref:
  "of_exec (\<lambda>(ret, err, _, db). (ret, err, db)) (env_Call run env depth db (RefAccount a) addr input gas val) =
   of_exec (\<lambda>(ret, err, _, db). (ret, err, db)) (env_Call run env depth db (sender_ref a) addr input gas val)"
proof -
  have n: "NewContract (RefAccount a) addr val gas = NewContract (sender_ref a) addr val gas"
    by (simp add: NewContract_def sender_ref_def ref_Address_def)
  have a: "ref_Address (RefAccount a) = a" "ref_Address (sender_ref a) = a" by (simp_all add: sender_ref_def ref_Address_def)
  have e: "of_exec (\<lambda>(ret, err, _, db). (ret, err, db)) (after_run env (RefAccount a) n x) =
    of_exec (\<lambda>(ret, err, _, db). (ret, err, db)) (after_run env (sender_ref a) n x)" for n x
    by (cases x) (auto simp: after_run_def split: option.splits)
  show ?thesis unfolding env_Call_def Let_def n a by (simp add: e split: prod.split)
qed

lemma create_ref:
  "of_exec (\<lambda>(ret, addr, err, _, db). (ret, addr, err, db)) (env_Create run env depth db (RefAccount a) code gas val) =
   of_exec (\<lambda>(ret, addr, err, _, db). (ret, addr, err, db)) (env_Create run env depth db (sender_ref a) code gas val)"
proof -
  have n: "NewContract (RefAccount a) addr val gas = NewContract (sender_ref a) addr val gas" for addr
    by (simp add: NewContract_def sender_ref_def ref_Address_def)
  have a: "ref_Address (RefAccount a) = a" "ref_Address (sender_ref a) = a" by (simp_all add: sender_ref_def ref_Address_def)
  have e: "of_exec (\<lambda>(ret, addr, err, _, db). (ret, addr, err, db)) (create_end env (RefAccount a) addr n x) =
    of_exec (\<lambda>(ret, addr, err, _, db). (ret, addr, err, db)) (create_end env (sender_ref a) addr n x)" for addr n x
    by (cases x) (simp add: create_end_def Let_def split: prod.split)
  show ?thesis unfolding env_Create_def Let_def n a by (simp add: e split: prod.split)
qed

definition with_account :: "('t, 'd) Backend \<Rightarrow> ('t, 'd) state_db \<Rightarrow> address \<Rightarrow> ('t, 'd) state_db" where
  "with_account b s a = (if v_acct (view b s) a = None then CreateAccount b s a else s)"

lemma does_with_account:
  assumes "wf_objects b s"
  shows "does b s (set_acct a (Some (got b s a)) (view b s)) (with_account b s a)"
proof (cases "v_acct (view b s) a")
  case None
  then show ?thesis using does_CreateAccount [OF assms, of a] by (simp add: with_account_def got_def fresh_acct_balance)
next
  case (Some x)
  then show ?thesis using does_same [OF becomes_refl [OF assms]] by (simp add: with_account_def got_def)
qed

lemma does_got: "does b s (set_acct a (Some y) (view b s)) s' \<Longrightarrow> got b s' a = y"
  using doesD(2) by (fastforce simp: got_def)

lemma pay_effect:
  assumes "wf_objects b s" "s1 = SubBalance b (with_account b s a) a x"
  shows "does b s (set_acct a (Some ((got b s a)\<lparr>a_balance := a_balance (got b s a) - x\<rparr>)) (view b s)) s1"
proof -
  note d0 = does_with_account [OF assms(1), of a]
  note d1 = does_SubBalance [OF doesD(1) [OF d0], of a x]
  show ?thesis using does_trans [OF d0 d1] by (simp add: assms(2) does_got [OF d0] doesD(2) [OF d0])
qed

lemma pay_views:
  assumes "wf_objects b s" "s1 = SubBalance b (with_account b s a) a x"
  shows "wf_objects b s1" "nonce_of (view b s1) = nonce_of (view b s)" "v_acct (view b s1) a \<noteq> None"
    "balance_of (view b s1) = (balance_of (view b s))(a := balance_of (view b s) a - x)"
    "v_refund (view b s1) = v_refund (view b s)"
  using doesD(1,2) [OF pay_effect [OF assms]] got_sel [of b s a] by (auto simp: nonce_of_def)

lemma next_nonce:
  fixes n :: u64
  assumes "uint n + 1 < 2 ^ 64"
  shows "uint (n + 1) = uint n + 1" "n + 1 \<noteq> 0"
proof -
  show u: "uint (n + 1) = uint n + 1" using assms by (simp add: uint_word_ariths)
  show "n + 1 \<noteq> 0" using u by (metis add.commute add_le_same_cancel1 not_one_le_zero uint_0_eq unsigned_greater_eq)
qed

lemma pay_keeps:
  assumes "evm_ok b env s" "0 \<le> x" "x \<le> balance_of (view b s) a" "uint (nonce_of (view b s) a) + 1 < 2 ^ 64"
    and "s1 = SubBalance b (with_account b s a) a x" "s2 = SetNonce b s1 a (nonce_of (view b s1) a + 1)"
  shows "keeps b env 1 s s2" "solid_in b (view b s2) a" "balance_of (view b s2) = balance_of (view b s1)"
proof -
  note w = evm_okD(1) [OF assms(1)]
  note d1 = pay_effect [OF w assms(5)]
  note p = pay_views [OF w assms(5)]
  define n where "n = nonce_of (view b s) a"
  define y where "y = (got b s a)\<lparr>a_balance := a_balance (got b s a) - x, a_nonce := n + 1\<rparr>"
  have n: "uint (n + 1) = uint n + 1" "n + 1 \<noteq> 0" using next_nonce assms(4) by (simp_all add: n_def)
  have d2: "does b s (set_acct a (Some y) (view b s)) s2"
    using does_trans [OF d1 does_SetNonce [OF p(1), of a "n + 1"]] doesD(2) [OF d1] p(2)
    by (simp add: assms(6) y_def n_def does_got [OF d1])
  show "keeps b env 1 s s2"
    by (rule keeps_set [OF assms(1) d2])
      (use assms(2,3) n got_ok [OF assms(1), of a] in \<open>auto simp: y_def acct_ok_def acct_solid_def got_sel n_def\<close>)
  show "solid_in b (view b s2) a" using n by (simp add: doesD(2) [OF d2] solid_in_def y_def acct_solid_def)
  show "balance_of (view b s2) = balance_of (view b s1)"
    by (simp add: doesD(2) [OF d2] y_def p(4) got_sel)
qed

section \<open>Reverting to the newest snapshot\<close>

lemma revert_to:
  assumes "wf_objects b s" "list_all entry_ok (sd_journal s)" "revs_ok s" "Snapshot s = (n, s1)"
    and "becomes b s1 es v s2" "areplay b (sd_db s1) (base b s1) es v = Some w"
  shows "\<exists>s3. RevertToSnapshot b s2 n = Ret s3 \<and> view b s3 = w \<and> wf_objects b s3"
proof -
  note sn = Snapshot_saved [OF assms(3,1,4)]
  have s1: "sd_validRevisions s1 = \<lparr>rev_id = n, journalIndex = length (sd_journal s)\<rparr> # sd_validRevisions s"
    using assms(4) by (auto simp: Snapshot_def)
  have f: "sd_journal s2 = es @ sd_journal s" "sd_validRevisions s2 = sd_validRevisions s1"
    "sd_nextRevisionId s2 = sd_nextRevisionId s1" "list_all entry_ok es"
    using assms(5) sn(5) by (simp_all add: becomes_def frame_of_def)
  note d = becomesD [OF assms(5)]
  have "revs_ok s2" using sn(1,5) f by (auto simp: revs_ok_def)
  moreover have "list_all entry_ok (sd_journal s2)" using assms(2) f by simp
  moreover have "saved b s2 n = Some w"
    using d(2,3,5) assms(6) by (simp add: saved_def find_rev_Cons view_at_def f s1)
  ultimately show ?thesis using RevertToSnapshot_saved [OF d(1)] by blast
qed

section \<open>Sending the message\<close>

text \<open>The state after the message, seen from the state in which the gas was paid.\<close>

definition settled ::
  "('t, 'd) Backend \<Rightarrow> address \<Rightarrow> ('t, 'd) state_db \<Rightarrow> ('t, 'd) state_db \<Rightarrow> vm_err option \<Rightarrow> bool" where
  "settled b a s s' err \<longleftrightarrow>
     wf_objects b s' \<and> (\<forall>T. bounded (balance_of (view b s)) T \<longrightarrow> bounded (balance_of (view b s')) T) \<and>
     (err \<noteq> Some InsufficientBalance \<longrightarrow> v_acct (view b s') a \<noteq> None \<and> 0 \<le> v_refund (view b s'))"

lemma refunded_gas: "refunded (sender_ref a) g r \<Longrightarrow> ref_gas r = g"
  by (auto simp: refunded_def sender_ref_def ref_gas_def)

lemma ref_Address_sender [simp]: "ref_Address (sender_ref a) = a"
  by (simp add: sender_ref_def ref_Address_def)

lemma evolves_settled:
  assumes "evolves (state_ops b) (evm_ok b env) (saved b) (state_solid b) k s2 s'" "solid_in b (view b s2) a"
    "balance_of (view b s2) = balance_of (view b s1)"
  shows "settled b a s1 s' err"
proof -
  have e: "evm_ok b env s'" "solid_in b (view b s') a"
    "\<And>T. bounded (balance_of (view b s2)) T \<Longrightarrow> bounded (balance_of (view b s')) T"
    using assms(1,2) by (auto simp: evolves_def state_solid_def supply_bounded)
  have "0 \<le> v_refund (view b s')" using evm_okD(3) [OF e(1)] by (simp add: view_ok_def)
  then show ?thesis using e evm_okD(1) [OF e(1)] assms(3)
    by (auto simp: settled_def solid_in_def split: option.splits)
qed

lemma create_sent:
  assumes "evm_ok b env s" "room_for b s (2 + gas)" "0 \<le> gas" "gas < int fuel" "0 \<le> val" "0 \<le> x" "x \<le> balance_of (view b s) a"
    and "s1 = SubBalance b (with_account b s a) a x"
  shows "\<exists>ret addr err caller' s'.
    env_Create (Run fuel env) env 0 s1 (sender_ref a) code gas val = Ret (ret, addr, err, caller', s') \<and>
    0 \<le> ref_gas caller' \<and> ref_gas caller' \<le> gas \<and> settled b a s1 s' err"
proof -
  have ok: "env_ok b env" "state_ok b s" using assms(1) by (simp_all add: evm_ok_def)
  note r = Run_runs_evm [OF ok assms(4)]
  note w = evm_okD(1) [OF assms(1)]
  note p = pay_views [OF w assms(8)]
  define n where "n = nonce_of (view b s1) a"
  define s2 where "s2 = SetNonce b s1 a (n + 1)"
  have nn: "uint (nonce_of (view b s) c) + (2 + gas) < 2 ^ 64" for c using assms(2) by (simp add: room_for_def)
  have "uint (nonce_of (view b s) a) + 1 < 2 ^ 64" using nn [of a] assms(3) by simp
  note k = pay_keeps [OF assms(1,6,7) this assms(8), of s2, unfolded s2_def n_def, OF refl, folded n_def, folded s2_def]
  have I2: "evm_ok b env s2" using k(1) by (simp add: keeps_def)
  have can: "CanTransfer env s1 a val \<longleftrightarrow> val \<le> balance_of (view b s1) a"
    by (simp add: evm_StateOps [OF assms(1)] ops_simps)
  have room: "nonce_room (StateOps env) s2 (1 + gas)"
  proof -
    have "uint (nonce_of (view b s2) c) \<le> uint (nonce_of (view b s) c) + 1" for c using k(1) by (simp add: keeps_def grows_def)
    then have "uint (nonce_of (view b s2) c) + (1 + gas) < 2 ^ 64" for c using nn [of c] by (smt (verit))
    then show ?thesis by (simp add: nonce_room_def r(3) state_ops_def reads_view)
  qed
  show ?thesis
  proof (cases "val \<le> balance_of (view b s1) a")
    case True
    have "\<exists>ret addr err caller' db' g. env_Create (Run fuel env) env 0 s1 (sender_ref a) code gas val = Ret (ret, addr, err, caller', db') \<and>
      0 \<le> g \<and> g \<le> gas \<and> refunded (sender_ref a) g caller' \<and>
      evolves (StateOps env) (evm_ok b env) (saved b) (state_solid b) (1 + gas - g) s2 db' \<and>
      (err \<noteq> None \<longrightarrow> IsHomestead (chainConfig env) (Some (BlockNumber env)) \<or> err \<noteq> Some CodeStoreOutOfGas \<longrightarrow> view b db' = view b s2)"
      by (rule evm.env_Create_paid [OF r(1), where nonce = n])
        (use I2 k(2,3) True assms(2,3,5) room can in
          \<open>simp_all add: r(3) s2_def n_def room_for_def state_solid_def, simp_all add: state_ops_def reads_view\<close>)
    then show ?thesis using evolves_settled [OF _ k(2,3)] refunded_gas by (metis r(3))
  next
    case False
    then have "env_Create (Run fuel env) env 0 s1 (sender_ref a) code gas val =
        Ret ([], replicate 20 0, Some InsufficientBalance, ref_ReturnGas (sender_ref a) gas, s1)"
      using can by (simp add: env_Create_def CallCreateDepth_def)
    moreover have "ref_gas (ref_ReturnGas (sender_ref a) gas) = gas" using refunded_gas [OF refunded_ReturnGas] .
    ultimately show ?thesis using p(1) assms(3) by (simp add: settled_def)
  qed
qed

lemma call_sent_existing:
  assumes "evm_ok b env s2" "room_for b s2 gas" "gas < int fuel" "0 \<le> val" "solid_in b (view b s2) a"
    "balance_of (view b s2) = balance_of (view b s1)"
  shows "\<exists>ret err caller' s'.
    env_Call (Run fuel env) env 0 s2 (sender_ref a) addr input gas val = Ret (ret, err, caller', s') \<and>
    0 \<le> ref_gas caller' \<and> ref_gas caller' \<le> gas \<and> settled b a s1 s' err"
proof -
  have ok: "env_ok b env" "state_ok b s2" using assms(1) by (simp_all add: evm_ok_def)
  note r = Run_runs_evm [OF ok assms(3)]
  have "called (StateOps env) (evm_ok b env) (view b) (saved b) (state_solid b) (sender_ref a) gas s2
      (env_Call (Run fuel env) env 0 s2 (sender_ref a) addr input gas val)"
    by (rule evm.env_Call_called [OF r(1,2)])
      (use assms room_nonce [OF assms(2)] r(3) in \<open>auto simp: room_for_def state_solid_def\<close>)
  then show ?thesis using evolves_settled [OF _ assms(5,6)] refunded_gas unfolding called_def r(3) by metis
qed

text \<open>
  A call to an account that the transition has just created. The account has no code, so that only a
  precompiled contract can fail.
\<close>

lemma Run_no_code:
  assumes "env_ok b env" "c_Code con = []" "0 \<le> c_Gas con"
  shows "\<exists>ret err con'. Run fuel env depth s con input = Ret (ret, err, con', s) \<and> 0 \<le> c_Gas con' \<and> c_Gas con' \<le> c_Gas con"
proof (cases "Option.bind (c_CodeAddr con) precompiled")
  case None
  then show ?thesis using assms(2,3) by (simp add: Run_def Run_with_def)
next
  case (Some p)
  have "\<exists>r. precompile_Call env p input = Ret r"
    using assms(1) by (cases p) (auto simp: ecrecoverFunc_def env_ok_def Let_def split: option.splits)
  then show ?thesis using assms(3) Some evm.precompile_Gas_nonneg [of "int (length input)" p]
    by (auto simp: Run_def Run_with_def RunPrecompiled_def UseGas_def useGas_def)
qed

lemma transfer_new:
  assumes "wf_objects b s" "list_all entry_ok (sd_journal s)" "revs_ok s" "Snapshot s = (n, s1)"
    and "v_acct (view b s) c \<noteq> None" "v_acct (view b s) a = Some (fresh_acct b (sd_db s) a)" "base b s a = None" "c \<noteq> a"
  shows "wf_objects b (AddBalance b (SubBalance b s1 c v) a v)"
    "v_refund (view b (AddBalance b (SubBalance b s1 c v) a v)) = v_refund (view b s)"
    "v_acct (view b (AddBalance b (SubBalance b s1 c v) a v)) c \<noteq> None"
    "code_of (view b (AddBalance b (SubBalance b s1 c v) a v)) a = []"
    "\<exists>s3. RevertToSnapshot b (AddBalance b (SubBalance b s1 c v) a v) n = Ret s3 \<and> wf_objects b s3 \<and>
       v_refund (view b s3) = v_refund (view b s) \<and> v_acct (view b s3) c \<noteq> None \<and>
       balance_of (view b s3) = balance_of (view b s)"
proof -
  note sn = Snapshot_saved [OF assms(3,1,4)]
  have db: "sd_db s1 = sd_db s" using assms(4) by (auto simp: Snapshot_def)
  let ?s2 = "SubBalance b s1 c v" and ?f = "fresh_acct b (sd_db s) a"
  note d2 = does_SubBalance [OF sn(4), of c v]
  note e2 = doesD [OF d2]
  have g2: "got b ?s2 a = ?f" using e2(2) assms(6,8) sn(2) by (simp add: got_def)
  have eff: "\<exists>es v' y. becomes b s1 es v' (AddBalance b ?s2 a v) \<and> v' = set_acct a (Some y) (view b ?s2) \<and> a_code y = None \<and>
    (\<exists>w. areplay b (sd_db s1) (base b s1) es v' = Some w \<and> v_refund w = v_refund (view b s) \<and> v_acct w c \<noteq> None \<and>
       balance_of w = balance_of (view b s))"
  proof (cases "v = 0")
    case True
    obtain t where t: "becomes b ?s2 [touchChange a t] (set_acct a (Some (?f\<lparr>a_touched := True\<rparr>)) (view b ?s2)) (AddBalance b ?s2 a v)"
      using AddBalance_effect(3) [OF e2(1) True, of a] g2 e2(2) assms(6,8) sn(2)
      by (auto simp: acct_empty_def news_def)
    obtain es where es: "becomes b s1 es (view b s) ?s2" "areplay b (sd_db s1) (base b s1) es (view b s) = Some (view b s)"
      using d2 assms(5) sn(2) True by (auto simp: does_def got_def)
    have nil: "es = []"
    proof -
      have "becomes b s1 (news (view b s1) c) (set_acct c (Some (got b s1 c)) (view b s1)) ?s2"
        using SubBalance_effect(2) [OF sn(4) True, of c] .
      then show ?thesis using es(1) assms(5) sn(2) by (auto simp: becomes_def frame_of_def news_def)
    qed
    have bal: "balance_of (set_acct a x (view b s)) = balance_of (view b s)" if "case x of None \<Rightarrow> True | Some y \<Rightarrow> a_balance y = 0" for x
      using that assms(6) by (auto simp: balance_of_def fun_eq_iff split: option.splits)
    have b1: "becomes b s1 [touchChange a t] (set_acct a (Some (?f\<lparr>a_touched := True\<rparr>)) (view b ?s2)) (AddBalance b ?s2 a v)"
      using becomes_trans [OF es(1) t] nil by simp
    define w where "w = (if \<not> t \<and> a \<noteq> ripemd then set_acct a None (view b s) else set_acct a (Some (?f\<lparr>a_touched := True\<rparr>)) (view b s))"
    have "areplay b (sd_db s1) (base b s1) [touchChange a t] (set_acct a (Some (?f\<lparr>a_touched := True\<rparr>)) (view b ?s2)) = Some w"
      using becomesD(2) [OF es(1)] sn(3) assms(7) by (simp add: w_def)
    moreover have "v_refund w = v_refund (view b s)" "v_acct w c \<noteq> None" "balance_of w = balance_of (view b s)"
      using bal [of None] bal [of "Some (?f\<lparr>a_touched := True\<rparr>)"] assms(5,8) by (auto simp: w_def)
    moreover have "a_code (?f\<lparr>a_touched := True\<rparr>) = None" by simp
    ultimately show ?thesis using b1 by blast
  next
    case False
    then obtain es where "becomes b s1 es (set_acct a (Some (?f\<lparr>a_balance := a_balance ?f + v\<rparr>)) (view b ?s2)) (AddBalance b ?s2 a v)"
      "areplay b (sd_db s1) (base b s1) es (set_acct a (Some (?f\<lparr>a_balance := a_balance ?f + v\<rparr>)) (view b ?s2)) = Some (view b s)"
      using does_trans [OF d2 does_AddBalance [OF e2(1), of v a]] g2 sn(2) by (auto simp: does_def)
    moreover have "a_code (?f\<lparr>a_balance := a_balance ?f + v\<rparr>) = None" by simp
    ultimately show ?thesis using assms(5) by blast
  qed
  then obtain es v' y w where eff: "becomes b s1 es v' (AddBalance b ?s2 a v)" "v' = set_acct a (Some y) (view b ?s2)" "a_code y = None"
    "areplay b (sd_db s1) (base b s1) es v' = Some w" "v_refund w = v_refund (view b s)" "v_acct w c \<noteq> None"
    "balance_of w = balance_of (view b s)" by blast
  note d = becomesD [OF eff(1)]
  show "wf_objects b (AddBalance b ?s2 a v)" by (rule d(1))
  show "v_refund (view b (AddBalance b ?s2 a v)) = v_refund (view b s)" "v_acct (view b (AddBalance b ?s2 a v)) c \<noteq> None"
    "code_of (view b (AddBalance b ?s2 a v)) a = []"
    using d(2) eff(2,3) e2(2) sn(2) assms(8) by (simp_all add: code_of_def nil_bytes_def)
  show "\<exists>s3. RevertToSnapshot b (AddBalance b ?s2 a v) n = Ret s3 \<and> wf_objects b s3 \<and>
       v_refund (view b s3) = v_refund (view b s) \<and> v_acct (view b s3) c \<noteq> None \<and>
       balance_of (view b s3) = balance_of (view b s)"
    using revert_to [OF assms(1-4) eff(1,4)] eff(5-7) by metis
qed

lemma call_sent_new:
  assumes "evm_ok b env s2" "v_acct (view b s2) to = None" "solid_in b (view b s2) a" "0 \<le> gas" "0 \<le> val"
    "balance_of (view b s2) = balance_of (view b s1)"
  shows "\<exists>ret err caller' s'.
    env_Call (Run fuel env) env 0 (CreateAccount b s2 to) (sender_ref a) to input gas val = Ret (ret, err, caller', s') \<and>
    0 \<le> ref_gas caller' \<and> ref_gas caller' \<le> gas \<and> settled b a s1 s' err"
proof -
  let ?s3 = "CreateAccount b s2 to"
  note w = evm_okD(1) [OF assms(1)]
  note ops = evm_StateOps [OF assms(1)]
  have ok: "env_ok b env" "state_ok b s2" using assms(1) by (simp_all add: evm_ok_def)
  have c3: "does b s2 (set_acct to (Some (fresh_acct b (sd_db s2) to)) (view b s2)) ?s3"
    using does_CreateAccount [OF w, of to] assms(2) by (simp add: got_def fresh_acct_balance)
  note d3 = doesD [OF c3]
  obtain x where x: "v_acct (view b s2) a = Some x" using assms(3) by (auto simp: solid_in_def split: option.splits)
  have at: "a \<noteq> to" using x assms(2) by auto
  have bal3: "balance_of (view b ?s3) = balance_of (view b s2)" by (rule balance_effects(3) [OF w])
  have r0: "0 \<le> v_refund (view b s2)" using evm_okD(3) [OF assms(1)] by (simp add: view_ok_def)
  have j3: "list_all entry_ok (sd_journal ?s3)" "revs_ok ?s3"
  proof -
    obtain es where "becomes b s2 es (set_acct to (Some (fresh_acct b (sd_db s2) to)) (view b s2)) ?s3"
      using c3 by (auto simp: does_def)
    then show "list_all entry_ok (sd_journal ?s3)" using state_okD(2) [OF ok(2)] by (simp add: becomes_def frame_of_def)
    show "revs_ok ?s3" using does_saved(2) [OF c3] state_okD(3) [OF ok(2)] by simp
  qed
  show ?thesis
  proof (cases "val \<le> balance_of (view b s2) a")
    case False
    then have "env_Call (Run fuel env) env 0 ?s3 (sender_ref a) to input gas val =
        Ret ([], Some InsufficientBalance, ref_ReturnGas (sender_ref a) gas, ?s3)"
      using bal3 by (simp add: env_Call_def CallCreateDepth_def ops ops_simps)
    moreover have "ref_gas (ref_ReturnGas (sender_ref a) gas) = gas" using refunded_gas [OF refunded_ReturnGas] .
    ultimately show ?thesis using d3(1) assms(4,6) bal3 by (simp add: settled_def)
  next
    case True
    obtain n s4 where s4: "Snapshot ?s3 = (n, s4)" by (cases "Snapshot ?s3")
    note sn = Snapshot_saved [OF j3(2) d3(1) s4]
    let ?s5 = "AddBalance b (SubBalance b s4 a val) to val"
    have "v_acct (view b ?s3) a \<noteq> None" "v_acct (view b ?s3) to = Some (fresh_acct b (sd_db ?s3) to)" "base b ?s3 to = None"
      using d3 x at base_None [OF w assms(2)] by simp_all
    note t = transfer_new [OF d3(1) j3 s4 this at, of val]
    define con where "con = SetCallCode (NewContract (sender_ref a) to val gas) to (fst (GetCodeHash b ?s5 to)) (fst (GetCode b ?s5 to))"
    have con: "c_Code con = []" "c_Gas con = gas" using t(4) by (simp_all add: con_def SetCallCode_def NewContract_def reads_view)
    obtain ret err con' where r: "Run fuel env 0 ?s5 con input = Ret (ret, err, con', ?s5)" "0 \<le> c_Gas con'" "c_Gas con' \<le> gas"
      using Run_no_code [OF ok(1) con(1), of fuel 0 ?s5 input] con(2) assms(4) by auto
    have ex: "fst (Exist b s4 to)" using sn(2) d3(2) by (simp add: reads_view)
    have call: "env_Call (Run fuel env) env 0 ?s3 (sender_ref a) to input gas val = after_run env (sender_ref a) n (ret, err, con', ?s5)"
    proof -
      have "fst (GetBalance b ?s3 a) = balance_of (view b s2) a" using bal3 by (simp add: reads_view)
      then show ?thesis using True s4 ex r(1) unfolding con_def
        by (auto simp: env_Call_def CallCreateDepth_def ops Let_def ops_simps)
    qed
    have bnd: "bounded (balance_of (view b ?s5)) T" if "bounded (balance_of (view b s1)) T" for T
      using transfer_bounded [OF assms(1) sn(4) _ _ assms(5) True] that assms(6) sn(2) bal3 wf_effects(3) [OF sn(4)] by simp
    show ?thesis
    proof (cases err)
      case None
      then show ?thesis unfolding call
        using r(2,3) t(1-3) d3(2) r0 bnd refunded_gas [OF refunded_Finalise, of a con'] by (simp add: after_run_def settled_def)
    next
      case (Some e)
      obtain s6 where "RevertToSnapshot b ?s5 n = Ret s6" "wf_objects b s6" "v_refund (view b s6) = v_refund (view b ?s3)"
        "v_acct (view b s6) a \<noteq> None" "balance_of (view b s6) = balance_of (view b ?s3)" using t(5) by blast
      then show ?thesis unfolding call
        using Some r0 d3(2) bal3 assms(4,6) refunded_gas [OF refunded_Finalise, of a "UseAllGas con'"]
        by (simp add: after_run_def settled_def ops) (simp add: state_ops_def)
    qed
  qed
qed

lemma room_less: "room_for b s (2 + G) \<Longrightarrow> 0 \<le> g \<Longrightarrow> g \<le> G \<Longrightarrow> room_for b s (2 + g)"
  unfolding room_for_def by (smt (verit))

lemma send_call:
  assumes "StateOps env = state_ops b" "m_To (st_msg st) = Some to" "st_state st = s1"
    and "s2 = SetNonce b s1 a (nonce_of (view b s1) a + 1)"
  shows "send_message run env a st =
    exec_bind (env_Call run env 0 (with_account b s2 to) (sender_ref a) to (st_data st) (st_gas st) (st_value st))
      (\<lambda>(ret, vmerr, caller, db). Ret (ret, vmerr, st\<lparr>st_gas := ref_gas caller, st_state := db\<rparr>))"
  using assms
  by (auto simp: send_message_def st_account_def with_account_def Let_def intro!: arg_cong [where f = "exec_bind _"] ext)
    (auto simp: state_ops_def reads_view)

lemma message_sent:
  assumes "evm_ok b env s" "room_for b s (2 + gas)" "0 \<le> gas" "gas < int fuel" "0 \<le> st_value st" "0 \<le> x" "x \<le> balance_of (view b s) a"
    and "s1 = SubBalance b (with_account b s a) a x" "st_state st = s1" "st_gas st = gas"
  shows "\<exists>ret err g s'. send_message (Run fuel env) env a st = Ret (ret, err, st\<lparr>st_gas := g, st_state := s'\<rparr>) \<and>
    0 \<le> g \<and> g \<le> gas \<and> settled b a s1 s' err"
proof (cases "m_To (st_msg st)")
  case None
  obtain ret addr err caller' s' where
    "env_Create (Run fuel env) env 0 s1 (sender_ref a) (st_data st) gas (st_value st) = Ret (ret, addr, err, caller', s')"
    "0 \<le> ref_gas caller'" "ref_gas caller' \<le> gas" "settled b a s1 s' err"
    using create_sent [OF assms(1-8)] by blast
  then show ?thesis using None assms(9,10) by (simp add: send_message_def) blast
next
  case (Some to)
  define s2 where "s2 = SetNonce b s1 a (nonce_of (view b s1) a + 1)"
  have nn: "uint (nonce_of (view b s) c) + (2 + gas) < 2 ^ 64" for c using assms(2) by (simp add: room_for_def)
  have "uint (nonce_of (view b s) a) + 1 < 2 ^ 64" using nn [of a] assms(3) by simp
  note k = pay_keeps [OF assms(1,6,7) this assms(8), of s2, unfolded s2_def, OF refl, folded s2_def]
  have I2: "evm_ok b env s2" using k(1) by (simp add: keeps_def)
  have room: "room_for b s2 gas"
  proof -
    have "uint (nonce_of (view b s2) c) \<le> uint (nonce_of (view b s) c) + 1" for c using k(1) by (simp add: keeps_def grows_def)
    then have "uint (nonce_of (view b s2) c) + gas < 2 ^ 64" for c using nn [of c] by (smt (verit))
    then show ?thesis using assms(2,3) by (simp add: room_for_def)
  qed
  define s3 where "s3 = with_account b s2 to"
  have "\<exists>ret err caller' s'. env_Call (Run fuel env) env 0 s3 (sender_ref a) to (st_data st) gas (st_value st) = Ret (ret, err, caller', s') \<and>
    0 \<le> ref_gas caller' \<and> ref_gas caller' \<le> gas \<and> settled b a s1 s' err"
    using call_sent_existing [OF I2 room assms(4,5) k(2,3)] call_sent_new [OF I2 _ k(2) assms(3,5) k(3)]
    by (cases "v_acct (view b s2) to") (simp_all add: s3_def with_account_def)
  then show ?thesis using send_call [OF evm_StateOps(1) [OF assms(1)] Some assms(9) s2_def, of "Run fuel env"]
    by (fastforce simp: s3_def assms(10))
qed

section \<open>Settling the bill\<close>

lemma bounded_add:
  assumes "bounded f T" "0 \<le> x"
  shows "bounded (f(a := f a + x)) (T + x)"
  unfolding bounded_def
proof (intro allI impI)
  fix A :: "address set" assume A: "finite A"
  have f: "sum f A \<le> T" using assms(1) A by (simp add: bounded_def)
  show "sum (f(a := f a + x)) A \<le> T + x"
  proof (cases "a \<in> A")
    case True
    then show ?thesis using A f by (simp add: sum.remove [of A a])
  next
    case False
    then have "sum (f(a := f a + x)) A = sum f A" by (intro sum.cong) auto
    then show ?thesis using f assms(2) by simp
  qed
qed

lemma bounded_sub:
  assumes "bounded f T" "x \<le> f a"
  shows "bounded (f(a := f a - x)) (T - x)"
  unfolding bounded_def
proof (intro allI impI)
  fix A :: "address set" assume A: "finite A"
  have "sum (f(a := f a - x)) A \<le> sum f (insert a A) - x"
  proof (cases "a \<in> A")
    case True
    then show ?thesis using A by (simp add: sum.remove [of A a] insert_absorb)
  next
    case False
    then have "sum (f(a := f a - x)) A = sum f A" by (intro sum.cong) auto
    then show ?thesis using False A assms(2) by simp
  qed
  also have "\<dots> \<le> T - x" using assms(1) A unfolding bounded_def by simp
  finally show "sum (f(a := f a - x)) A \<le> T - x" .
qed

lemma v_refund_view: "v_refund (view b s) = sd_refund s"
  by (simp add: view_def)

lemma refund_AddBalance:
  assumes "wf_objects b s"
  shows "sd_refund (AddBalance b s a x) = sd_refund s"
proof -
  have "v_refund (view b (AddBalance b s a x)) = v_refund (view b s)"
    using AddBalance_effect [OF assms, where x = x and a = a]
    by (cases "x = 0"; cases "acct_empty b (got b s a)") (auto simp: becomesD(2))
  then show ?thesis by (simp add: view_def)
qed

lemma read_effects:
  assumes "wf_objects b s"
  shows "code_of (view b (AddBalance b s a x)) = code_of (view b s)" "code_of (view b (SubBalance b s a x)) = code_of (view b s)"
    "code_of (view b (SetNonce b s a n)) = code_of (view b s)" "code_of (view b (with_account b s a)) = code_of (view b s)"
    "nonce_of (view b (AddBalance b s a x)) = nonce_of (view b s)" "nonce_of (view b (SubBalance b s a x)) = nonce_of (view b s)"
    "nonce_of (view b (SetNonce b s a n)) = (nonce_of (view b s))(a := n)"
proof -
  have g: "nil_bytes (a_code (got b s a)) = code_of (view b s) a" 
    by (simp add: got_def code_of_def nil_bytes_def split: option.splits)
  have set: "code_of (set_acct a (Some y) v) = (code_of v)(a := nil_bytes (a_code y))"
    "nonce_of (set_acct a (Some y) v) = (nonce_of v)(a := a_nonce y)" for y v
    by (auto simp: code_of_def nonce_of_def)
  show "code_of (view b (SubBalance b s a x)) = code_of (view b s)" "code_of (view b (SetNonce b s a n)) = code_of (view b s)"
    "code_of (view b (with_account b s a)) = code_of (view b s)" "nonce_of (view b (SubBalance b s a x)) = nonce_of (view b s)"
    "nonce_of (view b (SetNonce b s a n)) = (nonce_of (view b s))(a := n)"
    using doesD(2) [OF does_SubBalance [OF assms, of a x]] doesD(2) [OF does_SetNonce [OF assms, of a n]]
      doesD(2) [OF does_with_account [OF assms, of a]] by (simp_all add: set g got_sel)
  show "code_of (view b (AddBalance b s a x)) = code_of (view b s)" "nonce_of (view b (AddBalance b s a x)) = nonce_of (view b s)"
  proof -
    have "\<exists>y. view b (AddBalance b s a x) = set_acct a (Some y) (view b s) \<and> a_code y = a_code (got b s a) \<and> a_nonce y = a_nonce (got b s a)"
    proof (cases "x = 0")
      case True
      then show ?thesis using AddBalance_effect(2,3) [OF assms, where x = x and a = a]
        by (cases "acct_empty b (got b s a)") (fastforce dest: becomesD(2))+
    next
      case False
      show ?thesis using becomesD(2) [OF AddBalance_effect(1) [OF assms False]] by fastforce
    qed
    then show "code_of (view b (AddBalance b s a x)) = code_of (view b s)" "nonce_of (view b (AddBalance b s a x)) = nonce_of (view b s)"
      by (auto simp: set g got_sel simp del: fun_upd_apply)
  qed
qed

lemma refundGas_settles:
  assumes "wf_objects b (st_state st)" "v_acct (view b (st_state st)) (m_From (st_msg st)) \<noteq> None" "0 \<le> sd_refund (st_state st)"
    "st_gas st \<le> st_initialGas st"
  shows "\<exists>r s'. refundGas (state_ops b) st = st\<lparr>st_gas := st_gas st + r, st_state := s', st_gp := st_gp st + (st_gas st + r)\<rparr> \<and>
    0 \<le> r \<and> r \<le> sd_refund (st_state st) \<and> 2 * r \<le> st_initialGas st - st_gas st \<and> wf_objects b s' \<and>
    nonce_of (view b s') = nonce_of (view b (st_state st)) \<and>
    balance_of (view b s') = (let f = balance_of (view b (st_state st)); a = m_From (st_msg st) in
      f(a := f a + (st_gas st + r) * st_gasPrice st))"
proof -
  let ?a = "m_From (st_msg st)"
  define r where "r = BigMin ((st_initialGas st - st_gas st) div 2) (sd_refund (st_state st))"
  define s1 where "s1 = AddBalance b (st_state st) ?a (st_gas st * st_gasPrice st)"
  define s2 where "s2 = AddBalance b s1 ?a (r * st_gasPrice st)"
  have ex: "sdb_Exist (state_ops b) (st_state st) ?a" using assms(2) by (simp add: state_ops_def reads_view)
  have w: "wf_objects b s1" "wf_objects b s2" using assms(1) by (simp_all add: s1_def s2_def wf_effects)
  have "refundGas (state_ops b) st = st\<lparr>st_gas := st_gas st + r, st_state := s2, st_gp := st_gp st + (st_gas st + r)\<rparr>"
    using ex refund_AddBalance [OF assms(1)]
    by (simp add: refundGas_def st_from_def st_account_def Let_def gasUsed_def AddGas_def) (simp add: state_ops_def r_def s1_def s2_def)
  moreover have "0 \<le> r" "r \<le> sd_refund (st_state st)" "2 * r \<le> st_initialGas st - st_gas st" using assms(3,4) by (auto simp: r_def BigMin_def)
  moreover have "nonce_of (view b s2) = nonce_of (view b (st_state st))"
    using read_effects(5) [OF w(1)] read_effects(5) [OF assms(1)] by (simp add: s2_def s1_def)
  moreover have "balance_of (view b s2) = (let f = balance_of (view b (st_state st)) in
      f(?a := f ?a + (st_gas st + r) * st_gasPrice st))"
    unfolding s2_def balance_effects(1) [OF w(1)] unfolding s1_def balance_effects(1) [OF assms(1)]
    by (simp add: distrib_right add.assoc Let_def)
  ultimately show ?thesis using w(2) unfolding Let_def by blast
qed

lemma with_account_again:
  assumes "wf_objects b s"
  shows "v_acct (view b (with_account b s a)) a \<noteq> None" "balance_of (view b (with_account b s a)) = balance_of (view b s)"
    "nonce_of (view b (with_account b s a)) = nonce_of (view b s)" "wf_objects b (with_account b s a)"
  using doesD(1,2) [OF does_with_account [OF assms, of a]] by (auto simp: got_sel nonce_of_def)

text \<open>What the checks before the transition decide.\<close>

lemma preCheck_cases:
  assumes "wf_objects b s" "a = m_From msg" "st = (NewStateTransition msg gp s)\<lparr>st_state := with_account b s a\<rparr>"
    "cost = m_Gas msg * m_GasPrice msg"
  shows "preCheck (state_ops b) (NewStateTransition msg gp s) =
    (if m_CheckNonce msg \<and> nonce_of (view b s) a \<noteq> m_Nonce msg then (Some (NonceError (m_Nonce msg) (nonce_of (view b s) a)), st)
     else if balance_of (view b s) a < cost then (Some (InsufficientGasFunds cost (balance_of (view b s) a)), st)
     else if gp < m_Gas msg then (Some (GasLimitErr gp (m_Gas msg)), st)
     else (None, st\<lparr>st_gp := gp - m_Gas msg, st_gas := m_Gas msg, st_initialGas := m_Gas msg,
                    st_state := SubBalance b (with_account b s a) a cost\<rparr>))"
proof -
  define st0 where "st0 = NewStateTransition msg gp s"
  have acc: "st_account (state_ops b) a st0 = st" "st_account (state_ops b) a st = st"
    using with_account_again(1) [OF assms(1), of a]
    by (simp_all add: assms(3) st0_def st_account_def NewStateTransition_def state_ops_def reads_view with_account_def)
  have sel: "st_msg st0 = msg" "st_msg st = msg" "st_gp st = gp" "st_gas st = 0" "st_gasPrice st = m_GasPrice msg"
    "st_state st = with_account b s a" using assms(2) by (simp_all add: NewStateTransition_def st0_def assms(3))
  have get: "sdb_GetBalance (state_ops b) (with_account b s a) a = balance_of (view b s) a"
    "sdb_GetNonce (state_ops b) (with_account b s a) a = nonce_of (view b s) a" "sdb_SubBalance (state_ops b) = SubBalance b"
    using with_account_again [OF assms(1), of a] by (simp_all add: state_ops_def reads_view)
  have "buyGas (state_ops b) st =
    (if balance_of (view b s) a < cost then (Some (InsufficientGasFunds cost (balance_of (view b s) a)), st)
     else if gp < m_Gas msg then (Some (GasLimitErr gp (m_Gas msg)), st)
     else (None, st\<lparr>st_gp := gp - m_Gas msg, st_gas := m_Gas msg, st_initialGas := m_Gas msg,
                    st_state := SubBalance b (with_account b s a) a cost\<rparr>))"
    unfolding buyGas_def st_from_def sel Let_def assms(2) [symmetric] acc prod.case get SubGas_def assms(4) [symmetric] st_addGas_def
    using sel by (cases st) simp
  then show ?thesis
    unfolding preCheck_def st_from_def st0_def [symmetric] sel Let_def assms(2) [symmetric] acc prod.case get by simp
qed

text \<open>The end of a transition: what was bought is returned to the sender or paid to the miner.\<close>

lemma pay_out:
  assumes "wf_objects b (st_state st)" "v_acct (view b (st_state st)) (m_From (st_msg st)) \<noteq> None" "0 \<le> v_refund (view b (st_state st))"
    "0 \<le> st_gas st" "st_gas st \<le> st_initialGas st" "0 \<le> st_gasPrice st"
    and "st' = refundGas (state_ops b) st" "s' = AddBalance b (st_state st') miner (gasUsed st' * st_gasPrice st')"
  shows "st_gp st' = st_gp st + st_initialGas st - gasUsed st'" "gasUsed st' \<le> st_initialGas st"
    "gasUsed st \<le> 2 * gasUsed st'" "wf_objects b s'"
    "bounded (balance_of (view b (st_state st))) T \<Longrightarrow> bounded (balance_of (view b s')) (T + st_initialGas st * st_gasPrice st)"
proof -
  let ?a = "m_From (st_msg st)" and ?g = "st_gas st" and ?p = "st_gasPrice st" and ?f = "balance_of (view b (st_state st))"
  have "0 \<le> sd_refund (st_state st)" using assms(3) by (simp add: view_def)
  then obtain r s1 where r: "st' = st\<lparr>st_gas := ?g + r, st_state := s1, st_gp := st_gp st + (?g + r)\<rparr>"
    "0 \<le> r" "2 * r \<le> st_initialGas st - ?g" "wf_objects b s1" "balance_of (view b s1) = ?f(?a := ?f ?a + (?g + r) * ?p)"
    using refundGas_settles [OF assms(1,2) _ assms(5)] unfolding assms(7) Let_def by blast
  let ?u = "st_initialGas st - (?g + r)"
  have u: "gasUsed st' = ?u" by (simp add: r(1) gasUsed_def)
  show "st_gp st' = st_gp st + st_initialGas st - gasUsed st'" "gasUsed st' \<le> st_initialGas st" "gasUsed st \<le> 2 * gasUsed st'"
    using r(2,3) assms(4) by (simp_all add: u) (simp_all add: r(1) gasUsed_def)
  show "wf_objects b s'" using r(1,4) by (simp add: assms(8) wf_effects)
  have "balance_of (view b s') = (balance_of (view b s1))(miner := balance_of (view b s1) miner + ?u * ?p)"
    using balance_effects(1) [OF r(4)] u by (simp add: assms(8) r(1))
  moreover have n: "0 \<le> (?g + r) * ?p" "0 \<le> ?u * ?p" using assms(4,6) r(2,3) by simp_all
  moreover assume T: "bounded ?f T"
  ultimately have "bounded (balance_of (view b s')) (T + (?g + r) * ?p + ?u * ?p)"
    using bounded_add [OF bounded_add [OF T n(1)] n(2)] by (simp add: r(5))
  then show "bounded (balance_of (view b s')) (T + st_initialGas st * ?p)" by (simp add: algebra_simps)
qed

lemma IntrinsicGas_nonneg: "0 \<le> IntrinsicGas dat cc hs"
proof -
  have "int (length (filter (\<lambda>byt. byt \<noteq> 0) dat)) \<le> int (length dat)" by simp
  then show ?thesis unfolding IntrinsicGas_def Let_def
    by (auto simp: gas_prices intro!: add_nonneg_nonneg mult_nonneg_nonneg)
qed

section \<open>Transactions\<close>

text \<open>
  A message in a good environment and state, with a gas price and a value that are not negative and
  gas that neither leaves the range of machine integers nor lets a nonce overflow.
\<close>

definition tx_ok :: "('t, 'd) Backend \<Rightarrow> ('t, 'd) state_db Environment \<Rightarrow> ('t, 'd) state_db \<Rightarrow> Message \<Rightarrow> bool" where
  "tx_ok b env s msg \<longleftrightarrow>
     env_ok b env \<and> state_ok b s \<and> 0 \<le> m_Gas msg \<and> 0 \<le> m_GasPrice msg \<and> 0 \<le> m_Value msg \<and> room_for b s (2 + m_Gas msg)"

definition tx_gas :: "('t, 'd) state_db Environment \<Rightarrow> Message \<Rightarrow> int" where
  "tx_gas env msg = IntrinsicGas (m_Data msg) (MessageCreatesContract msg) (IsHomestead (chainConfig env) (Some (BlockNumber env)))"

text \<open>What a transaction may do to the gas pool and to the balances.\<close>

definition applied ::
  "('t, 'd) Backend \<Rightarrow> ('t, 'd) state_db Environment \<Rightarrow> Message \<Rightarrow> GasPool \<Rightarrow> ('t, 'd) state_db \<Rightarrow>
   (tx_err + bytes \<times> int) \<times> GasPool \<times> ('t, 'd) state_db \<Rightarrow> bool" where
  "applied b env msg gp s = (\<lambda>(r, gp', s').
     (\<forall>T. bounded (balance_of (view b s)) T \<longrightarrow> bounded (balance_of (view b s')) T) \<and>
     (case r of
        Inl _ \<Rightarrow> gp' = gp \<or> m_Gas msg \<le> gp \<and> gp' = gp - m_Gas msg
      | Inr (_, used) \<Rightarrow> gp' = gp - used \<and> m_Gas msg \<le> gp \<and> used \<le> m_Gas msg \<and> tx_gas env msg \<le> 2 * used))"

text \<open>The transition after the checks, as the outcome of the message decides it.\<close>

lemma ApplyMessage_eval:
  assumes "StateOps env = state_ops b" "preCheck (state_ops b) (NewStateTransition msg gp s) = (None, st)"
    and "st_from (state_ops b) st = (a, st)" "st_msg st = msg" "st_data st = m_Data msg"
  shows "st_gas st < tx_gas env msg \<Longrightarrow>
      ApplyMessage run env msg gp s = Ret (Inl (InvalidTxError OutOfGas), st_gp st, st_state st)"
    "\<not> st_gas st < tx_gas env msg \<Longrightarrow>
      send_message run env a (st\<lparr>st_gas := st_gas st - tx_gas env msg\<rparr>) = Ret (ret, err, st2) \<Longrightarrow>
      st3 = refundGas (state_ops b) st2 \<Longrightarrow>
      ApplyMessage run env msg gp s =
        (if err = Some InsufficientBalance then Ret (Inl (InvalidTxError InsufficientBalance), st_gp st2, st_state st2)
         else Ret (Inr (ret, gasUsed st3), st_gp st3, AddBalance b (st_state st3) (Coinbase env) (gasUsed st3 * st_gasPrice st3)))"
  unfolding ApplyMessage_def TransitionDb_def assms(1,2) Let_def
  by (simp_all add: assms(3-5) st_useGas_def tx_gas_def) (simp add: state_ops_def gasUsed_def)

lemma ApplyMessage_bought:
  assumes "tx_ok b env s msg" "m_Gas msg < int fuel" "a = m_From msg" "cost = m_Gas msg * m_GasPrice msg"
    and "cost \<le> balance_of (view b s) a" "m_Gas msg \<le> gp"
    and "st = (NewStateTransition msg gp s)\<lparr>st_gp := gp - m_Gas msg, st_gas := m_Gas msg, st_initialGas := m_Gas msg,
           st_state := SubBalance b (with_account b s a) a cost\<rparr>"
    and "preCheck (state_ops b) (NewStateTransition msg gp s) = (None, st)"
  shows "\<exists>x. ApplyMessage (Run fuel env) env msg gp s = Ret x \<and> applied b env msg gp s x"
proof -
  have t: "env_ok b env" "state_ok b s" "0 \<le> m_Gas msg" "0 \<le> m_GasPrice msg" "0 \<le> m_Value msg" "room_for b s (2 + m_Gas msg)"
    using assms(1) by (simp_all add: tx_ok_def)
  have ok: "evm_ok b env s" using t(1,2) by (simp add: evm_ok_def)
  define s1 where "s1 = SubBalance b (with_account b s a) a cost"
  note p = pay_views [OF evm_okD(1) [OF ok] s1_def]
  have c0: "0 \<le> cost" using t(3,4) by (simp add: assms(4))
  have b1: "bounded (balance_of (view b s1)) (T - cost)" if "bounded (balance_of (view b s)) T" for T
    using bounded_sub [OF that assms(5)] p(4) by simp
  have up: "bounded f (T - cost) \<Longrightarrow> bounded f T" for f T using c0 unfolding bounded_def by (smt (verit))
  have sel: "st_msg st = msg" "st_data st = m_Data msg" "st_gas st = m_Gas msg" "st_state st = s1" "st_value st = m_Value msg"
    "st_gp st = gp - m_Gas msg" "st_gasPrice st = m_GasPrice msg" "st_initialGas st = m_Gas msg"
    by (simp_all add: assms(7) NewStateTransition_def s1_def)
  have from1: "st_from (state_ops b) st = (a, st)"
    using p(3) sel(1,4) assms(3) by (simp add: st_from_def st_account_def state_ops_def reads_view)
  note ev = ApplyMessage_eval [OF evm_StateOps(1) [OF ok] assms(8) from1 sel(1,2)]
  let ?g = "m_Gas msg - tx_gas env msg"
  show ?thesis
  proof (cases "m_Gas msg < tx_gas env msg")
    case True
    then show ?thesis using ev(1) b1 up assms(6) by (simp add: sel applied_def)
  next
    case False
    have "0 \<le> tx_gas env msg" by (simp add: tx_gas_def IntrinsicGas_nonneg)
    then have g: "0 \<le> ?g" "?g < int fuel" "?g \<le> m_Gas msg" using False assms(2) by simp_all
    define st1 where "st1 = st\<lparr>st_gas := ?g\<rparr>"
    have s1: "st_state st1 = s1" "st_gas st1 = ?g" "0 \<le> st_value st1" using sel t(5) by (simp_all add: st1_def)
    obtain ret err g' s' where m: "send_message (Run fuel env) env a st1 = Ret (ret, err, st1\<lparr>st_gas := g', st_state := s'\<rparr>)"
      "0 \<le> g'" "g' \<le> ?g" "settled b a s1 s' err"
      using message_sent [OF ok room_less [OF t(6) g(1,3)] g(1,2) s1(3) c0 assms(5) s1_def s1(1,2)] by blast
    define st2 where "st2 = st1\<lparr>st_gas := g', st_state := s'\<rparr>"
    have sel2: "st_state st2 = s'" "st_gas st2 = g'" "st_gp st2 = gp - m_Gas msg" "st_msg st2 = msg"
      "st_gasPrice st2 = m_GasPrice msg" "st_initialGas st2 = m_Gas msg" using sel by (simp_all add: st2_def st1_def)
    define st3 where "st3 = refundGas (state_ops b) st2"
    have app: "ApplyMessage (Run fuel env) env msg gp s =
        (if err = Some InsufficientBalance then Ret (Inl (InvalidTxError InsufficientBalance), st_gp st2, st_state st2)
         else Ret (Inr (ret, gasUsed st3), st_gp st3, AddBalance b (st_state st3) (Coinbase env) (gasUsed st3 * st_gasPrice st3)))"
      by (rule ev(2) [OF _ _ st3_def]) (use False m(1) in \<open>simp_all add: sel st1_def st2_def\<close>)
    have b2: "bounded (balance_of (view b s')) (T - cost)" if "bounded (balance_of (view b s)) T" for T
      using m(4) b1 [OF that] by (simp add: settled_def)
    show ?thesis
    proof (cases "err = Some InsufficientBalance")
      case True
      then show ?thesis using b2 up assms(6) unfolding app by (simp add: applied_def sel2)
    next
      case f2: False
      have q: "wf_objects b (st_state st2)" "v_acct (view b (st_state st2)) (m_From (st_msg st2)) \<noteq> None"
        "0 \<le> v_refund (view b (st_state st2))" using m(4) f2 assms(3) by (simp_all add: settled_def sel2)
      note o = pay_out [OF q _ _ _ st3_def refl]
      have "bounded (balance_of (view b (AddBalance b (st_state st3) (Coinbase env) (gasUsed st3 * st_gasPrice st3)))) T"
        if "bounded (balance_of (view b s)) T" for T
        using o(5) [of "T - cost"] b2 [OF that] m(2,3) g(3) t(4) by (simp add: sel2 assms(4))
      moreover have "gasUsed st2 = m_Gas msg - g'" by (simp add: gasUsed_def sel2)
      ultimately show ?thesis using f2 assms(6) o(1-3) m(2,3) g(3) t(4) unfolding app by (simp add: applied_def sel2)
    qed
  qed
qed

lemma ApplyMessage_applied:
  assumes "tx_ok b env s msg" "m_Gas msg < int fuel"
  shows "\<exists>x. ApplyMessage (Run fuel env) env msg gp s = Ret x \<and> applied b env msg gp s x"
proof -
  have ok: "evm_ok b env s" using assms(1) by (simp add: tx_ok_def evm_ok_def)
  let ?st = "(NewStateTransition msg gp s)\<lparr>st_state := with_account b s (m_From msg)\<rparr>"
  note p = preCheck_cases [OF evm_okD(1) [OF ok] refl refl refl, of msg gp]
  show ?thesis
  proof (cases "preCheck (state_ops b) (NewStateTransition msg gp s)")
    case (Pair e st)
    show ?thesis
    proof (cases e)
      case None
      then show ?thesis using Pair p
        by (intro ApplyMessage_bought [OF assms refl refl _ _ refl]) (auto split: if_splits)
    next
      case (Some err)
      then have "st = ?st" using Pair p by (auto split: if_splits)
      then show ?thesis using Pair Some with_account_again(2) [OF evm_okD(1) [OF ok]]
        by (simp add: ApplyMessage_def TransitionDb_def evm_StateOps(1) [OF ok] applied_def)
          (simp add: NewStateTransition_def)
    qed
  qed
qed



section \<open>A transfer\<close>

lemma Run_codeless:
  "c_Code con = [] \<Longrightarrow> Option.bind (c_CodeAddr con) precompiled = None \<Longrightarrow> Run fuel env depth s con input = Ret ([], None, con, s)"
  by (simp add: Run_def Run_with_def)

text \<open>The end of a transition without refund.\<close>

lemma no_refund:
  assumes "wf_objects b (st_state st)" "v_acct (view b (st_state st)) (m_From (st_msg st)) \<noteq> None" "v_refund (view b (st_state st)) = 0"
    "st_gas st \<le> st_initialGas st" and "st' = refundGas (state_ops b) st" "s' = AddBalance b (st_state st') miner (gasUsed st' * st_gasPrice st')"
  shows "gasUsed st' = st_initialGas st - st_gas st" "st_gp st' = st_gp st + st_gas st"
    "nonce_of (view b s') = nonce_of (view b (st_state st))"
    "balance_of (view b s') = (let f = balance_of (view b (st_state st)); g = f(m_From (st_msg st) := f (m_From (st_msg st)) + st_gas st * st_gasPrice st)
       in g(miner := g miner + (st_initialGas st - st_gas st) * st_gasPrice st))"
proof -
  obtain s1 where r: "st' = st\<lparr>st_gas := st_gas st, st_state := s1, st_gp := st_gp st + st_gas st\<rparr>" "wf_objects b s1"
    "nonce_of (view b s1) = nonce_of (view b (st_state st))"
    "balance_of (view b s1) = (let f = balance_of (view b (st_state st)); a = m_From (st_msg st) in f(a := f a + st_gas st * st_gasPrice st))"
  proof -
    have "\<exists>r s1. refundGas (state_ops b) st = st\<lparr>st_gas := st_gas st + r, st_state := s1, st_gp := st_gp st + (st_gas st + r)\<rparr> \<and>
      r = 0 \<and> wf_objects b s1 \<and> nonce_of (view b s1) = nonce_of (view b (st_state st)) \<and>
      balance_of (view b s1) = (let f = balance_of (view b (st_state st)); a = m_From (st_msg st) in
        f(a := f a + (st_gas st + r) * st_gasPrice st))"
      using refundGas_settles [OF assms(1,2) _ assms(4)] assms(3) unfolding v_refund_view by (metis antisym order_refl)
    then show ?thesis using that assms(5) by auto
  qed
  show "gasUsed st' = st_initialGas st - st_gas st" "st_gp st' = st_gp st + st_gas st" by (simp_all add: r(1) gasUsed_def)
  show "nonce_of (view b s') = nonce_of (view b (st_state st))" using read_effects(5) [OF r(2)] r(3) by (simp add: assms(6) r(1))
  show "balance_of (view b s') = (let f = balance_of (view b (st_state st)); g = f(m_From (st_msg st) := f (m_From (st_msg st)) + st_gas st * st_gasPrice st)
       in g(miner := g miner + (st_initialGas st - st_gas st) * st_gasPrice st))"
    using balance_effects(1) [OF r(2)] r(4) by (simp add: assms(6) r(1) gasUsed_def Let_def)
qed

lemma call_codeless:
  assumes "evm_ok b env s" "precompiled to = None" "code_of (view b s) to = []" "v \<le> balance_of (view b s) a"
  shows "\<exists>caller' s'. env_Call (Run fuel env) env 0 (with_account b s to) (sender_ref a) to input gas v = Ret ([], None, caller', s') \<and>
    ref_gas caller' = gas \<and> wf_objects b s' \<and> v_refund (view b s') = v_refund (view b s) \<and>
    nonce_of (view b s') = nonce_of (view b s) \<and>
    balance_of (view b s') = (let f = (balance_of (view b s))(a := balance_of (view b s) a - v) in f(to := f to + v))"
proof -
  note w = evm_okD(1) [OF assms(1)]
  let ?s3 = "with_account b s to"
  note d3 = does_with_account [OF w, of to]
  note a3 = with_account_again [OF w, of to]
  obtain n s4 where s4: "Snapshot ?s3 = (n, s4)" by (cases "Snapshot ?s3")
  have "revs_ok ?s3" using assms(1) state_okD(3) does_saved(2) [OF d3] by (auto simp: evm_ok_def)
  note sn = Snapshot_saved [OF this a3(4) s4]
  let ?s5 = "AddBalance b (SubBalance b s4 a v) to v"
  have w4: "wf_objects b (SubBalance b s4 a v)" using sn(4) by (rule wf_effects)
  have c5: "code_of (view b ?s5) to = []"
    using assms(3) sn(2) by (simp add: read_effects [OF w4] read_effects [OF sn(4)] read_effects [OF w])
  have r5: "v_refund (view b ?s5) = v_refund (view b s)"
    unfolding v_refund_view [of b ?s5] refund_AddBalance [OF w4] unfolding v_refund_view [of b, symmetric]
    using doesD(2) [OF does_SubBalance [OF sn(4), of a v]] doesD(2) [OF d3] sn(2) by simp
  define con where "con = SetCallCode (NewContract (sender_ref a) to v gas) to (fst (GetCodeHash b ?s5 to)) (fst (GetCode b ?s5 to))"
  have con: "c_Code con = []" "c_Gas con = gas" "c_CodeAddr con = Some to"
    using c5 by (simp_all add: con_def SetCallCode_def NewContract_def reads_view)
  have r: "Run fuel env 0 ?s5 con input = Ret ([], None, con, ?s5)"
    by (rule Run_codeless [OF con(1)]) (simp add: con(3) assms(2))
  have ex: "fst (Exist b s4 to)" using a3(1) sn(2) by (simp add: reads_view)
  have "env_Call (Run fuel env) env 0 ?s3 (sender_ref a) to input gas v = after_run env (sender_ref a) n ([], None, con, ?s5)"
  proof -
    have "fst (GetBalance b ?s3 a) = balance_of (view b s) a" using a3(2) by (simp add: reads_view)
    then show ?thesis using assms(4) s4 ex r unfolding con_def
      by (auto simp: env_Call_def CallCreateDepth_def evm_StateOps [OF assms(1)] Let_def ops_simps)
  qed
  moreover have "balance_of (view b ?s5) = (let f = (balance_of (view b s))(a := balance_of (view b s) a - v) in f(to := f to + v))"
    using sn(2) a3(2) by (simp add: balance_effects [OF w4] balance_effects [OF sn(4)] Let_def)
  moreover have "nonce_of (view b ?s5) = nonce_of (view b s)"
    using sn(2) a3(3) by (simp add: read_effects [OF w4] read_effects [OF sn(4)])
  moreover have "ref_gas (Finalise (sender_ref a) con) = gas" using refunded_gas [OF refunded_Finalise, of a con] con(2) by simp
  ultimately show ?thesis using r5 wf_effects(4) [OF w4] by (auto simp: after_run_def)
qed

text \<open>A message without data to an account without code, up to the settlement of the gas.\<close>

lemma transfer_sent:
  assumes "tx_ok b env s msg" "m_To msg = Some to" "m_Data msg = []" "code_of (view b s) to = []" "precompiled to = None"
    and "m_CheckNonce msg \<Longrightarrow> m_Nonce msg = nonce_of (view b s) (m_From msg)" "TxGas \<le> m_Gas msg" "m_Gas msg \<le> gp"
    and "m_Gas msg * m_GasPrice msg + m_Value msg \<le> balance_of (view b s) (m_From msg)" "sd_refund s = 0"
  obtains st where "wf_objects b (st_state st)" "v_refund (view b (st_state st)) = 0"
    "nonce_of (view b (st_state st)) (m_From msg) = nonce_of (view b s) (m_From msg) + 1"
    "nonce_of (view b s) (m_From msg) + 1 \<noteq> 0"
    "balance_of (view b (st_state st)) =
       (let f = (balance_of (view b s))(m_From msg := balance_of (view b s) (m_From msg) - (m_Gas msg * m_GasPrice msg + m_Value msg))
        in f(to := f to + m_Value msg))"
    "st_gas st = m_Gas msg - TxGas" "st_gp st = gp - m_Gas msg" "st_msg st = msg" "st_gasPrice st = m_GasPrice msg"
    "st_initialGas st = m_Gas msg"
    "\<And>st'. st' = refundGas (state_ops b) st \<Longrightarrow> ApplyMessage (Run fuel env) env msg gp s =
       Ret (Inr ([], gasUsed st'), st_gp st', AddBalance b (st_state st') (Coinbase env) (gasUsed st' * st_gasPrice st'))"
proof -
  let ?a = "m_From msg" and ?G = "m_Gas msg" and ?p = "m_GasPrice msg" and ?v = "m_Value msg"
  have ok: "evm_ok b env s" and nn: "0 \<le> ?G" "0 \<le> ?p" "0 \<le> ?v" using assms(1) by (simp_all add: tx_ok_def evm_ok_def)
  note w = evm_okD(1) [OF ok]
  define cost where "cost = ?G * ?p"
  define st where "st = (NewStateTransition msg gp s)\<lparr>st_gp := gp - ?G, st_gas := ?G, st_initialGas := ?G,
     st_state := SubBalance b (with_account b s ?a) ?a cost\<rparr>"
  have bal: "cost + ?v \<le> balance_of (view b s) ?a" using assms(9) by (simp add: cost_def)
  have pre: "preCheck (state_ops b) (NewStateTransition msg gp s) = (None, st)"
    using preCheck_cases [OF w refl refl refl, of msg gp] assms(6,8) bal nn(3)
    by (auto simp: st_def cost_def reads_view)
  define s1 where "s1 = SubBalance b (with_account b s ?a) ?a cost"
  define s2 where "s2 = SetNonce b s1 ?a (nonce_of (view b s1) ?a + 1)"
  note p = pay_views [OF w s1_def]
  have room: "uint (nonce_of (view b s) ?a) + (2 + ?G) < 2 ^ 64" using assms(1) by (simp add: tx_ok_def room_for_def)
  then have r1: "uint (nonce_of (view b s) ?a) + 1 < 2 ^ 64" using nn(1) by simp
  have c0: "0 \<le> cost" "cost \<le> balance_of (view b s) ?a" using nn bal by (simp_all add: cost_def)
  note k = pay_keeps [OF ok c0 r1 s1_def s2_def]
  have I2: "evm_ok b env s2" using k(1) by (simp add: keeps_def)
  have "code_of (view b s2) = code_of (view b s)"
    using read_effects(3) [OF p(1)] read_effects(2) [OF with_account_again(4) [OF w]] read_effects(4) [OF w]
    by (simp add: s2_def s1_def)
  then have v2: "code_of (view b s2) to = []" "nonce_of (view b s2) = (nonce_of (view b s))(?a := nonce_of (view b s) ?a + 1)"
    "v_refund (view b s2) = 0"
    using assms(4,10) p(2,5) doesD(2) [OF does_SetNonce [OF p(1)]] read_effects(7) [OF p(1)]
    by (simp_all add: s2_def reads_view v_refund_view)
  have bal2: "balance_of (view b s2) = (balance_of (view b s))(?a := balance_of (view b s) ?a - cost)" using k(3) p(4) by simp
  have "?v \<le> balance_of (view b s2) ?a" using bal bal2 by simp
  then obtain caller' s' where c: "env_Call (Run fuel env) env 0 (with_account b s2 to) (sender_ref ?a) to [] (?G - TxGas) ?v = Ret ([], None, caller', s')"
    "ref_gas caller' = ?G - TxGas" "wf_objects b s'" "v_refund (view b s') = 0" "nonce_of (view b s') = nonce_of (view b s2)"
    "balance_of (view b s') = (let f = (balance_of (view b s2))(?a := balance_of (view b s2) ?a - ?v) in f(to := f to + ?v))"
    using call_codeless [OF I2 assms(5) v2(1), of ?v ?a fuel "[]" "?G - TxGas"] v2(3) by auto
  have sel: "st_msg st = msg" "st_data st = m_Data msg" "st_gas st = ?G" "st_state st = s1" "st_value st = ?v"
    "st_gp st = gp - ?G" "st_gasPrice st = ?p" "st_initialGas st = ?G"
    by (simp_all add: st_def NewStateTransition_def s1_def)
  have from1: "st_from (state_ops b) st = (?a, st)"
    using p(3) sel(1,4) by (simp add: st_from_def st_account_def state_ops_def reads_view)
  have tg: "tx_gas env msg = TxGas" using assms(2,3) by (simp add: tx_gas_def IntrinsicGas_def MessageCreatesContract_def)
  define st2 where "st2 = st\<lparr>st_gas := ?G - TxGas, st_state := s'\<rparr>"
  have sel2: "st_state st2 = s'" "st_gas st2 = ?G - TxGas" "st_gp st2 = gp - ?G" "st_msg st2 = msg" "st_gasPrice st2 = ?p"
    "st_initialGas st2 = ?G" by (simp_all add: st2_def sel)
  have "send_message (Run fuel env) env ?a (st\<lparr>st_gas := ?G - TxGas\<rparr>) = Ret ([], None, st2)"
    using send_call [OF evm_StateOps(1) [OF ok] _ _ s2_def, of "st\<lparr>st_gas := ?G - TxGas\<rparr>" to "Run fuel env"] assms(2,3) c(1,2)
    by (simp add: sel st2_def)
  note ap = ApplyMessage_eval(2) [OF evm_StateOps(1) [OF ok] pre from1 sel(1,2), unfolded tg sel(3), OF _ this refl]
  show thesis
  proof (rule that [of st2])
    show "nonce_of (view b (st_state st2)) ?a = nonce_of (view b s) ?a + 1" using c(5) v2(2) sel2(1) by simp
    show "nonce_of (view b s) ?a + 1 \<noteq> 0" by (rule next_nonce(2) [OF r1])
    show "balance_of (view b (st_state st2)) =
       (let f = (balance_of (view b s))(?a := balance_of (view b s) ?a - (?G * ?p + ?v)) in f(to := f to + ?v))"
      unfolding sel2(1) c(6) bal2 Let_def by (simp add: cost_def diff_diff_eq)
  qed (use ap [OF leD [OF assms(7)]] c(3,4) sel2 in simp_all)
qed

text \<open>
  C7: a transfer of ether to an account without code uses the 21000 gas of a transaction, moves the
  value from the sender to the recipient and the fee from the sender to the miner, leaves all other
  balances alone and increments the nonce of the sender.
\<close>

theorem transfer_transaction:
  assumes "tx_ok b env s msg" "m_To msg = Some to" "m_Data msg = []" "fst (GetCode b s to) = []" "precompiled to = None"
    and "m_CheckNonce msg \<Longrightarrow> m_Nonce msg = fst (GetNonce b s (m_From msg))" "TxGas \<le> m_Gas msg" "m_Gas msg \<le> gp"
    and "m_Gas msg * m_GasPrice msg + m_Value msg \<le> fst (GetBalance b s (m_From msg))" "sd_refund s = 0"
  shows "\<exists>s'. ApplyMessage (Run fuel env) env msg gp s = Ret (Inr ([], TxGas), gp - TxGas, s') \<and>
    fst (GetNonce b s' (m_From msg)) = fst (GetNonce b s (m_From msg)) + 1 \<and>
    (\<forall>a. fst (GetBalance b s' a) = fst (GetBalance b s a)
       - (if a = m_From msg then m_Value msg + TxGas * m_GasPrice msg else 0)
       + (if a = to then m_Value msg else 0) + (if a = Coinbase env then TxGas * m_GasPrice msg else 0))"
proof -
  let ?a = "m_From msg" and ?G = "m_Gas msg" and ?p = "m_GasPrice msg" and ?v = "m_Value msg"
  have h: "code_of (view b s) to = []" "m_CheckNonce msg \<Longrightarrow> m_Nonce msg = nonce_of (view b s) ?a"
    "?G * ?p + ?v \<le> balance_of (view b s) ?a" using assms(4,6,9) by (simp_all add: reads_view)
  obtain st where t: "wf_objects b (st_state st)" "v_refund (view b (st_state st)) = 0"
    "nonce_of (view b (st_state st)) ?a = nonce_of (view b s) ?a + 1" "nonce_of (view b s) ?a + 1 \<noteq> 0"
    "balance_of (view b (st_state st)) = (let f = (balance_of (view b s))(?a := balance_of (view b s) ?a - (?G * ?p + ?v)) in f(to := f to + ?v))"
    and sel: "st_gas st = ?G - TxGas" "st_gp st = gp - ?G" "st_msg st = msg" "st_gasPrice st = ?p" "st_initialGas st = ?G"
    and ap: "\<And>st'. st' = refundGas (state_ops b) st \<Longrightarrow> ApplyMessage (Run fuel env) env msg gp s =
       Ret (Inr ([], gasUsed st'), st_gp st', AddBalance b (st_state st') (Coinbase env) (gasUsed st' * st_gasPrice st'))"
    by (rule transfer_sent [OF assms(1-3) h(1) assms(5) h(2) assms(7,8) h(3) assms(10), of fuel], assumption) (rule that)
  have acc: "v_acct (view b (st_state st)) (m_From (st_msg st)) \<noteq> None"
    using t(3,4) sel(3) unfolding nonce_of_def [of "view b (st_state st)"] by (auto split: option.splits)
  define st3 where "st3 = refundGas (state_ops b) st"
  define s6 where "s6 = AddBalance b (st_state st3) (Coinbase env) (gasUsed st3 * st_gasPrice st3)"
  have le: "st_gas st \<le> st_initialGas st" using sel by (simp add: TxGas_def)
  note o = no_refund [OF t(1) acc t(2) le st3_def s6_def, unfolded sel]
  have "ApplyMessage (Run fuel env) env msg gp s = Ret (Inr ([], TxGas), gp - TxGas, s6)"
    using ap [OF st3_def] o(1,2) by (simp add: s6_def)
  moreover have "balance_of (view b s6) a = balance_of (view b s) a
       - (if a = ?a then ?v + TxGas * ?p else 0) + (if a = to then ?v else 0) + (if a = Coinbase env then TxGas * ?p else 0)" for a
    unfolding o(4) t(5) Let_def by (simp add: left_diff_distrib)
  ultimately show ?thesis using o(3) t(3) by (auto simp: reads_view)
qed

section \<open>Witnesses\<close>

text \<open>A transfer of 5 wei between two accounts, the sender of which has enough.\<close>

definition ex_rich :: "((bytes \<times> bytes) list, (bytes \<times> bytes) list) state_db" where
  "ex_rich = AddBalance ex_backend ex_state ex_addr 1000000"

definition ex_msg :: Message where
  "ex_msg = \<lparr>m_From = ex_addr, m_To = Some (replicate 20 9), m_GasPrice = 2, m_Gas = 50000, m_Value = 5, m_Nonce = 1,
     m_CheckNonce = True, m_Data = []\<rparr>"

lemma ex_rich_reads:
  "nonce_of (view ex_backend ex_rich) a = (if a = ex_addr then 1 else 0)"
  "balance_of (view ex_backend ex_rich) a = (if a = ex_addr then 1000000 else 0)"
  "code_of (view ex_backend ex_rich) a = []" "sd_refund ex_rich = 0" "state_ok ex_backend ex_rich"
proof -
  have ok: "evm_ok ex_backend ex_env ex_state" using ex_ok(1) ex_state_ok(1) by (simp add: evm_ok_def)
  note w = evm_okD(1) [OF ok]
  have w0: "wf_objects ex_backend (fresh_state [] [] [])" using ex_ok(2) by (simp add: state_ok_def)
  have f0: "code_of (view ex_backend (fresh_state [] [] [])) a = []"
    by (simp add: code_of_def fresh_state_view base_def load_def) (simp add: fresh_state_def ex_backend_def assoc_get_def)
  show "nonce_of (view ex_backend ex_rich) a = (if a = ex_addr then 1 else 0)"
    by (simp add: ex_rich_def read_effects [OF w] ex_state_ok(2))
  show "balance_of (view ex_backend ex_rich) a = (if a = ex_addr then 1000000 else 0)"
    using ex_balance by (simp add: ex_rich_def balance_effects [OF w] reads_view)
  show "code_of (view ex_backend ex_rich) a = []"
    using f0 by (simp add: ex_rich_def read_effects [OF w]) (simp add: ex_state_def read_effects [OF w0])
  show "sd_refund ex_rich = 0"
    using doesD(2) [OF does_SetNonce [OF w0, of ex_addr 1]]
    by (simp add: ex_rich_def refund_AddBalance [OF w]) (simp add: v_refund_view [of ex_backend, symmetric] ex_state_def fresh_state_view)
  show "state_ok ex_backend ex_rich"
    using AddBalance_keeps [OF ok, of 1000000 ex_addr] by (simp add: keeps_def evm_ok_def ex_rich_def)
qed

lemma ex_tx_ok: "tx_ok ex_backend ex_env ex_rich ex_msg"
  using ex_ok(1) ex_rich_reads by (simp add: tx_ok_def room_for_def ex_msg_def)

theorem transfer_transaction_witness:
  "\<exists>s'. ApplyMessage (Run 0 ex_env) ex_env ex_msg 100000 ex_rich = Ret (Inr ([], TxGas), 100000 - TxGas, s') \<and>
    fst (GetNonce ex_backend s' (m_From ex_msg)) = fst (GetNonce ex_backend ex_rich (m_From ex_msg)) + 1 \<and>
    (\<forall>a. fst (GetBalance ex_backend s' a) = fst (GetBalance ex_backend ex_rich a)
       - (if a = m_From ex_msg then m_Value ex_msg + TxGas * m_GasPrice ex_msg else 0)
       + (if a = replicate 20 9 then m_Value ex_msg else 0) + (if a = Coinbase ex_env then TxGas * m_GasPrice ex_msg else 0))"
proof -
  have "precompiled (replicate 20 9) = None" by code_simp
  then show ?thesis
    by (intro transfer_transaction [OF ex_tx_ok]) (use ex_rich_reads in \<open>simp_all add: ex_msg_def reads_view TxGas_def\<close>)
qed


lemma ex_rich_supply: "finite A \<Longrightarrow> (\<Sum>a\<in>A. fst (GetBalance ex_backend ex_rich a)) \<le> 1000000"
  by (simp add: reads_view ex_rich_reads(2))


end
