(* ===== verification/Core_Header.thy ===== *)
theory Core_Header
  imports VM_Params RLP_Encode
begin

text \<open>
  Block headers: their fields and hash (\<open>core/types/block.go\<close>), their validation and the rules for
  difficulty and gas limit (\<open>core/block_validator.go\<close>, \<open>core/dao.go\<close>), the uncles of a block, and the
  header that a miner starts from (\<open>miner/worker.go\<close>).
\<close>

section \<open>Headers and blocks\<close>

record Header =
  ParentHash :: hash
  UncleHash :: hash
  h_Coinbase :: address
  Root :: hash
  TxHash :: hash
  ReceiptHash :: hash
  h_Bloom :: bytes
  h_Difficulty :: int
  Number :: int
  h_GasLimit :: int
  GasUsed :: int
  h_Time :: int
  Extra :: bytes
  MixDigest :: hash
  h_Nonce :: bytes

definition header_gval :: "Header \<Rightarrow> gval" where
  "header_gval h =
     GPtr (GStruct [GByteArray (ParentHash h), GByteArray (UncleHash h), GByteArray (h_Coinbase h), GByteArray (Root h),
       GByteArray (TxHash h), GByteArray (ReceiptHash h), GByteArray (h_Bloom h), GBigIntPtr (h_Difficulty h),
       GBigIntPtr (Number h), GBigIntPtr (h_GasLimit h), GBigIntPtr (GasUsed h), GBigIntPtr (h_Time h), GBytes (Extra h),
       GByteArray (MixDigest h), GByteArray (h_Nonce h)])"

text \<open>\<open>rlp.Encode\<close> writes to the hash only if the encoding succeeds, and its error is ignored.\<close>

definition rlpHash :: "(bytes \<Rightarrow> hash) \<Rightarrow> gval \<Rightarrow> hash" where
  "rlpHash kec x = kec (case EncodeToBytes x \<lparr>str = [], lheads = [], lhsize = 0\<rparr> of Inl _ \<Rightarrow> [] | Inr b \<Rightarrow> b)"

definition header_Hash :: "(bytes \<Rightarrow> hash) \<Rightarrow> Header \<Rightarrow> hash" where
  "header_Hash kec h = rlpHash kec (header_gval h)"

record Block =
  b_header :: Header
  b_uncles :: "Header list"

definition block_Hash :: "(bytes \<Rightarrow> hash) \<Rightarrow> Block \<Rightarrow> hash" where
  "block_Hash kec b = rlpHash kec (header_gval (b_header b))"

section \<open>Difficulty and gas limit\<close>

named_theorems header_params

definition MaximumExtraDataSize :: int where [header_params]: "MaximumExtraDataSize = 32"
definition DifficultyBoundDivisor :: int where [header_params]: "DifficultyBoundDivisor = 2048"
definition DurationLimit :: int where [header_params]: "DurationLimit = 13"
definition MinimumDifficulty :: int where [header_params]: "MinimumDifficulty = 131072"
definition MinGasLimit :: int where [header_params]: "MinGasLimit = 5000"
definition GasLimitBoundDivisor :: int where [header_params]: "GasLimitBoundDivisor = 1024"
definition ExpDiffPeriod :: int where [header_params]: "ExpDiffPeriod = 100000"

definition calcDifficultyHomestead :: "u64 \<Rightarrow> u64 \<Rightarrow> int \<Rightarrow> int \<Rightarrow> int" where
  "calcDifficultyHomestead time parentTime parentNumber parentDiff =
     (let x = 1 - (uint time - uint parentTime) div 10;
          x = (if x < - 99 then - 99 else x);
          y = parentDiff div DifficultyBoundDivisor;
          x = parentDiff + y * x;
          x = (if x < MinimumDifficulty then MinimumDifficulty else x);
          periodCount = (parentNumber + 1) div ExpDiffPeriod
      in if periodCount > 1 then x + 2 ^ nat (periodCount - 2) else x)"

definition calcDifficultyFrontier :: "u64 \<Rightarrow> u64 \<Rightarrow> int \<Rightarrow> int \<Rightarrow> int" where
  "calcDifficultyFrontier time parentTime parentNumber parentDiff =
     (let adjust = parentDiff div DifficultyBoundDivisor;
          diff = (if uint time - uint parentTime < DurationLimit then parentDiff + adjust else parentDiff - adjust);
          diff = (if diff < MinimumDifficulty then MinimumDifficulty else diff);
          periodCount = (parentNumber + 1) div ExpDiffPeriod
      in if periodCount > 1 then BigMax (diff + 2 ^ nat (periodCount - 2)) MinimumDifficulty else diff)"

definition CalcDifficulty :: "ChainConfig \<Rightarrow> u64 \<Rightarrow> u64 \<Rightarrow> int \<Rightarrow> int \<Rightarrow> int" where
  "CalcDifficulty config time parentTime parentNumber parentDiff =
     (if IsHomestead config (Some (parentNumber + 1))
      then calcDifficultyHomestead time parentTime parentNumber parentDiff
      else calcDifficultyFrontier time parentTime parentNumber parentDiff)"

text \<open>The target is a variable that a command line flag sets.\<close>

definition CalcGasLimit :: "int \<Rightarrow> Header \<Rightarrow> int" where
  "CalcGasLimit TargetGasLimit parent =
     (let contrib = GasUsed parent * 3 div 2 div GasLimitBoundDivisor;
          decay = h_GasLimit parent div GasLimitBoundDivisor - 1;
          gl = BigMax (h_GasLimit parent - decay + contrib) MinGasLimit
      in if gl < TargetGasLimit then BigMin (h_GasLimit parent + decay) TargetGasLimit else gl)"

section \<open>Validation\<close>

datatype header_err =
    ExtraTooLong nat
  | BlockTSTooBigErr
  | BlockFutureErr
  | BlockEqualTSErr
  | DifficultyErr int int
  | GasLimitCheckErr int int
  | BlockNumberErr
  | BlockNonceErr int hash u64
  | DAOExtraErr bytes
  | ForkHashErr hash hash
  | ParentErr hash
  | TooManyUncles nat
  | UncleNotUnique nat hash
  | UncleIsAncestor nat hash
  | UncleParentErr nat hash hash
  | UncleHeaderErr nat hash header_err

definition DAOForkBlockExtra :: bytes where
  "DAOForkBlockExtra = [0x64, 0x61, 0x6f, 0x2d, 0x68, 0x61, 0x72, 0x64, 0x2d, 0x66, 0x6f, 0x72, 0x6b]"

definition DAOForkExtraRange :: int where
  "DAOForkExtraRange = 10"

definition ValidateDAOHeaderExtraData :: "ChainConfig \<Rightarrow> Header \<Rightarrow> header_err option" where
  "ValidateDAOHeaderExtraData config header =
     (case DAOForkBlock config of
        None \<Rightarrow> None
      | Some fork \<Rightarrow>
          (let limit = fork + DAOForkExtraRange in
           if Number header < fork \<or> Number header \<ge> limit then None
           else if DAOForkSupport config then
             (if Extra header \<noteq> DAOForkBlockExtra then Some (DAOExtraErr (Extra header)) else None)
           else (if Extra header = DAOForkBlockExtra then Some (DAOExtraErr (Extra header)) else None)))"

definition BlockNonce_Uint64 :: "bytes \<Rightarrow> u64" where
  "BlockNonce_Uint64 n = of_nat (be_nat n)"

definition MaxBig :: int where
  "MaxBig = 2 ^ 256 - 1"

text \<open>The clock, the hash function and the proof of work are parameters.\<close>

definition ValidateHeader ::
  "(bytes \<Rightarrow> hash) \<Rightarrow> (Header \<Rightarrow> bool) \<Rightarrow> int \<Rightarrow> ChainConfig \<Rightarrow> Header \<Rightarrow> Header \<Rightarrow> bool \<Rightarrow> bool \<Rightarrow> header_err option" where
  "ValidateHeader kec pow_Verify now config header parent checkPow uncle =
     (if int (length (Extra header)) > MaximumExtraDataSize then Some (ExtraTooLong (length (Extra header)))
      else if uncle \<and> h_Time header > MaxBig then Some BlockTSTooBigErr
      else if \<not> uncle \<and> h_Time header > now then Some BlockFutureErr
      else if \<not> h_Time header > h_Time parent then Some BlockEqualTSErr
      else
        (let expd = CalcDifficulty config (big_Uint64 (h_Time header)) (big_Uint64 (h_Time parent)) (Number parent) (h_Difficulty parent) in
         if expd \<noteq> h_Difficulty header then Some (DifficultyErr (h_Difficulty header) expd)
         else
           (let a = abs (h_GasLimit parent - h_GasLimit header);
                b = h_GasLimit parent div GasLimitBoundDivisor
            in if \<not> a < b \<or> h_GasLimit header < MinGasLimit then Some (GasLimitCheckErr (h_GasLimit header) b)
               else if Number header - Number parent \<noteq> 1 then Some BlockNumberErr
               else if checkPow \<and> \<not> pow_Verify header then
                 Some (BlockNonceErr (Number header) (header_Hash kec header) (BlockNonce_Uint64 (h_Nonce header)))
               else
                 (case ValidateDAOHeaderExtraData config header of
                    Some err \<Rightarrow> Some err
                  | None \<Rightarrow>
                      (if \<not> uncle \<and> EIP150Block config = Some (Number header) \<and>
                          EIP150Hash config \<noteq> replicate 32 0 \<and> EIP150Hash config \<noteq> header_Hash kec header
                       then Some (ForkHashErr (header_Hash kec header) (EIP150Hash config))
                       else None)))))"

text \<open>The method of the validator accepts headers that are already known.\<close>

definition v_ValidateHeader ::
  "(bytes \<Rightarrow> hash) \<Rightarrow> (Header \<Rightarrow> bool) \<Rightarrow> int \<Rightarrow> ChainConfig \<Rightarrow> (hash \<Rightarrow> bool) \<Rightarrow> Header \<Rightarrow> Header option \<Rightarrow> bool \<Rightarrow> header_err option" where
  "v_ValidateHeader kec pow_Verify now config bc_HasHeader header parent checkPow =
     (case parent of
        None \<Rightarrow> Some (ParentErr (ParentHash header))
      | Some parent \<Rightarrow>
          (if bc_HasHeader (header_Hash kec header) then None
           else ValidateHeader kec pow_Verify now config header parent checkPow False))"

section \<open>Uncles\<close>

primrec blocks_from :: "(hash \<Rightarrow> u64 \<Rightarrow> Block option) \<Rightarrow> hash \<Rightarrow> u64 \<Rightarrow> nat \<Rightarrow> Block list" where
  "blocks_from GetBlock h number 0 = []"
| "blocks_from GetBlock h number (Suc n) =
     (case GetBlock h number of
        None \<Rightarrow> []
      | Some block \<Rightarrow> block # blocks_from GetBlock (ParentHash (b_header block)) (number - 1) n)"

definition GetBlocksFromHash :: "(hash \<Rightarrow> u64) \<Rightarrow> (hash \<Rightarrow> u64 \<Rightarrow> Block option) \<Rightarrow> hash \<Rightarrow> nat \<Rightarrow> Block list" where
  "GetBlocksFromHash GetBlockNumber GetBlock h n = blocks_from GetBlock h (GetBlockNumber h) n"

definition ancestor_sets :: "(bytes \<Rightarrow> hash) \<Rightarrow> Block list \<Rightarrow> Block \<Rightarrow> (hash \<rightharpoonup> Block) \<times> hash set" where
  "ancestor_sets kec blocks block =
     (let (ancestors, uncles) =
            fold (\<lambda>ancestor (ancestors, uncles).
                    (ancestors(block_Hash kec ancestor \<mapsto> ancestor),
                     fold (\<lambda>uncle uncles. insert (header_Hash kec uncle) uncles) (b_uncles ancestor) uncles))
              blocks (Map.empty, {})
      in (ancestors(block_Hash kec block \<mapsto> block), insert (block_Hash kec block) uncles))"

fun verify_uncles ::
  "(bytes \<Rightarrow> hash) \<Rightarrow> (Header \<Rightarrow> Header \<Rightarrow> header_err option) \<Rightarrow> (hash \<rightharpoonup> Block) \<Rightarrow> hash \<Rightarrow> nat \<Rightarrow> Header list \<Rightarrow> hash set \<Rightarrow> header_err option" where
  "verify_uncles kec validate ancestors parentHash i [] uncles = None"
| "verify_uncles kec validate ancestors parentHash i (uncle # rest) uncles =
     (let h = header_Hash kec uncle in
      if h \<in> uncles then Some (UncleNotUnique i h)
      else if ancestors h \<noteq> None then Some (UncleIsAncestor i h)
      else
        (case ancestors (ParentHash uncle) of
           None \<Rightarrow> Some (UncleParentErr i h (ParentHash uncle))
         | Some anc \<Rightarrow>
             (if ParentHash uncle = parentHash then Some (UncleParentErr i h (ParentHash uncle))
              else
                (case validate uncle (b_header anc) of
                   Some err \<Rightarrow> Some (UncleHeaderErr i h err)
                 | None \<Rightarrow> verify_uncles kec validate ancestors parentHash (Suc i) rest (insert h uncles)))))"

definition VerifyUncles ::
  "(bytes \<Rightarrow> hash) \<Rightarrow> (Header \<Rightarrow> bool) \<Rightarrow> int \<Rightarrow> ChainConfig \<Rightarrow> (hash \<Rightarrow> u64) \<Rightarrow> (hash \<Rightarrow> u64 \<Rightarrow> Block option) \<Rightarrow>
   Block \<Rightarrow> Block \<Rightarrow> header_err option" where
  "VerifyUncles kec pow_Verify now config GetBlockNumber GetBlock block parent =
     (if length (b_uncles block) > 2 then Some (TooManyUncles (length (b_uncles block)))
      else
        (let (ancestors, uncles) =
               ancestor_sets kec (GetBlocksFromHash GetBlockNumber GetBlock (ParentHash (b_header block)) 7) block
         in verify_uncles kec (\<lambda>uncle anc. ValidateHeader kec pow_Verify now config uncle anc True True) ancestors
              (block_Hash kec parent) 0 (b_uncles block) uncles))"

section \<open>The header of a new block\<close>

text \<open>
  The first part of \<open>commitNewWork\<close>: the header that is mined on top of the current block. Its time is
  an \<open>int64\<close>, and it is later than the parent even if the clock is not.
\<close>

definition work_time :: "int \<Rightarrow> Header \<Rightarrow> int" where
  "work_time tstart parent = (if h_Time parent \<ge> tstart then sint (word_of_int (big_Int64 (h_Time parent) + 1) :: u64) else tstart)"

definition work_header :: "(bytes \<Rightarrow> hash) \<Rightarrow> ChainConfig \<Rightarrow> int \<Rightarrow> address \<Rightarrow> bytes \<Rightarrow> int \<Rightarrow> Header \<Rightarrow> Header" where
  "work_header kec config TargetGasLimit coinbase extra tstart parent =
     (let tstamp = work_time tstart parent;
          header = \<lparr>ParentHash = header_Hash kec parent, UncleHash = replicate 32 0, h_Coinbase = coinbase, Root = replicate 32 0,
            TxHash = replicate 32 0, ReceiptHash = replicate 32 0, h_Bloom = replicate 256 0,
            h_Difficulty = CalcDifficulty config (word_of_int tstamp) (big_Uint64 (h_Time parent)) (Number parent) (h_Difficulty parent),
            Number = Number parent + 1, h_GasLimit = CalcGasLimit TargetGasLimit parent, GasUsed = 0,
            h_Time = tstamp, Extra = extra, MixDigest = replicate 32 0, h_Nonce = replicate 8 0\<rparr>
      in case DAOForkBlock config of
           None \<Rightarrow> header
         | Some daoBlock \<Rightarrow>
             (let limit = daoBlock + DAOForkExtraRange in
              if Number header \<ge> daoBlock \<and> Number header < limit then
                (if DAOForkSupport config then header\<lparr>Extra := DAOForkBlockExtra\<rparr>
                 else if Extra header = DAOForkBlockExtra then header\<lparr>Extra := []\<rparr>
                 else header)
              else header))"

section \<open>Bounds\<close>

definition bomb :: "int \<Rightarrow> int" where
  "bomb number = (if (number + 1) div ExpDiffPeriod > 1 then 2 ^ nat ((number + 1) div ExpDiffPeriod - 2) else 0)"

lemma bomb_nonneg: "0 \<le> bomb n"
  by (simp add: bomb_def)

lemma difficulty_bounds:
  assumes "MinimumDifficulty \<le> d" "- 99 \<le> x" "x \<le> 1" "D = max (d + d div 2048 * x) MinimumDifficulty + bomb n"
  shows "MinimumDifficulty \<le> D" "d - d div 2048 * 99 \<le> D" "D \<le> d + d div 2048 + bomb n"
proof -
  have y: "0 \<le> d div 2048" using assms(1) by (simp add: header_params)
  have "d div 2048 * - 99 \<le> d div 2048 * x" "d div 2048 * x \<le> d div 2048 * 1"
    using mult_left_mono [OF assms(2) y] mult_left_mono [OF assms(3) y] by simp_all
  then show "MinimumDifficulty \<le> D" "d - d div 2048 * 99 \<le> D" "D \<le> d + d div 2048 + bomb n"
    using assms(1,4) y bomb_nonneg [of n] by auto
qed

lemma frontier_max:
  "calcDifficultyFrontier t u n d =
   max (d + d div 2048 * (if uint t - uint u < DurationLimit then 1 else - 1)) MinimumDifficulty + bomb n"
proof -
  have "BigMax (m + 2 ^ k) MinimumDifficulty = m + 2 ^ k" if "MinimumDifficulty \<le> m" for m :: int and k
    using that by (simp add: BigMax_def) (smt (verit) zero_less_power)
  then show ?thesis
    by (auto simp: calcDifficultyFrontier_def Let_def bomb_def max_def DifficultyBoundDivisor_def)
qed

lemma homestead_max:
  "calcDifficultyHomestead t u n d = max (d + d div 2048 * max (1 - (uint t - uint u) div 10) (- 99)) MinimumDifficulty + bomb n"
  by (auto simp: calcDifficultyHomestead_def bomb_def Let_def DifficultyBoundDivisor_def max_def)

text \<open>
  C17: the difficulty of a block is never below the minimum and differs from that of the parent by
  bounded amounts: it falls by at most 99 parts in 2048, and rises by at most one part in 2048 and the
  exponential term of its period.
\<close>

theorem CalcDifficulty_bounds:
  assumes "MinimumDifficulty \<le> parentDiff" "uint parentTime \<le> uint time"
  shows "MinimumDifficulty \<le> CalcDifficulty config time parentTime parentNumber parentDiff \<and>
    parentDiff - parentDiff div 2048 * 99 \<le> CalcDifficulty config time parentTime parentNumber parentDiff \<and>
    CalcDifficulty config time parentTime parentNumber parentDiff \<le>
      parentDiff + parentDiff div 2048 + (let p = (parentNumber + 1) div 100000 in if p > 1 then 2 ^ nat (p - 2) else 0)"
proof -
  have x: "- 99 \<le> max (1 - (uint time - uint parentTime) div 10) (- 99)" "max (1 - (uint time - uint parentTime) div 10) (- 99) \<le> 1"
    "- 99 \<le> (if uint time - uint parentTime < DurationLimit then 1 else - 1 :: int)"
    "(if uint time - uint parentTime < DurationLimit then 1 else - 1 :: int) \<le> 1" using assms(2) by auto
  show ?thesis
    using difficulty_bounds [OF assms(1) x(1,2) homestead_max, of parentNumber] difficulty_bounds [OF assms(1) x(3,4) frontier_max, of parentNumber]
    unfolding CalcDifficulty_def bomb_def ExpDiffPeriod_def Let_def by simp
qed

lemma contrib_bound:
  fixes u g :: int
  assumes "0 \<le> u" "u \<le> g" "5120 \<le> g"
  shows "u * 3 div 2 div 1024 < 2 * (g div 1024) - 1"
proof -
  define q c where "q = g div 1024" and "c = u * 3 div 2 div 1024"
  have "5 \<le> q" "g \<le> 1024 * q + 1023" using assms(3) by (simp_all add: q_def)
  moreover have "1024 * c \<le> u * 3 div 2" "2 * (u * 3 div 2) \<le> u * 3" by (simp_all add: c_def)
  ultimately have "c < 2 * q - 1" using assms(2) by linarith
  then show ?thesis by (simp add: q_def c_def)
qed

lemma CalcGasLimit_ok:
  assumes "5120 \<le> h_GasLimit p \<or> CalcGasLimit T p < T" "MinGasLimit \<le> h_GasLimit p" "0 \<le> GasUsed p" "GasUsed p \<le> h_GasLimit p"
  shows "abs (h_GasLimit p - CalcGasLimit T p) < h_GasLimit p div GasLimitBoundDivisor" "MinGasLimit \<le> CalcGasLimit T p"
proof -
  define g q c where "g = h_GasLimit p" and "q = g div 1024" and "c = GasUsed p * 3 div 2 div 1024"
  have q: "4 \<le> q" using assms(2) by (simp add: q_def g_def header_params)
  have c: "0 \<le> c" using assms(3) by (simp add: c_def)
  define m where "m = max (g - (q - 1) + c) 5000"
  have l: "CalcGasLimit T p = (if m < T then min (g + (q - 1)) T else m)"
    by (auto simp: CalcGasLimit_def Let_def BigMax_def BigMin_def header_params m_def max_def min_def g_def q_def c_def)
  have g: "5000 \<le> g" using assms(2) by (simp add: g_def header_params)
  have "c < 2 * q - 1" if "5120 \<le> g" using contrib_bound [OF assms(3,4)] that by (simp add: g_def q_def c_def)
  then have "abs (g - CalcGasLimit T p) < q \<and> 5000 \<le> CalcGasLimit T p"
    using assms(1) c g q unfolding l g_def [symmetric] by (auto simp: m_def split: if_splits)
  then show "abs (h_GasLimit p - CalcGasLimit T p) < h_GasLimit p div GasLimitBoundDivisor" "MinGasLimit \<le> CalcGasLimit T p"
    by (simp_all add: g_def q_def header_params)
qed

text \<open>
  C14: the header that a miner starts from passes validation on top of its parent, whichever side of
  the hard fork the node is on, provided that the parent's gas limit is at least 5120 or the target is
  not reached, and the clock of the validator has passed the time of the header.
\<close>

theorem work_header_valid:
  assumes "MinGasLimit \<le> h_GasLimit parent" "0 \<le> GasUsed parent" "GasUsed parent \<le> h_GasLimit parent"
    and "5120 \<le> h_GasLimit parent \<or> CalcGasLimit target parent < target"
    and "0 \<le> h_Time parent" "h_Time parent < 2 ^ 63 - 1" "0 \<le> tstart" "tstart \<le> now" "h_Time parent < now"
    and "length extra \<le> 32" "EIP150Block config \<noteq> Some (Number parent + 1) \<or> EIP150Hash config = replicate 32 0"
  shows "ValidateHeader kec pow_Verify now config (work_header kec config target coinbase extra tstart parent) parent False False = None"
proof -
  let ?h = "work_header kec config target coinbase extra tstart parent"
  have t: "work_time tstart parent > h_Time parent" "work_time tstart parent \<le> now" "0 \<le> work_time tstart parent"
  proof -
    have "big_Int64 (h_Time parent) = h_Time parent" using assms(5,6) by (intro big_Int64_id) simp_all
    moreover have "sint (word_of_int (h_Time parent + 1) :: u64) = h_Time parent + 1"
      using big_Int64_id [of "h_Time parent + 1"] assms(5,6) by (simp add: big_Int64_def)
    ultimately show "work_time tstart parent > h_Time parent" "work_time tstart parent \<le> now" "0 \<le> work_time tstart parent"
      using assms(5,7-9) by (auto simp: work_time_def)
  qed
  have f: "h_Time ?h = work_time tstart parent" "Number ?h = Number parent + 1" "h_GasLimit ?h = CalcGasLimit target parent"
    "h_Difficulty ?h = CalcDifficulty config (word_of_int (work_time tstart parent)) (big_Uint64 (h_Time parent)) (Number parent) (h_Difficulty parent)"
    by (auto simp: work_header_def Let_def split: option.split)
  have "ValidateDAOHeaderExtraData config ?h = None"
    by (auto simp: ValidateDAOHeaderExtraData_def work_header_def Let_def DAOForkBlockExtra_def split: option.split)
  moreover have "length (Extra ?h) \<le> 32"
    using assms(10) by (auto simp: work_header_def Let_def DAOForkBlockExtra_def split: option.split)
  moreover have "big_Uint64 (h_Time ?h) = word_of_int (work_time tstart parent)" using t(3) by (simp add: f(1) big_Uint64_def)
  ultimately show ?thesis
    using t assms(11) CalcGasLimit_ok [OF assms(4,1-3)]
    by (simp add: ValidateHeader_def f MaximumExtraDataSize_def Let_def)
qed

definition ex_parent :: Header where
  "ex_parent = \<lparr>ParentHash = replicate 32 0, UncleHash = replicate 32 0, h_Coinbase = replicate 20 0, Root = replicate 32 0,
     TxHash = replicate 32 0, ReceiptHash = replicate 32 0, h_Bloom = replicate 256 0, h_Difficulty = 131072, Number = 1919999,
     h_GasLimit = 4712388, GasUsed = 21000, h_Time = 100, Extra = [], MixDigest = replicate 32 0, h_Nonce = replicate 8 0\<rparr>"

definition ex_fork :: ChainConfig where
  "ex_fork = \<lparr>ChainId = 1, HomesteadBlock = Some 1150000, DAOForkBlock = Some 1920000, DAOForkSupport = True,
     EIP150Block = Some 2463000, EIP150Hash = replicate 32 1, EIP155Block = Some 2675000, EIP158Block = Some 2675000\<rparr>"

theorem work_header_valid_witness:
  "ValidateHeader (\<lambda>x. x) (\<lambda>_. False) 200 ex_fork (work_header (\<lambda>x. x) ex_fork 4712388 (replicate 20 0) [1] 150 ex_parent) ex_parent False False = None"
  by (rule work_header_valid) (simp_all add: ex_parent_def ex_fork_def MinGasLimit_def)

theorem CalcDifficulty_bounds_witness:
  "MinimumDifficulty \<le> CalcDifficulty ex_fork 150 100 1919999 131072 \<and>
    131072 - 131072 div 2048 * 99 \<le> CalcDifficulty ex_fork 150 100 1919999 131072 \<and>
    CalcDifficulty ex_fork 150 100 1919999 131072 \<le>
      131072 + 131072 div 2048 + (let p = (1919999 + 1) div 100000 in if p > 1 then 2 ^ nat (p - 2) else (0 :: int))"
  by (rule CalcDifficulty_bounds) (simp_all add: MinimumDifficulty_def)

text \<open>
  At the minimum of 5000 a parent whose gas is used up gives a gas limit that validation rejects,
  once the target is reached.
\<close>

lemma CalcGasLimit_rejected:
  assumes "h_GasLimit parent = 5000" "GasUsed parent = 5000" "target \<le> 5004" "h_GasLimit header = CalcGasLimit target parent"
    and "h_Time header \<le> now" "h_Time header > h_Time parent" "length (Extra header) \<le> 32"
    and "h_Difficulty header = CalcDifficulty config (big_Uint64 (h_Time header)) (big_Uint64 (h_Time parent)) (Number parent) (h_Difficulty parent)"
  shows "ValidateHeader kec pow_Verify now config header parent checkPow False = Some (GasLimitCheckErr 5004 4)"
  using assms by (simp add: ValidateHeader_def Let_def CalcGasLimit_def header_params BigMax_def)

lemma CalcGasLimit_rejected_example:
  "ValidateHeader (\<lambda>x. x) (\<lambda>_. False) 200 ex_fork
     (ex_parent\<lparr>h_Time := 150, h_GasLimit := CalcGasLimit 5000 (ex_parent\<lparr>h_GasLimit := 5000, GasUsed := 5000\<rparr>),
        h_Difficulty := CalcDifficulty ex_fork 150 100 1919999 131072\<rparr>)
     (ex_parent\<lparr>h_GasLimit := 5000, GasUsed := 5000\<rparr>) False False = Some (GasLimitCheckErr 5004 4)"
  by (rule CalcGasLimit_rejected) (simp_all add: ex_parent_def CalcGasLimit_def big_Uint64_def)

section \<open>Uncles of a valid block\<close>

lemma fold_insert: "fold (\<lambda>u us. insert (f u) us) xs A = f ` set xs \<union> A"
  by (induction xs arbitrary: A) auto

lemma ancestor_fold:
  "fold (\<lambda>ancestor (ancestors, uncles).
       (ancestors(block_Hash kec ancestor \<mapsto> ancestor),
        fold (\<lambda>uncle uncles. insert (header_Hash kec uncle) uncles) (b_uncles ancestor) uncles)) blocks (m, us) =
   (m ++ map_of (rev (map (\<lambda>b. (block_Hash kec b, b)) blocks)), us \<union> (\<Union>b \<in> set blocks. header_Hash kec ` set (b_uncles b)))"
  by (induction blocks arbitrary: m us) (auto simp: fold_insert)

lemma ancestor_sets_eq:
  assumes "ancestor_sets kec blocks block = (anc, us)"
  shows "us = insert (block_Hash kec block) (\<Union>b \<in> set blocks. header_Hash kec ` set (b_uncles b))"
    "anc h = None \<longleftrightarrow> h \<notin> block_Hash kec ` insert block (set blocks)"
    "anc h = Some b \<Longrightarrow> b \<in> insert block (set blocks) \<and> block_Hash kec b = h"
proof -
  have e: "anc = (map_of (rev (map (\<lambda>b. (block_Hash kec b, b)) blocks)))(block_Hash kec block \<mapsto> block)"
    "us = insert (block_Hash kec block) (\<Union>b \<in> set blocks. header_Hash kec ` set (b_uncles b))"
    using assms by (auto simp: ancestor_sets_def ancestor_fold)
  show "us = insert (block_Hash kec block) (\<Union>b \<in> set blocks. header_Hash kec ` set (b_uncles b))" by (rule e)
  show "anc h = None \<longleftrightarrow> h \<notin> block_Hash kec ` insert block (set blocks)"
    by (auto simp: e map_of_eq_None_iff image_iff)
  show "anc h = Some b \<Longrightarrow> b \<in> insert block (set blocks) \<and> block_Hash kec b = h"
    by (auto simp: e split: if_splits dest!: map_of_SomeD)
qed

lemma verify_uncles_None:
  assumes "verify_uncles kec validate anc ph i us seen = None"
  shows "distinct (map (header_Hash kec) us) \<and> (\<forall>u \<in> set us. header_Hash kec u \<notin> seen \<and> anc (header_Hash kec u) = None \<and>
    ParentHash u \<noteq> ph \<and> (\<exists>a. anc (ParentHash u) = Some a \<and> validate u (b_header a) = None))"
  using assms
proof (induction us arbitrary: i seen)
  case (Cons u us)
  let ?h = "header_Hash kec u"
  obtain a where h: "?h \<notin> seen" "anc ?h = None" "anc (ParentHash u) = Some a" "ParentHash u \<noteq> ph" "validate u (b_header a) = None"
    "verify_uncles kec validate anc ph (Suc i) us (insert ?h seen) = None"
    using Cons.prems by (auto simp: Let_def split: if_splits option.splits)
  note ih = Cons.IH [OF h(6)]
  have "?h \<notin> header_Hash kec ` set us" using ih by auto
  then show ?case using h(1-5) ih by simp
qed simp


text \<open>A chain of three blocks, the last of which includes a sibling of its parent.\<close>

definition ex_kec :: "bytes \<Rightarrow> hash" where
  "ex_kec x = [x ! 2 + 1, x ! 5]"

definition ex_header :: "byte \<Rightarrow> byte \<Rightarrow> Header" where
  "ex_header n c = \<lparr>ParentHash = [n, 0], UncleHash = [], h_Coinbase = [c], Root = [], TxHash = [], ReceiptHash = [], h_Bloom = [],
     h_Difficulty = 131072, Number = int (unat n), h_GasLimit = 5120, GasUsed = 0, h_Time = 100 * int (unat n), Extra = [],
     MixDigest = [], h_Nonce = []\<rparr>"

definition ex_block :: Block where
  "ex_block = \<lparr>b_header = ex_header 2 0, b_uncles = [ex_header 1 5]\<rparr>"

definition ex_GetBlock :: "hash \<Rightarrow> u64 \<Rightarrow> Block option" where
  "ex_GetBlock h n =
     (if h = [2, 0] then Some \<lparr>b_header = ex_header 1 0, b_uncles = []\<rparr>
      else if h = [1, 0] then Some \<lparr>b_header = ex_header 0 0, b_uncles = []\<rparr> else None)"

lemmas enc_eval = header_gval_def ex_header_def enc_string_def enc_list_def enc_head_def string_kind_def puthead_def bigBytes.simps

lemma ex_hash:
  "header_Hash ex_kec (ex_header 0 0) = [1, 0]" "header_Hash ex_kec (ex_header 1 0) = [2, 0]"
  "header_Hash ex_kec (ex_header 2 0) = [3, 0]" "header_Hash ex_kec (ex_header 1 5) = [2, 5]"
  unfolding header_Hash_def rlpHash_def
  by (subst EncodeToBytes_enc_gval; simp add: enc_eval ex_kec_def)+

lemma ex_uncle_valid: "ValidateHeader ex_kec (\<lambda>_. True) 200 ex_fork (ex_header 1 5) (ex_header 0 0) True True = None"
  by (simp add: ValidateHeader_def ex_hash ex_header_def header_params MaxBig_def ValidateDAOHeaderExtraData_def ex_fork_def Let_def
      CalcDifficulty_def IsHomestead_def calcDifficultyFrontier_def big_Uint64_def)

lemma ex_ancestors:
  "GetBlocksFromHash (\<lambda>_. 1) ex_GetBlock [2, 0] 7 =
  [\<lparr>b_header = ex_header 1 0, b_uncles = []\<rparr>, \<lparr>b_header = ex_header 0 0, b_uncles = []\<rparr>]"
  by (simp add: GetBlocksFromHash_def ex_GetBlock_def eval_nat_numeral) (simp add: ex_header_def)

lemma ex_verified:
  "VerifyUncles ex_kec (\<lambda>_. True) 200 ex_fork (\<lambda>_. 1) ex_GetBlock ex_block \<lparr>b_header = ex_header 1 0, b_uncles = []\<rparr> = None"
proof -
  have p: "ParentHash (ex_header n c) = [n, 0]" for n c by (simp add: ex_header_def)
  have h: "block_Hash ex_kec b = header_Hash ex_kec (b_header b)" for b by (simp add: block_Hash_def header_Hash_def)
  show ?thesis
    by (simp add: VerifyUncles_def ex_block_def p ex_ancestors ancestor_sets_def h ex_hash ex_uncle_valid Let_def)
qed


end
