(* ===== verification/Log_Filter.thy ===== *)
theory Log_Filter
  imports Core_Header VM_Machine
begin

text \<open>
  Bloom filters of logs (\<open>core/types/bloom9.go\<close>) and the search for logs (\<open>eth/filters/filter.go\<close>): the
  bloom of a block's header tells whether its receipts need to be read. The Keccak hash and the backend
  that delivers headers and receipts are parameters.
\<close>

unbundle bit_operations_syntax

section \<open>Bloom filters\<close>

type_synonym Bloom = bytes

definition bloomLength :: nat where
  "bloomLength = 256"

definition Bloom_SetBytes :: "Bloom \<Rightarrow> bytes \<Rightarrow> Bloom option" where
  "Bloom_SetBytes b d = (if length b < length d then None else Some (take (bloomLength - length d) b @ d))"

definition BytesToBloom :: "bytes \<Rightarrow> Bloom option" where
  "BytesToBloom b = Bloom_SetBytes (replicate bloomLength 0) b"

definition bloom9_bit :: "hash \<Rightarrow> nat \<Rightarrow> nat" where
  "bloom9_bit b i = unat ((ucast (b ! (i + 1)) + push_bit 8 (ucast (b ! i))) AND 2047 :: u64)"

definition bloom9 :: "(bytes \<Rightarrow> hash) \<Rightarrow> bytes \<Rightarrow> int" where
  "bloom9 kec b = (let b = kec b in fold (\<lambda>i r. r OR push_bit (bloom9_bit b i) 1) [0, 2, 4] 0)"

definition LogsBloom :: "(bytes \<Rightarrow> hash) \<Rightarrow> Log list \<Rightarrow> int" where
  "LogsBloom kec logs =
     fold (\<lambda>log bin. fold (\<lambda>b bin. bin OR bloom9 kec b) (l_Topics log) (bin OR bloom9 kec (l_Address log))) logs 0"

record Receipt =
  r_PostState :: bytes
  r_CumulativeGasUsed :: int
  r_Bloom :: Bloom
  r_Logs :: "Log list"
  r_TxHash :: hash
  r_ContractAddress :: address
  r_GasUsed :: int

definition CreateBloom :: "(bytes \<Rightarrow> hash) \<Rightarrow> Receipt list \<Rightarrow> Bloom option" where
  "CreateBloom kec receipts =
     (let bin = fold (\<lambda>receipt bin. bin OR LogsBloom kec (r_Logs receipt)) receipts 0 in BytesToBloom (big_Bytes bin))"

definition BloomLookup :: "(bytes \<Rightarrow> hash) \<Rightarrow> Bloom \<Rightarrow> bytes \<Rightarrow> bool" where
  "BloomLookup kec bin topic = (let bloom = BytesToBig bin; cmp = bloom9 kec topic in bloom AND cmp = cmp)"

definition Bloom_Add :: "(bytes \<Rightarrow> hash) \<Rightarrow> Bloom \<Rightarrow> int \<Rightarrow> Bloom option" where
  "Bloom_Add kec b d = (let bin = BytesToBig b OR bloom9 kec (big_Bytes d) in Bloom_SetBytes b (big_Bytes bin))"

definition Bloom_Test :: "(bytes \<Rightarrow> hash) \<Rightarrow> Bloom \<Rightarrow> int \<Rightarrow> bool" where
  "Bloom_Test kec b test = BloomLookup kec b (big_Bytes test)"

definition Bloom_TestBytes :: "(bytes \<Rightarrow> hash) \<Rightarrow> Bloom \<Rightarrow> bytes \<Rightarrow> bool" where
  "Bloom_TestBytes kec b test = Bloom_Test kec b (BytesToBig test)"

section \<open>Filtering logs\<close>

definition includes_addr :: "address list \<Rightarrow> address \<Rightarrow> bool" where
  "includes_addr addresses a = list_ex (\<lambda>addr. addr = a) addresses"

definition topics_match :: "hash list list \<Rightarrow> Log \<Rightarrow> bool" where
  "topics_match topics log =
     list_all (\<lambda>(i, sub). list_ex (\<lambda>topic. topic = replicate 32 0 \<or> l_Topics log ! i = topic) sub) (enumerate 0 topics)"

definition filterLogs :: "Log list \<Rightarrow> int option \<Rightarrow> int option \<Rightarrow> address list \<Rightarrow> hash list list \<Rightarrow> Log list" where
  "filterLogs logs fromBlock toBlock addresses topics =
     filter (\<lambda>log.
       \<not> (case fromBlock of None \<Rightarrow> False | Some x \<Rightarrow> big_Int64 x \<ge> 0 \<and> big_Uint64 x > l_BlockNumber log) \<and>
       \<not> (case toBlock of None \<Rightarrow> False | Some x \<Rightarrow> big_Int64 x \<ge> 0 \<and> big_Uint64 x < l_BlockNumber log) \<and>
       \<not> (length addresses > 0 \<and> \<not> includes_addr addresses (l_Address log)) \<and>
       \<not> length topics > length (l_Topics log) \<and>
       topics_match topics log) logs"

definition bloomFilter :: "(bytes \<Rightarrow> hash) \<Rightarrow> Bloom \<Rightarrow> address list \<Rightarrow> hash list list \<Rightarrow> bool" where
  "bloomFilter kec bloom addresses topics =
     ((length addresses > 0 \<longrightarrow> list_ex (\<lambda>addr. BloomLookup kec bloom addr) addresses) \<and>
      list_all (\<lambda>sub. list_ex (\<lambda>topic. topic = replicate 32 0 \<or> BloomLookup kec bloom topic) sub) topics)"

text \<open>
  The backend finds headers by number, an \<open>int64\<close> of which the negative values name special blocks, and
  receipts by block hash.
\<close>

record 'e LogBackend =
  HeaderByNumber :: "int \<Rightarrow> Header option \<times> 'e option"
  GetReceipts :: "hash \<Rightarrow> 'e + Receipt list"

fun getLogs ::
  "nat \<Rightarrow> (bytes \<Rightarrow> hash) \<Rightarrow> 'e LogBackend \<Rightarrow> address list \<Rightarrow> hash list list \<Rightarrow> u64 \<Rightarrow> u64 \<Rightarrow> (Log list \<times> u64 \<times> 'e option) exec" where
  "getLogs 0 kec be addresses topics i stop = NoFuel"
| "getLogs (Suc fuel) kec be addresses topics i stop =
     (if i \<le> stop then
        (case HeaderByNumber be (sint i) of
           (Some header, None) \<Rightarrow>
             (if bloomFilter kec (h_Bloom header) addresses topics then
                (case GetReceipts be (header_Hash kec header) of
                   Inl err \<Rightarrow> Ret ([], stop, Some err)
                 | Inr receipts \<Rightarrow>
                     (let unfiltered = concat (map r_Logs receipts);
                          logs = filterLogs unfiltered None None addresses topics
                      in if length logs > 0 then Ret (logs, i, None)
                         else getLogs fuel kec be addresses topics (i + 1) stop))
              else getLogs fuel kec be addresses topics (i + 1) stop)
         | (_, err) \<Rightarrow> Ret ([], stop, err))
      else Ret ([], stop, None))"

section \<open>No log is missed\<close>

lemma bloom9_bit_less: "bloom9_bit b i < 2048"
proof -
  have "x AND 2047 = take_bit 11 x" for x :: u64 by (simp add: take_bit_eq_mask mask_eq_exp_minus_1)
  then show ?thesis by (simp add: bloom9_bit_def unsigned_take_bit_eq) (simp add: take_bit_nat_eq_self_iff take_bit_nat_less_exp [of 11, simplified])
qed

definition bits_below :: "nat \<Rightarrow> int \<Rightarrow> bool" where
  "bits_below n x \<longleftrightarrow> 0 \<le> x \<and> x < 2 ^ n"

lemma bits_below_or: "bits_below n x \<Longrightarrow> bits_below n y \<Longrightarrow> bits_below n (x OR y)"
  by (simp add: bits_below_def OR_upper)

lemma bits_below_fold: "bits_below n a \<Longrightarrow> (\<And>x. x \<in> set xs \<Longrightarrow> bits_below n (f x)) \<Longrightarrow> bits_below n (fold (\<lambda>x r. r OR f x) xs a)"
  by (induction xs arbitrary: a) (auto intro: bits_below_or)

lemma bits_below_bit: "k < n \<Longrightarrow> bits_below n (push_bit k 1)"
  by (simp add: bits_below_def push_bit_eq_mult power_strict_increasing)

lemma bloom9_below: "bits_below 2048 (bloom9 kec b)"
proof -
  have "bits_below 2048 0" unfolding bits_below_def by (intro conjI order_refl zero_less_power) simp
  then show ?thesis unfolding bloom9_def Let_def by (rule bits_below_fold) (rule bits_below_bit [OF bloom9_bit_less])
qed

text \<open>The bits of a number are included in those of another.\<close>

definition sub_bits :: "int \<Rightarrow> int \<Rightarrow> bool" where
  "sub_bits x y \<longleftrightarrow> y AND x = x"

lemma sub_bits_iff: "sub_bits x y \<longleftrightarrow> (\<forall>n. bit x n \<longrightarrow> bit y n)"
  by (auto simp: sub_bits_def bit_eq_iff bit_and_iff)

lemma sub_bits_fold: "sub_bits x a \<or> (\<exists>y \<in> set xs. sub_bits x (f y)) \<Longrightarrow> sub_bits x (fold (\<lambda>y r. r OR f y) xs a)"
proof (induction xs arbitrary: a)
  case (Cons y ys)
  have "sub_bits x a \<or> sub_bits x (f y) \<Longrightarrow> sub_bits x (a OR f y)" by (auto simp: sub_bits_iff bit_or_iff)
  then show ?case using Cons by auto
qed simp

lemma fold_or_start: "fold (\<lambda>y r. r OR f y) xs (a OR b) = a OR fold (\<lambda>y r. r OR f y) xs (b :: int)"
  by (induction xs arbitrary: a b) (simp_all add: or.assoc)

text \<open>The bloom of one log.\<close>

definition log_bloom :: "(bytes \<Rightarrow> hash) \<Rightarrow> Log \<Rightarrow> int" where
  "log_bloom kec log = fold (\<lambda>b bin. bin OR bloom9 kec b) (l_Topics log) (bloom9 kec (l_Address log))"

lemma LogsBloom_fold: "LogsBloom kec logs = fold (\<lambda>log bin. bin OR log_bloom kec log) logs 0"
  unfolding LogsBloom_def log_bloom_def fold_or_start ..

lemma log_bloom_below: "bits_below 2048 (log_bloom kec log)"
  unfolding log_bloom_def by (rule bits_below_fold) (rule bloom9_below)+

lemma bits_below_0: "bits_below n 0"
  by (simp add: bits_below_def)

lemma receipts_bloom:
  fixes kec receipts
  defines "bin \<equiv> fold (\<lambda>receipt bin. bin OR LogsBloom kec (r_Logs receipt)) receipts 0"
  shows "bits_below 2048 bin" "r \<in> set receipts \<Longrightarrow> log \<in> set (r_Logs r) \<Longrightarrow> sub_bits (log_bloom kec log) bin"
proof -
  show "bits_below 2048 bin" unfolding bin_def LogsBloom_fold
    by (intro bits_below_fold bits_below_0 log_bloom_below)
  assume "r \<in> set receipts" "log \<in> set (r_Logs r)"
  moreover from this have "sub_bits (log_bloom kec log) (LogsBloom kec (r_Logs r))"
    unfolding LogsBloom_fold by (intro sub_bits_fold) (auto simp: sub_bits_iff)
  ultimately show "sub_bits (log_bloom kec log) bin" unfolding bin_def by (intro sub_bits_fold) auto
qed

lemma CreateBloom_big:
  obtains bloom where "CreateBloom kec receipts = Some bloom" "length bloom = 256"
    "BytesToBig bloom = fold (\<lambda>receipt bin. bin OR LogsBloom kec (r_Logs receipt)) receipts 0"
proof -
  define bin where "bin = fold (\<lambda>receipt bin. bin OR LogsBloom kec (r_Logs receipt)) receipts 0"
  have b: "0 \<le> bin" "bin < 2 ^ 2048" using receipts_bloom(1) [of kec receipts] unfolding bin_def [symmetric] bits_below_def by auto
  have "(2 :: int) ^ 2048 = 256 ^ 256" using power_mult [of "2 :: int" 8 256] by simp
  then have "length (big_Bytes bin) \<le> 256" using b by (simp add: big_Bytes_def length_bigBytes nat_less_iff)
  moreover have "BytesToBig (replicate n 0 @ big_Bytes bin) = bin" for n
    using b(1) by (simp add: BytesToBig_def be_nat_replicate_0 big_Bytes_def be_nat_bigBytes)
  ultimately have "CreateBloom kec receipts = Some (replicate (256 - length (big_Bytes bin)) 0 @ big_Bytes bin)"
    by (simp add: CreateBloom_def BytesToBloom_def Bloom_SetBytes_def bloomLength_def bin_def [symmetric] Let_def)
  then show thesis using that \<open>length (big_Bytes bin) \<le> 256\<close> \<open>\<And>n. BytesToBig (replicate n 0 @ big_Bytes bin) = bin\<close>
    unfolding bin_def [symmetric] by fastforce
qed

lemma lookup_log:
  assumes "CreateBloom kec receipts = Some bloom" "r \<in> set receipts" "log \<in> set (r_Logs r)" "x = l_Address log \<or> x \<in> set (l_Topics log)"
  shows "BloomLookup kec bloom x"
proof -
  have "sub_bits (bloom9 kec x) (log_bloom kec log)"
    unfolding log_bloom_def using assms(4) by (intro sub_bits_fold) (auto simp: sub_bits_iff)
  moreover have "BytesToBig bloom = fold (\<lambda>receipt bin. bin OR LogsBloom kec (r_Logs receipt)) receipts 0"
    by (rule CreateBloom_big [of kec receipts]) (use assms(1) in simp)
  moreover note receipts_bloom(2) [OF assms(2,3), of kec]
  ultimately have "sub_bits (bloom9 kec x) (BytesToBig bloom)" by (simp add: sub_bits_iff)
  then show ?thesis by (simp add: BloomLookup_def sub_bits_def)
qed

lemma bloomFilter_log:
  assumes "CreateBloom kec receipts = Some bloom" "log \<in> set (filterLogs (concat (map r_Logs receipts)) None None addresses topics)"
  shows "bloomFilter kec bloom addresses topics"
proof -
  obtain r where r: "r \<in> set receipts" "log \<in> set (r_Logs r)" using assms(2) by (auto simp: filterLogs_def)
  note l = lookup_log [OF assms(1) r]
  have m: "addresses = [] \<or> includes_addr addresses (l_Address log)" "length topics \<le> length (l_Topics log)" "topics_match topics log"
    using assms(2) by (auto simp: filterLogs_def)
  have "list_ex (\<lambda>topic. topic = replicate 32 0 \<or> BloomLookup kec bloom topic) sub" if sub: "sub \<in> set topics" for sub
  proof -
    obtain i where i: "i < length topics" "topics ! i = sub" using sub unfolding in_set_conv_nth by blast
    then have "(i, sub) \<in> set (enumerate 0 topics)" by (auto simp: in_set_enumerate_eq)
    then have "list_ex (\<lambda>topic. topic = replicate 32 0 \<or> l_Topics log ! i = topic) sub"
      using m(3) unfolding topics_match_def list_all_iff by blast
    moreover have "BloomLookup kec bloom (l_Topics log ! i)" using i(1) m(2) by (intro l) simp
    ultimately show ?thesis by (auto simp: list_ex_iff)
  qed
  moreover have "addresses = [] \<or> list_ex (\<lambda>addr. BloomLookup kec bloom addr) addresses"
    using m(1) l [of "l_Address log"] by (auto simp: includes_addr_def list_ex_iff)
  ultimately show ?thesis by (auto simp: bloomFilter_def list_all_iff)
qed

text \<open>The search that reads the receipts of every block.\<close>

primrec find_logs ::
  "nat \<Rightarrow> (bytes \<Rightarrow> hash) \<Rightarrow> 'e LogBackend \<Rightarrow> address list \<Rightarrow> hash list list \<Rightarrow> u64 \<Rightarrow> u64 \<Rightarrow> Log list \<times> u64 \<times> 'e option" where
  "find_logs 0 kec be addresses topics i stop = ([], stop, None)"
| "find_logs (Suc n) kec be addresses topics i stop =
     (case HeaderByNumber be (sint i) of
        (Some header, None) \<Rightarrow>
          (case GetReceipts be (header_Hash kec header) of
             Inl err \<Rightarrow> ([], stop, Some err)
           | Inr receipts \<Rightarrow>
               (let logs = filterLogs (concat (map r_Logs receipts)) None None addresses topics
                in if logs \<noteq> [] then (logs, i, None) else find_logs n kec be addresses topics (i + 1) stop))
      | (_, err) \<Rightarrow> ([], stop, err))"

definition blooms_ok :: "(bytes \<Rightarrow> hash) \<Rightarrow> 'e LogBackend \<Rightarrow> u64 \<Rightarrow> u64 \<Rightarrow> bool" where
  "blooms_ok kec be start stop \<longleftrightarrow>
     (\<forall>i header. start \<le> i \<and> i \<le> stop \<and> HeaderByNumber be (sint i) = (Some header, None) \<longrightarrow>
        (\<exists>receipts. GetReceipts be (header_Hash kec header) = Inr receipts \<and> CreateBloom kec receipts = Some (h_Bloom header)))"

lemma getLogs_find:
  assumes "unat stop + 1 < 2 ^ 64" "n = unat stop + 1 - unat start" "n < fuel" "blooms_ok kec be start stop" "unat start \<le> unat stop + 1"
  shows "getLogs fuel kec be addresses topics start stop = Ret (find_logs n kec be addresses topics start stop)"
  using assms(2-)
proof (induction n arbitrary: fuel start)
  case 0
  then obtain f where "fuel = Suc f" by (cases fuel) auto
  then show ?case using 0 by (simp add: word_le_nat_alt)
next
  case (Suc n)
  then obtain f where f: "fuel = Suc f" "n < f" by (cases fuel) auto
  have le: "start \<le> stop" using Suc.prems(1) by (simp add: word_le_nat_alt)
  have nx: "unat (start + 1) = unat start + 1" using assms(1) Suc.prems(1) by (simp add: unat_word_ariths)
  have "start \<le> i" if "start + 1 \<le> i" for i using that nx by (simp add: word_le_nat_alt)
  then have "blooms_ok kec be (start + 1) stop" using Suc.prems(3) unfolding blooms_ok_def by blast
  then have ih: "getLogs f kec be addresses topics (start + 1) stop = Ret (find_logs n kec be addresses topics (start + 1) stop)"
    using Suc.prems(1,4) nx by (intro Suc.IH f(2)) simp_all
  show ?case
  proof (cases "HeaderByNumber be (sint start)")
    case (Pair h e)
    show ?thesis
    proof (cases "\<exists>header. h = Some header \<and> e = None")
      case True
      then obtain header where h: "HeaderByNumber be (sint start) = (Some header, None)" using Pair by auto
      then obtain receipts where r: "GetReceipts be (header_Hash kec header) = Inr receipts" "CreateBloom kec receipts = Some (h_Bloom header)"
        using Suc.prems(3) le unfolding blooms_ok_def by blast
      define logs where "logs = filterLogs (concat (map r_Logs receipts)) None None addresses topics"
      have "bloomFilter kec (h_Bloom header) addresses topics" if "logs \<noteq> []"
        using bloomFilter_log [OF r(2), of "hd logs"] that unfolding logs_def by simp
      then show ?thesis using h r(1) le ih by (auto simp: f(1) logs_def [symmetric] Let_def)
    next
      case False
      then show ?thesis using Pair le by (auto simp: f(1) split: option.splits)
    qed
  qed
qed

text \<open>
  C15: the search through the blooms misses nothing: it returns, and its result is that of reading the
  receipts of every block in the range, if the headers have the blooms of their receipts.
\<close>

theorem getLogs_exact:
  assumes "start \<le> stop" "unat stop + 1 < 2 ^ 64" "unat stop + 1 - unat start < fuel" "blooms_ok kec be start stop"
  shows "getLogs fuel kec be addresses topics start stop =
    Ret (find_logs (unat stop + 1 - unat start) kec be addresses topics start stop)"
  by (rule getLogs_find [OF assms(2) refl assms(3,4)]) (use assms(1) in \<open>simp add: word_le_nat_alt\<close>)

definition ex_log :: Log where
  "ex_log = \<lparr>l_Address = replicate 20 7, l_Topics = [replicate 32 1, replicate 32 2], l_Data = [], l_BlockNumber = 1\<rparr>"

definition ex_receipt :: Receipt where
  "ex_receipt = \<lparr>r_PostState = [], r_CumulativeGasUsed = 21000, r_Bloom = [], r_Logs = [ex_log], r_TxHash = [],
     r_ContractAddress = [], r_GasUsed = 21000\<rparr>"

definition ex_logs :: "unit LogBackend" where
  "ex_logs =
     \<lparr>HeaderByNumber = (\<lambda>n. (Some (ex_parent\<lparr>h_Bloom := the (CreateBloom (\<lambda>x. x) [ex_receipt]), Number := n\<rparr>), None)),
      GetReceipts = (\<lambda>_. Inr [ex_receipt])\<rparr>"

theorem getLogs_exact_witness:
  "getLogs 5 (\<lambda>x. x) ex_logs [replicate 20 7] [[replicate 32 1], [replicate 32 0]] 2 4 =
    Ret (find_logs (unat (4 :: u64) + 1 - unat (2 :: u64)) (\<lambda>x. x) ex_logs [replicate 20 7] [[replicate 32 1], [replicate 32 0]] 2 4) \<and>
   find_logs 3 (\<lambda>x. x) ex_logs [replicate 20 7] [[replicate 32 1], [replicate 32 0]] 2 4 = ([ex_log], 2, None)"
proof
  have "blooms_ok (\<lambda>x. x) ex_logs 2 4"
    by (rule CreateBloom_big [of "\<lambda>x. x" "[ex_receipt]"]) (simp add: blooms_ok_def ex_logs_def)
  then show "getLogs 5 (\<lambda>x. x) ex_logs [replicate 20 7] [[replicate 32 1], [replicate 32 0]] 2 4 =
    Ret (find_logs (unat (4 :: u64) + 1 - unat (2 :: u64)) (\<lambda>x. x) ex_logs [replicate 20 7] [[replicate 32 1], [replicate 32 0]] 2 4)"
    by (intro getLogs_exact) simp_all
  show "find_logs 3 (\<lambda>x. x) ex_logs [replicate 20 7] [[replicate 32 1], [replicate 32 0]] 2 4 = ([ex_log], 2, None)"
    by (simp add: eval_nat_numeral ex_logs_def ex_receipt_def filterLogs_def includes_addr_def topics_match_def ex_log_def)
qed

section \<open>Adding to a filter\<close>

lemma be_nat_append: "be_nat (xs @ ys) = be_nat xs * 256 ^ length ys + be_nat ys"
  by (induction xs) (simp_all add: be_nat_Cons algebra_simps power_add)

lemma BytesToBig_less: "BytesToBig b < 256 ^ length b"
proof -
  have "int (be_nat b) < int (256 ^ length b)" using be_nat_bound [of b] by (simp only: of_nat_less_iff)
  then show ?thesis by (simp add: BytesToBig_def)
qed

text \<open>
  \<open>Add\<close> does not panic on a filter of the right size, the number is found from then on, and so is
  everything that was found before.
\<close>

lemma Bloom_Add_Test:
  assumes "length b = 256"
  obtains b' where "Bloom_Add kec b d = Some b'" "length b' = 256" "Bloom_Test kec b' d" "\<And>e. Bloom_Test kec b e \<Longrightarrow> Bloom_Test kec b' e"
proof -
  define bin where "bin = BytesToBig b OR bloom9 kec (big_Bytes d)"
  have e: "(2 :: int) ^ 2048 = 256 ^ 256" using power_mult [of "2 :: int" 8 256] by simp
  have "bits_below 2048 (BytesToBig b)"
    unfolding bits_below_def e using BytesToBig_less [of b] unfolding assms by (intro conjI) (simp_all only: BytesToBig_def of_nat_0_le_iff)
  then have b: "0 \<le> bin" "bin < 256 ^ 256" using bits_below_or [OF _ bloom9_below] unfolding bin_def bits_below_def e by blast+
  define ds where "ds = big_Bytes bin"
  have ds: "length ds \<le> 256" "be_nat ds = nat bin"
    using b by (simp_all only: ds_def big_Bytes_def length_bigBytes nat_less_iff be_nat_bigBytes abs_of_nonneg of_nat_power of_nat_numeral)
  have "sub_bits (BytesToBig b) bin" by (simp add: bin_def sub_bits_iff bit_or_iff)
  then have "BytesToBig b \<le> bin" unfolding sub_bits_def using b(1) by (metis AND_upper1)
  then have "be_nat b \<le> be_nat ds" using b(1) ds(2) by (simp add: BytesToBig_def le_nat_iff)
  then have "be_nat b < 256 ^ length ds" using be_nat_bound [of ds] by (rule le_less_trans)
  moreover have "be_nat b = be_nat (take (256 - length ds) b) * 256 ^ length ds + be_nat (drop (256 - length ds) b)"
    using be_nat_append [of "take (256 - length ds) b" "drop (256 - length ds) b"] assms ds(1) by simp
  ultimately have z: "be_nat (take (256 - length ds) b) = 0" by (cases "be_nat (take (256 - length ds) b)") simp_all
  define b' where "b' = take (256 - length ds) b @ ds"
  have "BytesToBig b' = bin" using z ds(2) b(1) by (simp add: b'_def BytesToBig_def be_nat_append)
  then have t: "Bloom_Test kec b' x \<longleftrightarrow> sub_bits (bloom9 kec (big_Bytes x)) bin" "Bloom_Test kec b x \<longleftrightarrow> sub_bits (bloom9 kec (big_Bytes x)) (BytesToBig b)" for x
    by (simp_all add: Bloom_Test_def BloomLookup_def sub_bits_def Let_def)
  show thesis
  proof (rule that [of b'])
    show "Bloom_Add kec b d = Some b'" using ds(1) assms
      by (simp add: Bloom_Add_def Bloom_SetBytes_def bloomLength_def Let_def flip: bin_def) (simp add: b'_def flip: ds_def)
    show "length b' = 256" using ds(1) assms by (simp add: b'_def)
    show "Bloom_Test kec b' d" unfolding t by (simp add: bin_def sub_bits_iff bit_or_iff)
    show "Bloom_Test kec b' x" if "Bloom_Test kec b x" for x using that unfolding t by (simp add: bin_def sub_bits_iff bit_or_iff)
  qed
qed

end
