(* ===== verification/Spec2Isabelle.thy ===== *)
theory Spec2Isabelle
  imports RLP_Typed Trie_Map VM_Arith State_Props Core_Tx Core_Header Log_Filter
begin

text \<open>
  A verification development for the Go implementation of Ethereum under \<open>src/go-ethereum\<close>.

  \<^bold>\<open>Parts of the program.\<close> Values are serialised by the RLP codec (\<open>rlp\<close>). The Merkle Patricia trie
  (\<open>trie\<close>) stores keys and values in nodes that are serialised by RLP and linked by hash; the state
  database (\<open>core/state\<close>) keeps the accounts in such a trie, with a cache of live objects and a
  journal for snapshots. The virtual machine (\<open>core/vm\<close>) runs contract code on a stack, a memory and
  the state database, and the state transition (\<open>core\<close>) applies a transaction: it buys gas, runs the
  message and refunds. Around these sit the transaction pool, the block chain, networking and the
  command line.
\<close>

end
